(* ===== verification/Kernel_Prelude.thy ===== *)
theory Kernel_Prelude
  imports Main "HOL-Library.Word"
begin

text \<open>
  Shared ground of the development: the machine integers of the i686 target, the byte
  memory the kernel's pointers range over, the ways the kernel stops, counted loops, and
  the generic lemmas on them that every component uses.

  The target is a 32-bit x86 (\<^verbatim>\<open>-m32\<close> in the Makefile): \<open>unsigned\<close>, \<open>size_t\<close>, \<open>uintptr_t\<close> and
  pointers have 32 bits, \<open>char\<close> is signed and has 8, multi-byte values are little endian.
\<close>

unbundle bit_operations_syntax

section \<open>Machine integers, memory and outcomes\<close>

type_synonym u8 = "8 word"
type_synonym u16 = "16 word"
type_synonym u32 = "32 word"
type_synonym u64 = "64 word"

text \<open>
  The byte memory the kernel's raw pointers address. Every pointer is a \<open>u32\<close>; pointer
  arithmetic wraps as the hardware's does.
\<close>

type_synonym mem = "u32 \<Rightarrow> u8"

text \<open>
  How the kernel stops. \<open>Panic\<close> is \<open>panic()\<close> of libk/panic.cpp, which prints its message and
  executes \<open>cli; hlt\<close>; \<open>AssertFailed\<close> is \<open>_assert()\<close> with a false expression, which does the
  same. \<open>Hang\<close> is a loop that never ends, \<open>Undefined\<close> an access outside a C++ object,
  \<open>PageFault\<close> an access through a page that is not present, \<open>DivideError\<close> a division by zero.
\<close>

datatype halt =
    Panic string
  | AssertFailed
  | Hang
  | Undefined string
  | PageFault u32
  | DivideError

type_synonym 'a result = "halt + 'a"

text \<open>Sequencing: the rest of a function runs only if the step before it returned.\<close>

fun and_then :: "'a result \<Rightarrow> ('a \<Rightarrow> 'b result) \<Rightarrow> 'b result" where
  "and_then (Inl e) f = Inl e"
| "and_then (Inr x) f = f x"

text \<open>A loop whose non-termination is the value \<open>None\<close> hangs the kernel.\<close>

fun returns :: "'a option \<Rightarrow> 'a result" where
  "returns None = Inl Hang"
| "returns (Some x) = Inr x"

lemma and_then_Inr_iff:
  "and_then r f = Inr y \<longleftrightarrow> (\<exists>x. r = Inr x \<and> f x = Inr y)"
  by (cases r) auto

lemma and_then_InrE:
  assumes "and_then r f = Inr y"
  obtains x where "r = Inr x" and "f x = Inr y"
  using assms by (auto simp: and_then_Inr_iff)

section \<open>Named collections\<close>

named_theorems word_nat \<open>unsigned words read as natural numbers\<close>
named_theorems mem_frame \<open>what an operation leaves unchanged in memory\<close>

section \<open>Unsigned words as naturals\<close>

lemma unat_add_small [word_nat]:
  "unat a + unat b < 2 ^ LENGTH('a) \<Longrightarrow> unat (a + b :: 'a::len word) = unat a + unat b"
  by (simp add: unat_word_ariths)

lemma unat_mult_small [word_nat]:
  "unat a * unat b < 2 ^ LENGTH('a) \<Longrightarrow> unat (a * b :: 'a::len word) = unat a * unat b"
  by (simp add: unat_word_ariths)

lemma unat_of_nat_small [word_nat]:
  "k < 2 ^ LENGTH('a) \<Longrightarrow> unat (of_nat k :: 'a::len word) = k"
  by (simp add: unat_of_nat)

lemma word_eq_of_natI: "unat (w :: 'a::len word) = k \<Longrightarrow> w = of_nat k"
  by auto

lemma unat_inj: "unat (a :: 'a::len word) = unat b \<Longrightarrow> a = b"
  by (simp add: word_unat_eq_iff)

lemma unat_add_mod: "unat (a + b :: u32) = (unat a + unat b) mod 2 ^ 32"
  by (simp add: unat_word_ariths)

lemma unat_less_u32: "unat (a :: u32) < 4294967296"
  using unsigned_less [of a] by simp

lemma mod_sum_eq:
  "x + y = (N::nat)" if "(x + y) mod N = 0" "x < N" "0 < y" "y < N"
proof -
  from that obtain k where k: "x + y = N * k" by (auto simp: mod_eq_0_iff_dvd elim: dvdE)
  have "k \<noteq> 0" using that k by (cases k) auto
  moreover have "k < 2"
  proof (rule ccontr)
    assume "\<not> k < 2"
    then have "N * 2 \<le> N * k" by simp
    with that k show False by simp
  qed
  ultimately show ?thesis using k by (cases k) auto
qed

lemma unat_minus_u32: "unat (- a :: u32) = (if a = 0 then 0 else 2 ^ 32 - unat a)"
proof (cases "a = 0")
  case False
  have "(unat (- a) + unat a) mod 2 ^ 32 = unat (- a + a)" by (simp only: unat_add_mod)
  then have "(unat (- a) + unat a) mod 2 ^ 32 = 0" by simp
  moreover have "0 < unat a" using False by (simp add: unat_gt_0)
  ultimately have "unat (- a) + unat a = 2 ^ 32" using unat_less_u32 [of a] unat_less_u32 [of "- a"] by (intro mod_sum_eq) simp_all
  then show ?thesis using False by simp
qed simp

lemma of_nat_inj_small:
  "of_nat i = (of_nat j :: 'a::len word) \<longleftrightarrow> i = j"
  if "i < 2 ^ LENGTH('a)" "j < 2 ^ LENGTH('a)"
  using that by (metis unat_of_nat_small)

lemma unat_sub_le [word_nat]:
  "b \<le> a \<Longrightarrow> unat (a - b :: 'a::len word) = unat a - unat b"
  by (simp add: unat_sub word_le_nat_alt)

text \<open>Comparisons of numerals with 1, which the simplifier does not decide on words.\<close>

lemma numeral_le_1_word [simp]:
  "(numeral k :: 'a::len word) \<le> 1 \<longleftrightarrow> unat (numeral k :: 'a word) \<le> 1"
  by (simp add: word_le_nat_alt)

lemma one_le_numeral_word [simp]:
  "(1 :: 'a::len word) \<le> numeral k \<longleftrightarrow> 1 \<le> unat (numeral k :: 'a word)"
  by (simp add: word_le_nat_alt)

text \<open>Masks, complements of masks and shifts, read as naturals.\<close>

lemma unat_and_mask: "unat (w AND mask n :: 'a::len word) = unat w mod 2 ^ n"
proof -
  have "unat (w AND mask n) = take_bit n (unat w)"
    by (simp only: take_bit_eq_mask [symmetric] unsigned_take_bit_eq)
  then show ?thesis by (simp only: take_bit_eq_mod [of n "unat w"])
qed

lemma unat_and_0xfff: "unat (w AND 0xfff :: u32) = unat w mod 4096"
  using unat_and_mask [of w 12] by (simp add: mask_eq_exp_minus_1)

lemma unat_and_0x3ff: "unat (w AND 0x3ff :: u32) = unat w mod 1024"
  using unat_and_mask [of w 10] by (simp add: mask_eq_exp_minus_1)

lemma unat_and_not: "unat (w AND NOT m :: 'a::len word) = unat w - unat (w AND m)"
proof -
  have "w = (w AND m) OR (w AND NOT m)" by (auto intro!: bit_word_eqI simp: bit_simps)
  also have "\<dots> = (w AND m) + (w AND NOT m)"
    by (rule disjunctive_add_eq_or [symmetric]) (auto intro!: bit_word_eqI simp: bit_simps)
  finally have "w AND NOT m = w - (w AND m)" by (metis add_diff_cancel_left')
  moreover have "w AND m \<le> w" by (rule word_and_le2)
  ultimately show ?thesis by (simp add: unat_sub_le)
qed

lemma unat_drop_bit: "unat (drop_bit n w :: 'a::len word) = unat w div 2 ^ n"
proof -
  have "unat (drop_bit n w) = drop_bit n (unat w)" by (simp only: unat_drop_bit_eq)
  then show ?thesis by (simp only: drop_bit_eq_div [of n "unat w"])
qed

lemma unat_ucast_mod: "unat (ucast (w :: 'a::len word) :: 'b::len word) = unat w mod 2 ^ LENGTH('b)"
proof -
  have "unat (ucast w :: 'b word) = take_bit LENGTH('b) (unat w)" by (simp only: unsigned_ucast_eq)
  then show ?thesis by (simp only: take_bit_eq_mod [of _ "unat w"])
qed

lemma and_not_0xfff: "w AND NOT 0xfff = (w AND 0xfffff000 :: u32)"
proof -
  have "NOT 0xfff = (0xfffff000 :: u32)" by simp
  then show ?thesis by (simp only:)
qed

lemma mult_add_inj:
  fixes a b :: nat
  assumes "a + x = b + y" "a mod N = 0" "b mod N = 0" "x < N" "y < N"
  shows "a = b \<and> x = y"
proof -
  have "(a + x) mod N = x" using assms(2,4) mod_add_left_eq [of a N x] by simp
  moreover have "(b + y) mod N = y" using assms(3,5) mod_add_left_eq [of b N y] by simp
  ultimately show ?thesis using assms(1) by simp
qed

section \<open>Regions of memory\<close>

text \<open>
  The \<open>n\<close> bytes from address \<open>p\<close> on. The distance is computed on words, so a region that
  runs over the top of the address space continues at 0, as the accesses do.
\<close>

definition in_region :: "u32 \<Rightarrow> nat \<Rightarrow> u32 \<Rightarrow> bool" where
  "in_region p n a \<longleftrightarrow> unat (a - p) < n"

lemma in_region_0 [simp]: "\<not> in_region p 0 a"
  by (simp add: in_region_def)

lemma in_regionI: "i < n \<Longrightarrow> n \<le> 2 ^ 32 \<Longrightarrow> in_region p n (p + of_nat i)"
  by (simp add: in_region_def unat_of_nat_small)

lemma in_regionE:
  assumes "in_region p n a"
  obtains i where "i < n" and "a = p + of_nat i"
proof
  show "unat (a - p) < n" using assms by (simp add: in_region_def)
  show "a = p + of_nat (unat (a - p))" by simp
qed

lemma in_region_mono: "in_region p n a \<Longrightarrow> n \<le> k \<Longrightarrow> in_region p k a"
  by (simp add: in_region_def)

text \<open>Regions inside a region, and the two parts of one.\<close>

lemma in_region_sub:
  assumes "in_region (p + of_nat b) n a" "b + n \<le> N" "N \<le> 2 ^ 32"
  shows "in_region p N a"
proof -
  obtain i where i: "i < n" "a = p + of_nat b + of_nat i" by (rule in_regionE [OF assms(1)])
  then have "a = p + of_nat (b + i)" by (simp add: add.assoc)
  then show ?thesis using in_regionI [of "b + i" N p] i(1) assms(2,3) by (simp add: add.assoc)
qed

lemma in_region_shift:
  fixes p :: u32
  assumes "k + n \<le> 2 ^ 32"
  shows "in_region p (k + n) a \<longleftrightarrow> in_region p k a \<or> in_region (p + of_nat k) n a"
    and "in_region (p + of_nat k) n a \<Longrightarrow> \<not> in_region p k a"
proof -
  have shift: "unat (a - p) = unat (a - (p + of_nat k)) + k" if "unat (a - (p + of_nat k)) < n"
  proof -
    have "a - p = (a - (p + of_nat k)) + of_nat k" by simp
    moreover have "unat (of_nat k :: u32) = k" using assms that by (intro unat_of_nat_small) simp
    ultimately show ?thesis using assms that by (simp only:) (subst unat_add_small; simp)
  qed
  show "in_region (p + of_nat k) n a \<Longrightarrow> \<not> in_region p k a" using shift by (simp add: in_region_def)
  have "in_region (p + of_nat k) n a" if a: "unat (a - p) < k + n" "\<not> unat (a - p) < k"
  proof -
    have k: "unat (of_nat k :: u32) = k" using a assms by (intro unat_of_nat_small) simp
    then have "of_nat k \<le> a - p" using a by (simp add: word_le_nat_alt)
    then have "unat (a - p - of_nat k) = unat (a - p) - k" using k by (simp only: unat_sub_le)
    moreover have "a - p - of_nat k = a - (p + of_nat k)" by simp
    ultimately show ?thesis using a unfolding in_region_def by (metis less_diff_conv2 not_less add.commute)
  qed
  then show "in_region p (k + n) a \<longleftrightarrow> in_region p k a \<or> in_region (p + of_nat k) n a"
    using shift by (auto simp: in_region_def)
qed

lemma in_region_offset:
  assumes "b + n < 2 ^ 31" "k < 2 ^ 31"
  shows "in_region (p + of_nat b) n (p + of_nat k) \<longleftrightarrow> b \<le> k \<and> k < b + n"
proof -
  have k: "unat (of_nat k :: u32) = k" "unat (of_nat b :: u32) = b"
    using assms by (simp_all add: unat_of_nat_small)
  show ?thesis
  proof (cases "b \<le> k")
    case True
    then have "unat (of_nat k - of_nat b :: u32) = k - b"
      using k by (simp add: unat_sub_le word_le_nat_alt)
    then show ?thesis using True by (auto simp: in_region_def)
  next
    case False
    then have "unat (of_nat k - of_nat b :: u32) = 2 ^ 32 - (b - k)"
      using k assms unat_minus_u32 [of "of_nat b - of_nat k"] unat_sub_le [of "of_nat k" "of_nat b :: u32"]
      by (auto simp: word_le_nat_alt unat_gt_0 [symmetric] simp del: unat_gt_0)
    then show ?thesis using False assms by (simp add: in_region_def)
  qed
qed

lemma in_region_unat:
  assumes "unat p + n \<le> 2 ^ 32"
  shows "in_region p n a \<longleftrightarrow> unat p \<le> unat a \<and> unat a < unat p + n"
proof (cases "p \<le> a")
  case True
  then show ?thesis by (auto simp: in_region_def unat_sub_le word_le_nat_alt)
next
  case False
  then have less: "unat a < unat p" by (simp add: word_le_nat_alt)
  then have "unat (a - p) = 2 ^ 32 - unat (p - a)" using unat_minus_u32 [of "p - a"] by auto
  also have "unat (p - a) = unat p - unat a" using less by (simp add: unat_sub_le word_le_nat_alt)
  finally show ?thesis using less assms by (simp add: in_region_def)
qed

text \<open>Two regions that share no byte.\<close>

definition disjoint_regions :: "u32 \<Rightarrow> nat \<Rightarrow> u32 \<Rightarrow> nat \<Rightarrow> bool" where
  "disjoint_regions p n q k \<longleftrightarrow> n \<le> unat (q - p) \<and> k \<le> unat (p - q) \<or> n = 0 \<or> k = 0"

lemma disjoint_regions_sym: "disjoint_regions p n q k \<Longrightarrow> disjoint_regions q k p n"
  by (auto simp: disjoint_regions_def)

lemma disjoint_regionsD:
  assumes "disjoint_regions p n q k" and "in_region p n a"
  shows "\<not> in_region q k a"
proof
  assume "in_region q k a"
  then have less: "unat (a - q) < k" "unat (a - p) < n"
    using assms(2) by (auto simp: in_region_def)
  then have far: "n \<le> unat (q - p)" "k \<le> unat (p - q)"
    using assms(1) by (auto simp: disjoint_regions_def)
  have "a - p = (a - q) + (q - p)" by simp
  then have one: "unat (a - p) = (unat (a - q) + unat (q - p)) mod 2 ^ 32"
    by (metis unat_add_mod)
  have two: "unat (q - p) = (if p = q then 0 else 2 ^ 32 - unat (p - q))"
    using unat_minus_u32 [of "p - q"] by simp
  show False
  proof (cases "p = q")
    case True
    then show ?thesis using less far by simp
  next
    case False
    with two have "unat (q - p) = 2 ^ 32 - unat (p - q)" by simp
    then have "unat (a - q) + unat (q - p) < 2 ^ 32"
      using less far unat_less_u32 [of "p - q"] by (simp add: less_diff_conv2)
    with one less far show ?thesis by simp
  qed
qed

text \<open>Regions that lie one behind the other below 4 GB share no byte.\<close>

lemma disjoint_regionsI:
  assumes "unat p + n \<le> unat q" "unat q + k \<le> 2 ^ 32"
  shows "disjoint_regions p n q k"
proof -
  have le: "p \<le> q" using assms(1) by (simp add: word_le_nat_alt)
  then have dist: "unat (q - p) = unat q - unat p" by (simp add: unat_sub_le)
  show ?thesis
  proof (cases "p = q")
    case True
    then show ?thesis using assms(1) by (simp add: disjoint_regions_def)
  next
    case False
    then have "unat (p - q) = 2 ^ 32 - (unat q - unat p)"
      using unat_minus_u32 [of "q - p"] dist by simp
    then have "n \<le> unat (q - p)" "k \<le> unat (p - q)" using dist assms by simp_all
    then show ?thesis by (simp add: disjoint_regions_def)
  qed
qed

section \<open>Counted loops\<close>

text \<open>\<open>for (i = 0; i < n; i++) s = f i s\<close>, for a body without an early exit.\<close>

primrec for_upto :: "(nat \<Rightarrow> 's \<Rightarrow> 's) \<Rightarrow> nat \<Rightarrow> 's \<Rightarrow> 's" where
  "for_upto f 0 s = s"
| "for_upto f (Suc n) s = f n (for_upto f n s)"

lemma for_upto_invariant:
  assumes "I 0 s" and "\<And>i s. i < n \<Longrightarrow> I i s \<Longrightarrow> I (Suc i) (f i s)"
  shows "I n (for_upto f n s)"
  using assms by (induction n) auto

lemma for_upto_code:
  "for_upto f n s = fold f [0..<n] s"
  by (induction n) auto

text \<open>A loop that stores to consecutive bytes writes exactly that region.\<close>

lemma for_upto_store:
  assumes "n \<le> 2 ^ 32"
  shows "for_upto (\<lambda>i m. m(p + of_nat i := g i)) n m a =
         (if in_region p n a then g (unat (a - p)) else m a)"
  using assms
proof (induction n)
  case 0
  then show ?case by simp
next
  case (Suc n)
  then have n: "n < 2 ^ 32" by simp
  have "a = p + of_nat n \<longleftrightarrow> unat (a - p) = n"
    using n by (auto simp: unat_of_nat_small)
  with Suc show ?case by (auto simp: in_region_def less_Suc_eq)
qed

section \<open>Lists\<close>

text \<open>The index of the first element with a property, as a search loop with an early exit finds it.\<close>

fun first_index :: "('a \<Rightarrow> bool) \<Rightarrow> 'a list \<Rightarrow> nat option" where
  "first_index P [] = None"
| "first_index P (x # xs) = (if P x then Some 0 else map_option Suc (first_index P xs))"

lemma first_index_Some_iff:
  "first_index P xs = Some i \<longleftrightarrow> i < length xs \<and> P (xs ! i) \<and> (\<forall>j<i. \<not> P (xs ! j))"
proof (induction xs arbitrary: i)
  case (Cons x xs)
  then show ?case by (cases i) (auto simp: less_Suc_eq_0_disj)
qed simp

lemma first_index_None_iff: "first_index P xs = None \<longleftrightarrow> (\<forall>x\<in>set xs. \<not> P x)"
  by (induction xs) auto

lemma nth_list_update_field: "f x = f (xs ! i) \<Longrightarrow> f (xs[i := x] ! j) = f (xs ! j)"
  by (cases "i < length xs") (auto simp: nth_list_update list_update_beyond)

section \<open>Little-endian loads and stores\<close>

definition load16 :: "mem \<Rightarrow> u32 \<Rightarrow> u16" where
  "load16 m a = ucast (m a) OR push_bit 8 (ucast (m (a + 1)))"

definition load32 :: "mem \<Rightarrow> u32 \<Rightarrow> u32" where
  "load32 m a = ucast (load16 m a) OR push_bit 16 (ucast (load16 m (a + 2)))"

definition load64 :: "mem \<Rightarrow> u32 \<Rightarrow> u64" where
  "load64 m a = ucast (load32 m a) OR push_bit 32 (ucast (load32 m (a + 4)))"

definition store16 :: "u32 \<Rightarrow> u16 \<Rightarrow> mem \<Rightarrow> mem" where
  "store16 a v m = m(a := ucast v, a + 1 := ucast (drop_bit 8 v))"

lemma load16_store16 [simp]: "load16 (store16 a v m) a = v"
proof -
  have "a + 1 \<noteq> a" by simp
  then show ?thesis
    by (auto simp: load16_def store16_def bit_simps intro!: bit_word_eqI)
qed

lemma store16_other [mem_frame]: "\<not> in_region a 2 b \<Longrightarrow> store16 a v m b = m b"
proof -
  assume "\<not> in_region a 2 b"
  then have "2 \<le> unat (b - a)" by (simp add: in_region_def)
  moreover have "b = a + 1 \<Longrightarrow> unat (b - a) = 1" by simp
  moreover have "b = a \<Longrightarrow> unat (b - a) = 0" by simp
  ultimately show ?thesis unfolding store16_def by (metis fun_upd_other not_numeral_le_zero
        one_le_numeral nat_1_add_1 not_less_eq_eq One_nat_def Suc_1 le_antisym n_not_Suc_n)
qed

text \<open>A load only depends on its bytes.\<close>

lemma load32_bytes:
  assumes "m a = ucast w" "m (a + 1) = ucast (drop_bit 8 w)" "m (a + 2) = ucast (drop_bit 16 w)" "m (a + 3) = ucast (drop_bit 24 w)"
  shows "load32 m a = w"
proof (rule bit_word_eqI)
  fix n assume "n < LENGTH(32)"
  then show "bit (load32 m a) n = bit w n"
    using assms by (cases "n < 8"; cases "n < 16"; cases "n < 24") (auto simp: load32_def load16_def bit_simps add.assoc)
qed

lemma load32_cong: "(\<And>x. in_region a 4 x \<Longrightarrow> m' x = m x) \<Longrightarrow> load32 m' a = load32 m a"
  using in_regionI [of 0 4 a] in_regionI [of 1 4 a] in_regionI [of 2 4 a] in_regionI [of 3 4 a]
  by (simp add: load32_def load16_def add.assoc)

lemma load64_cong: 
  assumes "\<And>x. in_region a 8 x \<Longrightarrow> m' x = m x"
  shows "load64 m' a = load64 m a"
proof -
  have "in_region a 8 x" if "in_region a 4 x \<or> in_region (a + 4) 4 x" for x
    using that in_region_shift(1) [of 4 4 a x] by simp
  then show ?thesis using assms load32_cong [of a m' m] load32_cong [of "a + 4" m' m] by (simp add: load64_def)
qed

section \<open>Strings of C\<close>

text \<open>\<open>cstr m p s\<close>: the memory holds the characters \<open>s\<close> at \<open>p\<close>, followed by a NUL byte.\<close>

fun cstr :: "mem \<Rightarrow> u32 \<Rightarrow> u8 list \<Rightarrow> bool" where
  "cstr m p [] \<longleftrightarrow> m p = 0"
| "cstr m p (c # cs) \<longleftrightarrow> c \<noteq> 0 \<and> m p = c \<and> cstr m (p + 1) cs"

lemma cstr_nth:
  "cstr m p s \<longleftrightarrow> (\<forall>i<length s. m (p + of_nat i) = s ! i \<and> s ! i \<noteq> 0) \<and> m (p + of_nat (length s)) = 0"
proof (induction s arbitrary: p)
  case Nil
  then show ?case by simp
next
  case (Cons c cs)
  show ?case
    by (auto simp: Cons.IH nth_Cons less_Suc_eq_0_disj add.assoc all_conj_distrib split: nat.splits)
qed

end
