(* ===== verification/PMM_Bitmap.thy ===== *)
theory PMM_Bitmap
  imports Kernel_Prelude
begin

text \<open>
  The allocation bitmap of the physical memory manager (src/PMM.cpp): one bit for each page
  of a zone, in memory at \<open>alloc_bitmap\<close>. \<open>CheckIfPagesFree\<close> tests a run of bits,
  \<open>MapPagesInBitmap\<close> sets one and the loop of \<open>UnmapPages\<close> flips one. The interface
  \<open>page_bitmap\<close> states what the allocator relies on.
\<close>

section \<open>Definitions\<close>

text \<open>
  \<open>alloc_bitmap[byte_offset] & (1 << bit_offset)\<close>: the \<open>char\<close> is promoted to a signed
  \<open>int\<close> before the AND.
\<close>

definition test_bit_at :: "mem \<Rightarrow> u32 \<Rightarrow> u32 \<Rightarrow> u32 \<Rightarrow> bool" where
  "test_bit_at m alloc_bitmap byte_offset bit_offset \<longleftrightarrow>
     (scast (m (alloc_bitmap + byte_offset)) :: u32) AND push_bit (unat bit_offset) 1 \<noteq> 0"

text \<open>The loop of \<open>CheckIfPagesFree\<close> with \<open>k\<close> bits to go.\<close>

fun check_free_from :: "mem \<Rightarrow> u32 \<Rightarrow> u32 \<Rightarrow> u32 \<Rightarrow> nat \<Rightarrow> bool" where
  "check_free_from m alloc_bitmap byte_offset bit_offset 0 = True"
| "check_free_from m alloc_bitmap byte_offset bit_offset (Suc k) =
     (if test_bit_at m alloc_bitmap byte_offset bit_offset then False
      else let bit_offset = bit_offset + 1 in
        if bit_offset \<ge> 8 then check_free_from m alloc_bitmap (byte_offset + 1) 0 k
        else check_free_from m alloc_bitmap byte_offset bit_offset k)"

definition CheckIfPagesFree :: "mem \<Rightarrow> u32 \<Rightarrow> u32 \<Rightarrow> u32 \<Rightarrow> bool" where
  "CheckIfPagesFree m alloc_bitmap page_offset page_count =
     check_free_from m alloc_bitmap (page_offset div 8) (page_offset mod 8) (unat page_count)"

text \<open>
  The two loops that write the bitmap differ only in the operator of the compound
  assignment: \<open>upd b mask\<close> is the new value of the byte \<open>b\<close>.
\<close>

fun update_bits_from :: "(u32 \<Rightarrow> u32 \<Rightarrow> u32) \<Rightarrow> u32 \<Rightarrow> u32 \<Rightarrow> u32 \<Rightarrow> nat \<Rightarrow> mem \<Rightarrow> mem" where
  "update_bits_from upd alloc_bitmap byte_offset bit_offset 0 m = m"
| "update_bits_from upd alloc_bitmap byte_offset bit_offset (Suc k) m =
     (let a = alloc_bitmap + byte_offset;
          m' = m(a := ucast (upd (scast (m a)) (push_bit (unat bit_offset) 1)));
          bit_offset = bit_offset + 1
      in if bit_offset \<ge> 8 then update_bits_from upd alloc_bitmap (byte_offset + 1) 0 k m'
         else update_bits_from upd alloc_bitmap byte_offset bit_offset k m')"

definition MapPagesInBitmap :: "u32 \<Rightarrow> u32 \<Rightarrow> u32 \<Rightarrow> mem \<Rightarrow> mem" where
  "MapPagesInBitmap alloc_bitmap page_offset page_count m =
     update_bits_from (OR) alloc_bitmap (page_offset div 8) (page_offset mod 8)
       (unat page_count) m"

text \<open>The loop of \<open>UnmapPages\<close> flips the bits: its operator is \<open>^=\<close>.\<close>

definition FlipPagesInBitmap :: "u32 \<Rightarrow> u32 \<Rightarrow> u32 \<Rightarrow> mem \<Rightarrow> mem" where
  "FlipPagesInBitmap alloc_bitmap page_offset page_count m =
     update_bits_from (XOR) alloc_bitmap (page_offset div 8) (page_offset mod 8)
       (unat page_count) m"

section \<open>The bit of a page\<close>

text \<open>The bit of page number \<open>p\<close>, as a fact about memory that the loops are measured by.\<close>

definition page_used :: "mem \<Rightarrow> u32 \<Rightarrow> nat \<Rightarrow> bool" where
  "page_used m bm p = bit (m (bm + of_nat (p div 8))) (p mod 8)"

lemma test_bit_at_page:
  "test_bit_at m bm (of_nat (p div 8)) (of_nat (p mod 8)) = page_used m bm p"
proof -
  have "p mod 8 < 8" by simp
  then have "unat (of_nat (p mod 8) :: u32) = p mod 8" by (simp add: unat_of_nat_small)
  then show ?thesis using \<open>p mod 8 < 8\<close>
    by (auto simp: test_bit_at_def page_used_def and_exp_eq_0_iff_not_bit bit_simps)
qed

text \<open>The step of the two offsets is the step to the next page number.\<close>

lemma next_page_offsets:
  shows "(of_nat (p mod 8) + 1 :: u32) \<ge> 8 \<longleftrightarrow> p mod 8 = 7"
    and "p mod 8 = 7 \<Longrightarrow> (of_nat (p div 8) + 1 :: u32) = of_nat (Suc p div 8) \<and> Suc p mod 8 = 0"
    and "p mod 8 \<noteq> 7 \<Longrightarrow> Suc p div 8 = p div 8 \<and> (of_nat (p mod 8) + 1 :: u32) = of_nat (Suc p mod 8)"
proof -
  have "p mod 8 < 8" by simp
  then show "(of_nat (p mod 8) + 1 :: u32) \<ge> 8 \<longleftrightarrow> p mod 8 = 7"
    by (auto simp: word_le_nat_alt unat_word_ariths unat_of_nat)
  show "p mod 8 = 7 \<Longrightarrow> (of_nat (p div 8) + 1 :: u32) = of_nat (Suc p div 8) \<and> Suc p mod 8 = 0"
    by (simp add: div_Suc mod_Suc)
  show "p mod 8 \<noteq> 7 \<Longrightarrow> Suc p div 8 = p div 8 \<and> (of_nat (p mod 8) + 1 :: u32) = of_nat (Suc p mod 8)"
    by (simp add: div_Suc mod_Suc)
qed

lemma check_free_from_page:
  "check_free_from m bm (of_nat (p div 8)) (of_nat (p mod 8)) k \<longleftrightarrow> (\<forall>i<k. \<not> page_used m bm (p + i))"
proof (induction k arbitrary: p)
  case 0
  then show ?case by simp
next
  case (Suc k)
  have "(\<forall>i<Suc k. \<not> page_used m bm (p + i)) \<longleftrightarrow>
        \<not> page_used m bm p \<and> (\<forall>i<k. \<not> page_used m bm (Suc p + i))"
    by (auto simp: less_Suc_eq_0_disj)
  then show ?case
    using Suc [of "Suc p"] next_page_offsets [of p] test_bit_at_page [of m bm p]
    by (cases "p mod 8 = 7") (simp_all add: Let_def)
qed

lemma offsets_of_page:
  "(off :: u32) div 8 = of_nat (unat off div 8)" "off mod 8 = of_nat (unat off mod 8)"
  by (simp_all add: word_arith_nat_div word_arith_nat_mod)

lemma CheckIfPagesFree_iff:
  "CheckIfPagesFree m bm off n \<longleftrightarrow> (\<forall>i<unat n. \<not> page_used m bm (unat off + i))"
  by (simp add: CheckIfPagesFree_def offsets_of_page check_free_from_page)

section \<open>Writing the bits of a run\<close>

text \<open>
  Page numbers below \<open>2 ^ 35\<close> lie in different bits of the address space: the bitmap is at
  most \<open>2 ^ 32\<close> bytes long. \<open>g\<close> says what the operator does to a bit of the run.
\<close>

definition update_page :: "(u32 \<Rightarrow> u32 \<Rightarrow> u32) \<Rightarrow> u32 \<Rightarrow> nat \<Rightarrow> mem \<Rightarrow> mem" where
  "update_page upd bm p m =
     (let a = bm + of_nat (p div 8)
      in m(a := ucast (upd (scast (m a)) (push_bit (unat (of_nat (p mod 8) :: u32)) 1))))"

lemma update_bits_from_Suc:
  "update_bits_from upd bm (of_nat (p div 8)) (of_nat (p mod 8)) (Suc k) m =
   update_bits_from upd bm (of_nat (Suc p div 8)) (of_nat (Suc p mod 8)) k (update_page upd bm p m)"
  using next_page_offsets [of p]
  by (cases "p mod 8 = 7") (simp_all add: Let_def update_page_def)

lemma page_used_update_page:
  assumes upd: "\<And>a b i. bit (upd a b) i \<longleftrightarrow> (if bit b i then g (bit a i) else bit a i)"
    and "p < 2 ^ 35" "q < 2 ^ 35"
  shows "page_used (update_page upd bm p m) bm q
         = (if q = p then g (page_used m bm p) else page_used m bm q)"
proof -
  have less: "p div 8 < 2 ^ LENGTH(32)" "q div 8 < 2 ^ LENGTH(32)" using assms by simp_all
  have "p mod 8 < 8" "q mod 8 < 8" by simp_all
  moreover from this have "unat (of_nat (p mod 8) :: u32) = p mod 8" by (simp add: unat_of_nat_small)
  moreover have "q = p \<longleftrightarrow> q div 8 = p div 8 \<and> q mod 8 = p mod 8"
    by (metis div_mod_decomp)
  ultimately show ?thesis
    using of_nat_inj_small [OF less(2) less(1)]
    by (auto simp: page_used_def update_page_def Let_def upd bit_simps)
qed

lemma update_bits_from_page:
  assumes upd: "\<And>a b i. bit (upd a b) i \<longleftrightarrow> (if bit b i then g (bit a i) else bit a i)"
    and "p + k \<le> 2 ^ 35" "q < 2 ^ 35"
  shows "page_used (update_bits_from upd bm (of_nat (p div 8)) (of_nat (p mod 8)) k m) bm q
         = (if p \<le> q \<and> q < p + k then g (page_used m bm q) else page_used m bm q)"
  using assms(2)
proof (induction k arbitrary: p m)
  case 0
  then show ?case by auto
next
  case (Suc k)
  have "page_used (update_page upd bm p m) bm q = (if q = p then g (page_used m bm p) else page_used m bm q)"
    using Suc.prems assms(3) by (intro page_used_update_page upd) simp_all
  moreover have "Suc p + k \<le> 2 ^ 35" using Suc.prems by simp
  ultimately show ?case
    unfolding update_bits_from_Suc using Suc.IH [of "Suc p" "update_page upd bm p m"] by auto
qed

lemma update_bits_from_other:
  assumes "\<And>i. i < k \<Longrightarrow> a \<noteq> bm + of_nat ((p + i) div 8)"
  shows "update_bits_from upd bm (of_nat (p div 8)) (of_nat (p mod 8)) k m a = m a"
  using assms
proof (induction k arbitrary: p m)
  case 0
  then show ?case by simp
next
  case (Suc k)
  have "a \<noteq> bm + of_nat (p div 8)" using Suc.prems [of 0] by simp
  then have "update_page upd bm p m a = m a" by (simp add: update_page_def Let_def)
  moreover have "a \<noteq> bm + of_nat ((Suc p + i) div 8)" if "i < k" for i
    using Suc.prems [of "Suc i"] that by simp
  ultimately show ?case
    unfolding update_bits_from_Suc using Suc.IH [of "Suc p"] by simp
qed

section \<open>The interface of the bitmap\<close>

text \<open>
  What the allocator relies on: a test of a run of pages, an operation that marks a run and
  one that flips it, over the abstract fact that a page is used. Page numbers range up to \<open>lim\<close>.
\<close>

locale page_bitmap =
  fixes used :: "'m \<Rightarrow> nat \<Rightarrow> bool"
    and check :: "'m \<Rightarrow> u32 \<Rightarrow> u32 \<Rightarrow> bool"
    and mark :: "u32 \<Rightarrow> u32 \<Rightarrow> 'm \<Rightarrow> 'm"
    and flip :: "u32 \<Rightarrow> u32 \<Rightarrow> 'm \<Rightarrow> 'm"
    and lim :: nat
  assumes check_iff: "check m off n \<longleftrightarrow> (\<forall>i<unat n. \<not> used m (unat off + i))"
    and used_mark: "q < lim \<Longrightarrow>
      used (mark off n m) q \<longleftrightarrow> used m q \<or> unat off \<le> q \<and> q < unat off + unat n"
    and used_flip: "q < lim \<Longrightarrow>
      used (flip off n m) q \<longleftrightarrow> used m q \<noteq> (unat off \<le> q \<and> q < unat off + unat n)"
    and lim: "2 ^ 33 \<le> lim"
begin

lemma run_below_lim: "i < unat (n :: u32) \<Longrightarrow> unat (off :: u32) + i < lim"
  using lim unat_less_u32 [of off] unat_less_u32 [of n] by simp

text \<open>A run that was just marked is not free.\<close>

lemma check_after_mark: "0 < unat n \<Longrightarrow> \<not> check (mark off n m) off n"
  using run_below_lim [of 0 n off] by (auto simp: check_iff used_mark)

text \<open>Marking one run leaves every run apart from it as free or as used as it was.\<close>

lemma check_apart:
  assumes "unat off + unat n \<le> unat off' \<or> unat off' + unat n' \<le> unat off"
  shows "check (mark off n m) off' n' = check m off' n'"
  using assms run_below_lim [of _ n' off'] by (auto simp: check_iff used_mark)

text \<open>Flipping a run that was free before it was marked takes the marking back.\<close>

lemma flip_after_mark:
  assumes "check m off n" and "q < lim"
  shows "used (flip off n (mark off n m)) q = used m q"
proof -
  have "\<not> used m q" if "unat off \<le> q" "q < unat off + unat n"
    using assms(1) that unfolding check_iff by (metis le_add_diff_inverse less_diff_conv2 add.commute
        nat_add_left_cancel_less)
  then show ?thesis using assms(2) by (auto simp: used_mark used_flip)
qed

text \<open>Flipping a free run marks it: the operation toggles, it does not clear.\<close>

lemma flip_free_run:
  assumes "check m off n" and "i < unat n"
  shows "used (flip off n m) (unat off + i)"
  using assms run_below_lim [of i n off] by (auto simp: check_iff used_flip)

end

interpretation pb: page_bitmap
  "\<lambda>m. page_used m bm" "\<lambda>m. CheckIfPagesFree m bm" "MapPagesInBitmap bm"
  "FlipPagesInBitmap bm" "2 ^ 35"
  for bm
proof unfold_locales
  fix m off n
  show "CheckIfPagesFree m bm off n \<longleftrightarrow> (\<forall>i<unat n. \<not> page_used m bm (unat off + i))"
    by (rule CheckIfPagesFree_iff)
next
  fix q m and off n :: u32
  assume q: "q < (2::nat) ^ 35"
  have len: "unat off + unat n \<le> 2 ^ 35"
    using unat_less_u32 [of off] unat_less_u32 [of n] by simp
  note run = q len
  show "page_used (MapPagesInBitmap bm off n m) bm q \<longleftrightarrow>
      page_used m bm q \<or> unat off \<le> q \<and> q < unat off + unat n"
    using update_bits_from_page [where upd = "(OR)" and g = "\<lambda>_. True", OF _ run(2,1)]
    unfolding MapPagesInBitmap_def offsets_of_page by (auto simp: bit_simps)
  show "page_used (FlipPagesInBitmap bm off n m) bm q \<longleftrightarrow>
      page_used m bm q \<noteq> (unat off \<le> q \<and> q < unat off + unat n)"
    using update_bits_from_page [where upd = "(XOR)" and g = Not, OF _ run(2,1)]
    unfolding FlipPagesInBitmap_def offsets_of_page by (auto simp: bit_simps)
qed simp

text \<open>The bytes a run of pages touches.\<close>

lemma MapPagesInBitmap_other [mem_frame]:
  "(\<And>i. i < unat n \<Longrightarrow> a \<noteq> bm + of_nat ((unat off + i) div 8)) \<Longrightarrow>
   MapPagesInBitmap bm off n m a = m a"
  unfolding MapPagesInBitmap_def offsets_of_page by (rule update_bits_from_other)

lemma FlipPagesInBitmap_other [mem_frame]:
  "(\<And>i. i < unat n \<Longrightarrow> a \<noteq> bm + of_nat ((unat off + i) div 8)) \<Longrightarrow>
   FlipPagesInBitmap bm off n m a = m a"
  unfolding FlipPagesInBitmap_def offsets_of_page by (rule update_bits_from_other)

end
