(* ===== verification/Libk_Stdlib.thy ===== *)
theory Libk_Stdlib
  imports Kernel_Prelude
begin

text \<open>
  The memory routines of src/libk/stdlib.cpp over the byte memory: \<open>memcmp\<close>, \<open>memcpy\<close> and
  \<open>memset\<close>. \<open>memcpy\<close> and \<open>memset\<close> return their first argument; the model returns the memory.
\<close>

section \<open>Definitions\<close>

text \<open>
  \<open>memcmp\<close>: the loop from index \<open>i\<close> with \<open>k\<close> bytes to go. The bytes are compared as
  \<open>char\<close>, which is signed on this target.
\<close>

fun memcmp_from :: "mem \<Rightarrow> u32 \<Rightarrow> u32 \<Rightarrow> nat \<Rightarrow> nat \<Rightarrow> int" where
  "memcmp_from m cs1 cs2 i 0 = 0"
| "memcmp_from m cs1 cs2 i (Suc k) =
     (let a = m (cs1 + of_nat i); b = m (cs2 + of_nat i) in
      if a \<noteq> b then
        if sint a < sint b then -1
        else if sint a > sint b then 1
        else memcmp_from m cs1 cs2 (Suc i) k
      else memcmp_from m cs1 cs2 (Suc i) k)"

definition memcmp :: "mem \<Rightarrow> u32 \<Rightarrow> u32 \<Rightarrow> u32 \<Rightarrow> int" where
  "memcmp m s1 s2 len = memcmp_from m s1 s2 0 (unat len)"

definition memcpy :: "u32 \<Rightarrow> u32 \<Rightarrow> u32 \<Rightarrow> mem \<Rightarrow> mem" where
  "memcpy dest src len m =
     for_upto (\<lambda>i m. m(dest + of_nat i := m (src + of_nat i))) (unat len) m"

definition memset :: "u32 \<Rightarrow> u8 \<Rightarrow> u32 \<Rightarrow> mem \<Rightarrow> mem" where
  "memset s c n m = for_upto (\<lambda>i m. m(s + of_nat i := c)) (unat n) m"

section \<open>memcmp\<close>

lemma memcmp_from_0_iff:
  "memcmp_from m p q i k = 0 \<longleftrightarrow> (\<forall>j<k. m (p + of_nat (i + j)) = m (q + of_nat (i + j)))"
proof (induction k arbitrary: i)
  case 0
  then show ?case by simp
next
  case (Suc k)
  have "sint (m (p + of_nat i)) = sint (m (q + of_nat i)) \<longleftrightarrow> m (p + of_nat i) = m (q + of_nat i)"
    by (auto intro: signed_word_eqI)
  with Suc show ?case
    by (auto simp: Let_def less_Suc_eq_0_disj ac_simps)
qed

lemma memcmp_from_swap: "memcmp_from m q p i k = - memcmp_from m p q i k"
  by (induction k arbitrary: i) (auto simp: Let_def)

text \<open>The result is decided by the first index at which the two regions differ.\<close>

lemma memcmp_from_first:
  assumes "\<And>j. j < d \<Longrightarrow> m (p + of_nat (i + j)) = m (q + of_nat (i + j))"
    and "d < k" and "sint (m (p + of_nat (i + d))) < sint (m (q + of_nat (i + d)))"
  shows "memcmp_from m p q i k = - 1"
  using assms
proof (induction k arbitrary: i d)
  case 0
  then show ?case by simp
next
  case (Suc k)
  show ?case
  proof (cases d)
    case 0
    with Suc.prems show ?thesis by (auto simp: Let_def)
  next
    case (Suc d')
    have "m (p + of_nat i) = m (q + of_nat i)" using Suc.prems(1) [of 0] Suc by simp
    moreover have "memcmp_from m p q (Suc i) k = - 1"
    proof (rule Suc.IH [of d'])
      show "m (p + of_nat (Suc i + j)) = m (q + of_nat (Suc i + j))" if "j < d'" for j
        using Suc.prems(1) [of "Suc j"] that Suc by simp
      show "d' < k" using Suc.prems(2) Suc by simp
      show "sint (m (p + of_nat (Suc i + d'))) < sint (m (q + of_nat (Suc i + d')))"
        using Suc.prems(3) Suc by simp
    qed
    ultimately show ?thesis by (simp add: Let_def)
  qed
qed

section \<open>memcpy and memset\<close>

text \<open>
  \<open>memcpy\<close> copies upwards, one byte at a time, so it also copies overlapping regions
  rightly as long as the destination does not start inside the source: the distance from
  the destination up to the source leaves room for the whole length.
\<close>

lemma memcpy_at:
  assumes room: "unat (src - dest) + unat len \<le> 2 ^ 32"
  shows "memcpy dest src len m a =
         (if in_region dest (unat len) a then m (src + (a - dest)) else m a)"
proof -
  let ?I = "\<lambda>i s. \<forall>a. s a = (if in_region dest i a then m (src + (a - dest)) else m a)"
  have "?I (unat len) (memcpy dest src len m)"
    unfolding memcpy_def
  proof (rule for_upto_invariant [where I = ?I])
    show "?I 0 m" by simp
  next
    fix i s
    assume i: "i < unat len" and I: "?I i s"
    have "i < 2 ^ 32" using less_trans [OF i unat_less_u32 [of len]] by simp
    then have ui: "unat (of_nat i :: u32) = i" by (simp add: unat_of_nat_small)
    have shift: "src + of_nat i - dest = (src - dest) + of_nat i" by simp
    have "unat (src + of_nat i - dest) = unat (src - dest) + i"
      unfolding shift using room i ui by (subst unat_add_small) simp_all
    then have "\<not> in_region dest i (src + of_nat i)" by (simp add: in_region_def)
    then have "s (src + of_nat i) = m (src + of_nat i)" using I by simp
    moreover have "a = dest + of_nat i \<longleftrightarrow> unat (a - dest) = i" for a
      using ui by auto
    ultimately show "?I (Suc i) (s(dest + of_nat i := s (src + of_nat i)))"
      using I by (auto simp: in_region_def less_Suc_eq ui)
  qed
  then show ?thesis by simp
qed

lemma memset_at:
  "memset s c n m a = (if in_region s (unat n) a then c else m a)"
  using unat_less_u32 [of n] by (simp add: memset_def for_upto_store)

lemma memset_other [mem_frame]: "\<not> in_region s (unat n) a \<Longrightarrow> memset s c n m a = m a"
  by (simp add: memset_at)

end
