(* ===== verification/PMM.thy ===== *)
theory PMM
  imports PMM_Bitmap Libk_Stdlib
begin

text \<open>
  The physical memory manager of src/PMM.cpp and src/include/PMM.hpp: zones of physical
  pages taken from the boot loader's memory map, each with a bitmap of its pages and the
  address from which the next search starts. The bitmaps lie in the kernel's memory, behind
  each other, from the end of the kernel image on; the array of zone structures is a list.
  Log output is left out.
\<close>

section \<open>State\<close>

record MemoryMap =
  mm_start :: u32
  mm_len :: u32
  mm_type :: u32

abbreviation (input) "PHYS_PAGE_SIZE \<equiv> 4096 :: u32"

text \<open>The bits of \<open>enum PMMZoneType\<close>.\<close>

abbreviation (input) "Normal \<equiv> 1 :: u32"
abbreviation (input) "MMIO \<equiv> 2 :: u32"
abbreviation (input) "LowMemory \<equiv> 4 :: u32"
abbreviation (input) "Zone64Bit \<equiv> 8 :: u32"

record PMMZone =
  start :: u32
  first_free_addr :: u32
  pagecount :: u32
  zone_type :: u32
  alloc_bitmap :: u32

text \<open>The object \<open>PMM\<close>: \<open>_mmap\<close> with its \<open>_mmap_count\<close> elements, and the memory of the bitmaps.\<close>

record PMM =
  zones :: "PMMZone list"
  bitmap_mem :: mem

abbreviation (input) "MAP_FAILED \<equiv> 0xffffffff :: u32"

section \<open>Finding a zone\<close>

fun FindZone_from :: "nat \<Rightarrow> PMMZone list \<Rightarrow> u32 \<Rightarrow> nat option" where
  "FindZone_from i [] addr = None"
| "FindZone_from i (zone # zs) addr =
     (let zone_end = start zone + PHYS_PAGE_SIZE * pagecount zone - 1
      in if addr \<ge> start zone \<and> addr \<le> zone_end then Some i
         else FindZone_from (Suc i) zs addr)"

definition FindZone :: "PMM \<Rightarrow> u32 \<Rightarrow> nat option" where
  "FindZone s addr = FindZone_from 0 (zones s) addr"

section \<open>Allocating\<close>

text \<open>
  The inner loop of \<open>AllocatePhysical\<close>. Its \<open>continue\<close>, meant to go on with the next zone,
  continues this very loop, so both branches test the next offset.
\<close>

partial_function (option) search_free :: "mem \<Rightarrow> PMMZone \<Rightarrow> u32 \<Rightarrow> u32 \<Rightarrow> u32 option" where
  "search_free m zone page_offset n =
     (if CheckIfPagesFree m (alloc_bitmap zone) page_offset n then Some page_offset
      else if (page_offset + 1) + n \<ge> pagecount zone
      then search_free m zone (page_offset + 1) n
      else search_free m zone (page_offset + 1) n)"

declare search_free.simps [code]

text \<open>The zones from index \<open>i\<close> on: skipped ones, then the first that is taken.\<close>

fun AllocatePhysical_from :: "PMM \<Rightarrow> u32 \<Rightarrow> u32 \<Rightarrow> nat \<Rightarrow> PMMZone list \<Rightarrow> (u32 \<times> PMM) result" where
  "AllocatePhysical_from s n addr_type i [] =
     Inl (Panic ''pmm: AllocatePhysical: phys memory exhausted, no suitable zones'')"
| "AllocatePhysical_from s n addr_type i (zone # zs) =
     (if zone_type zone AND addr_type = 0 then AllocatePhysical_from s n addr_type (Suc i) zs
      else if first_free_addr zone \<ge> start zone + pagecount zone * PHYS_PAGE_SIZE
      then AllocatePhysical_from s n addr_type (Suc i) zs
      else let page_offset = (first_free_addr zone - start zone) div PHYS_PAGE_SIZE in
        if page_offset + n \<ge> pagecount zone then AllocatePhysical_from s n addr_type (Suc i) zs
        else and_then (returns (search_free (bitmap_mem s) zone page_offset n)) (\<lambda>page_offset.
          let m = MapPagesInBitmap (alloc_bitmap zone) page_offset n (bitmap_mem s);
              naddr = start zone + page_offset * PHYS_PAGE_SIZE;
              new_first_free = naddr + n * PHYS_PAGE_SIZE
          in Inr (naddr, s\<lparr>zones := (zones s)[i := zone\<lparr>first_free_addr := new_first_free\<rparr>],
                           bitmap_mem := m\<rparr>)))"

definition AllocatePhysical :: "PMM \<Rightarrow> u32 \<Rightarrow> u32 \<Rightarrow> (u32 \<times> PMM) result" where
  "AllocatePhysical s n addr_type =
     (if addr_type AND MMIO \<noteq> 0
      then Inl (Panic (''can't allocate MMIO addresses, they're supposed to be mapped!'' @ [CHR 0x0A]))
      else AllocatePhysical_from s n addr_type 0 (zones s))"

text \<open>\<open>CheckPages\<close> is a stub in the source.\<close>

definition CheckPages :: "PMM \<Rightarrow> u32 \<Rightarrow> int" where
  "CheckPages s n = 0"

section \<open>Mapping and unmapping given addresses\<close>

definition MapPages :: "PMM \<Rightarrow> u32 \<Rightarrow> u32 \<Rightarrow> u32 \<times> PMM" where
  "MapPages s addr n =
     (case FindZone s addr of
        None \<Rightarrow> (MAP_FAILED, s)
      | Some i \<Rightarrow>
          let zone = zones s ! i in
          if addr < first_free_addr zone then (MAP_FAILED, s)
          else
            let addr_offset = addr - start zone;
                page_offset = addr_offset div PHYS_PAGE_SIZE
            in if \<not> CheckIfPagesFree (bitmap_mem s) (alloc_bitmap zone) page_offset n
               then (MAP_FAILED, s)
               else
                 let m = MapPagesInBitmap (alloc_bitmap zone) page_offset n (bitmap_mem s);
                     zone' = (if addr = first_free_addr zone
                              then zone\<lparr>first_free_addr := first_free_addr zone + n * PHYS_PAGE_SIZE\<rparr>
                              else zone)
                 in (addr, s\<lparr>zones := (zones s)[i := zone'], bitmap_mem := m\<rparr>))"

definition UnmapPages :: "PMM \<Rightarrow> u32 \<Rightarrow> u32 \<Rightarrow> u32 \<times> PMM" where
  "UnmapPages s addr n =
     (case FindZone s addr of
        None \<Rightarrow> (MAP_FAILED, s)
      | Some i \<Rightarrow>
          let zone = zones s ! i;
              zone' = (if addr < first_free_addr zone
                       then zone\<lparr>first_free_addr := addr AND NOT 0xfff\<rparr> else zone);
              addr_offset = addr - start zone;
              page_offset = addr_offset div PHYS_PAGE_SIZE;
              m = FlipPagesInBitmap (alloc_bitmap zone) page_offset n (bitmap_mem s)
          in (n, s\<lparr>zones := (zones s)[i := zone'], bitmap_mem := m\<rparr>))"

section \<open>The constructor\<close>

text \<open>\<open>sizeof(PMMZone)\<close>: five 32-bit fields.\<close>

abbreviation (input) "sizeof_PMMZone \<equiv> 20 :: u32"

definition mmap_pagecount :: "MemoryMap \<Rightarrow> u32" where
  "mmap_pagecount e =
     (let pages = mm_len e div PHYS_PAGE_SIZE
      in if mm_len e > 0 \<and> pages = 0 then 1 else pages)"

definition mmap_zone_type :: "MemoryMap \<Rightarrow> u32" where
  "mmap_zone_type e =
     (if mm_type e = 1
      then (if mm_start e + mm_len e < 0x100000 then LowMemory else Normal)
      else (if mm_start e + mm_len e < 0x100000 then LowMemory else 0) + MMIO)"

text \<open>
  The loop over the memory map. \<open>kend\<close> is the end of the kernel's memory, from which
  \<open>kernel_end_malloc\<close> takes each bitmap.
\<close>

fun init_zones :: "MemoryMap list \<Rightarrow> u32 \<Rightarrow> mem \<Rightarrow> PMMZone list \<times> u32 \<times> mem" where
  "init_zones [] kend m = ([], kend, m)"
| "init_zones (e # es) kend m =
     (let pages = mmap_pagecount e;
          bytes = pages div 8 + 1;
          zone = \<lparr>start = mm_start e, first_free_addr = mm_start e, pagecount = pages,
                  zone_type = mmap_zone_type e, alloc_bitmap = kend\<rparr>;
          (zs, kend', m') = init_zones es (kend + bytes) (memset kend 0 bytes m)
      in (zone # zs, kend', m'))"

definition PMM_init :: "u32 \<Rightarrow> u32 \<Rightarrow> u32 \<Rightarrow> MemoryMap list \<Rightarrow> mem \<Rightarrow> PMM result" where
  "PMM_init kernel_start virt_offset pmm_pool_start mmap m =
     (let (zs, kend, m') =
            init_zones mmap (pmm_pool_start + sizeof_PMMZone * of_nat (length mmap)) m;
          pmm_page_count = 1 + (kend - (kernel_start + virt_offset)) div PHYS_PAGE_SIZE;
          (r, s) = MapPages \<lparr>zones = zs, bitmap_mem = m'\<rparr> kernel_start pmm_page_count
      in if r = MAP_FAILED
         then Inl (Panic ''pmm: no sufficient memory to even create the tables!'')
         else Inr s)"

end
