(* ===== verification/PMM_Layout.thy ===== *)
theory PMM_Layout
  imports PMM
begin

text \<open>
  Well-formedness of the zones of the physical memory manager, the pages in use as a set of
  addresses, and what marking or flipping a run of one zone does to that set.
\<close>

unbundle bit_operations_syntax

section \<open>The layout of the zones\<close>

text \<open>One past the last byte of a zone, and the length of its bitmap in bytes.\<close>

definition zone_end :: "PMMZone \<Rightarrow> nat" where
  "zone_end z = unat (start z) + 4096 * unat (pagecount z)"

definition bitmap_bytes :: "PMMZone \<Rightarrow> nat" where
  "bitmap_bytes z = unat (pagecount z) div 8 + 1"

text \<open>
  The zones lie below 4 GB and share no address, and their bitmaps share no byte. Only
  \<open>first_free_addr\<close> ever changes, so every operation keeps this.
\<close>

definition pmm_wf :: "PMM \<Rightarrow> bool" where
  "pmm_wf s \<longleftrightarrow>
     (\<forall>z\<in>set (zones s). zone_end z \<le> 2 ^ 32) \<and>
     (\<forall>i<length (zones s). \<forall>j<length (zones s). i \<noteq> j \<longrightarrow>
        disjoint_regions (alloc_bitmap (zones s ! i)) (bitmap_bytes (zones s ! i))
                         (alloc_bitmap (zones s ! j)) (bitmap_bytes (zones s ! j)) \<and>
        (zone_end (zones s ! i) \<le> unat (start (zones s ! j)) \<or>
         zone_end (zones s ! j) \<le> unat (start (zones s ! i))))"

text \<open>The bit of page \<open>p\<close> of zone \<open>i\<close>, and the addresses of all pages in use.\<close>

definition zone_used :: "PMM \<Rightarrow> nat \<Rightarrow> nat \<Rightarrow> bool" where
  "zone_used s i p = page_used (bitmap_mem s) (alloc_bitmap (zones s ! i)) p"

definition used_frames :: "PMM \<Rightarrow> nat set" where
  "used_frames s = {unat (start (zones s ! i)) + 4096 * p | i p.
     i < length (zones s) \<and> p < unat (pagecount (zones s ! i)) \<and> zone_used s i p}"

definition frames :: "nat \<Rightarrow> nat \<Rightarrow> nat set" where
  "frames a n = {a + 4096 * k | k. k < n}"

lemma frames_iff: "x \<in> frames a n \<longleftrightarrow> (\<exists>k<n. x = a + 4096 * k)"
  by (auto simp: frames_def)

text \<open>An update of one zone that keeps its layout keeps the layout of all.\<close>

lemma pmm_wf_update:
  assumes "pmm_wf s" "start z = start (zones s ! i)" "pagecount z = pagecount (zones s ! i)"
    "alloc_bitmap z = alloc_bitmap (zones s ! i)"
  shows "pmm_wf (s\<lparr>zones := (zones s)[i := z], bitmap_mem := m\<rparr>)"
proof (cases "i < length (zones s)")
  case True
  have eq: "start ((zones s)[i := z] ! j) = start (zones s ! j)"
    "pagecount ((zones s)[i := z] ! j) = pagecount (zones s ! j)"
    "alloc_bitmap ((zones s)[i := z] ! j) = alloc_bitmap (zones s ! j)" for j
    using assms(2-4) by (simp_all add: nth_list_update_field)
  have "zone_end y \<le> 2 ^ 32" if "y \<in> set ((zones s)[i := z])" for y
  proof -
    from that obtain j where j: "j < length (zones s)" "y = (zones s)[i := z] ! j"
      by (auto simp: in_set_conv_nth)
    then have "zone_end y = zone_end (zones s ! j)" by (simp add: zone_end_def eq)
    then show ?thesis using assms(1) j by (simp add: pmm_wf_def)
  qed
  then show ?thesis using assms(1) by (auto simp: pmm_wf_def zone_end_def bitmap_bytes_def eq)
next
  case False
  then show ?thesis using assms(1) by (simp add: pmm_wf_def list_update_beyond)
qed

lemma zone_end_le: "pmm_wf s \<Longrightarrow> i < length (zones s) \<Longrightarrow> zone_end (zones s ! i) \<le> 2 ^ 32"
  by (simp add: pmm_wf_def)

text \<open>The bitmap bytes of pages of different zones are different bytes.\<close>

lemma other_zone_byte:
  assumes wf: "pmm_wf s" and i: "i < length (zones s)" "j < length (zones s)" "i \<noteq> j"
    and p: "p < unat (pagecount (zones s ! i))" and q: "q < unat (pagecount (zones s ! j))"
  shows "alloc_bitmap (zones s ! j) + of_nat (q div 8) \<noteq> alloc_bitmap (zones s ! i) + of_nat (p div 8)"
proof -
  have "in_region (alloc_bitmap (zones s ! k)) (bitmap_bytes (zones s ! k))
          (alloc_bitmap (zones s ! k) + of_nat (r div 8))"
    if "r < unat (pagecount (zones s ! k))" for k r
  proof (rule in_regionI)
    have "r div 8 \<le> unat (pagecount (zones s ! k)) div 8" using that by (simp add: div_le_mono)
    then show "r div 8 < bitmap_bytes (zones s ! k)" by (simp add: bitmap_bytes_def)
    show "bitmap_bytes (zones s ! k) \<le> 2 ^ 32"
      using unat_less_u32 [of "pagecount (zones s ! k)"] by (simp add: bitmap_bytes_def)
  qed
  from this [OF p] this [OF q] show ?thesis
    using disjoint_regionsD wf i unfolding pmm_wf_def by metis
qed

text \<open>The page of an address, and the address of a page, inside a zone below 4 GB.\<close>

lemma page_address:
  assumes "zone_end z \<le> 2 ^ 32" "unat p < unat (pagecount z)"
  shows "unat (start z + p * PHYS_PAGE_SIZE) = unat (start z) + 4096 * unat p"
proof -
  have "unat p * 4096 < 2 ^ 32" and "unat (start z) + unat p * 4096 < 2 ^ 32"
    using assms by (auto simp: zone_end_def)
  then show ?thesis by (simp add: unat_add_small unat_mult_small)
qed

text \<open>A page of one zone is a page of no other, and has one number in its own.\<close>

lemma frame_unique:
  assumes wf: "pmm_wf s" and "i < length (zones s)" "j < length (zones s)"
    and "p < unat (pagecount (zones s ! i))" "q < unat (pagecount (zones s ! j))"
    and eq: "unat (start (zones s ! i)) + 4096 * p = unat (start (zones s ! j)) + 4096 * q"
  shows "i = j \<and> p = q"
proof -
  have "i = j"
  proof (rule ccontr)
    assume "i \<noteq> j"
    with wf assms(2,3) have "zone_end (zones s ! i) \<le> unat (start (zones s ! j)) \<or>
        zone_end (zones s ! j) \<le> unat (start (zones s ! i))"
      by (simp add: pmm_wf_def)
    then show False using assms(4,5) eq by (auto simp: zone_end_def)
  qed
  then show ?thesis using eq by simp
qed

lemma used_frames_page:
  assumes "pmm_wf s" "i < length (zones s)" "p < unat (pagecount (zones s ! i))"
  shows "unat (start (zones s ! i)) + 4096 * p \<in> used_frames s \<longleftrightarrow> zone_used s i p"
  using assms frame_unique [OF assms(1,2)] by (auto simp: used_frames_def)

section \<open>Marking and flipping a run of a zone\<close>

text \<open>
  What \<open>AllocatePhysical\<close>, \<open>MapPages\<close> and \<open>UnmapPages\<close> do to the state: a run of bits of one
  zone's bitmap changes, and perhaps the zone's \<open>first_free_addr\<close>.
\<close>

definition run_update :: "(u32 \<Rightarrow> u32 \<Rightarrow> u32 \<Rightarrow> mem \<Rightarrow> mem) \<Rightarrow> PMM \<Rightarrow> nat \<Rightarrow> u32 \<Rightarrow> u32 \<Rightarrow> u32 \<Rightarrow> PMM" where
  "run_update op s i p n ff =
     s\<lparr>zones := (zones s)[i := (zones s ! i)\<lparr>first_free_addr := ff\<rparr>],
       bitmap_mem := op (alloc_bitmap (zones s ! i)) p n (bitmap_mem s)\<rparr>"

lemma run_update_layout [simp]:
  "length (zones (run_update op s i p n ff)) = length (zones s)"
  "start (zones (run_update op s i p n ff) ! j) = start (zones s ! j)"
  "pagecount (zones (run_update op s i p n ff) ! j) = pagecount (zones s ! j)"
  "alloc_bitmap (zones (run_update op s i p n ff) ! j) = alloc_bitmap (zones s ! j)"
  "zone_type (zones (run_update op s i p n ff) ! j) = zone_type (zones s ! j)"
  by (simp_all add: run_update_def nth_list_update_field)

lemma pmm_wf_run_update: "pmm_wf s \<Longrightarrow> pmm_wf (run_update op s i p n ff)"
  unfolding run_update_def by (rule pmm_wf_update) simp_all

lemma zone_used_mark:
  assumes wf: "pmm_wf s" and i: "i < length (zones s)" and j: "j < length (zones s)"
    and run: "unat p + unat n \<le> unat (pagecount (zones s ! i))"
    and q: "q < unat (pagecount (zones s ! j))"
  shows "zone_used (run_update MapPagesInBitmap s i p n ff) j q \<longleftrightarrow>
         zone_used s j q \<or> j = i \<and> unat p \<le> q \<and> q < unat p + unat n" (is ?mark)
    and "zone_used (run_update FlipPagesInBitmap s i p n ff) j q \<longleftrightarrow>
         zone_used s j q \<noteq> (j = i \<and> unat p \<le> q \<and> q < unat p + unat n)" (is ?flip)
proof -
  have lim: "q < 2 ^ 35" using q unat_less_u32 [of "pagecount (zones s ! j)"] by simp
  have eq: "zone_used (run_update op s i p n ff) j q =
      page_used (op (alloc_bitmap (zones s ! i)) p n (bitmap_mem s)) (alloc_bitmap (zones s ! j)) q" for op
    unfolding zone_used_def run_update_layout by (simp add: run_update_def)
  have "?mark \<and> ?flip"
  proof (cases "j = i")
    case True
    then show ?thesis using pb.used_mark [OF lim] pb.used_flip [OF lim] unfolding eq
      by (simp add: zone_used_def)
  next
    case False
    have "alloc_bitmap (zones s ! j) + of_nat (q div 8) \<noteq>
        alloc_bitmap (zones s ! i) + of_nat ((unat p + k) div 8)" if "k < unat n" for k
      using other_zone_byte [OF wf i j] False run q that by auto
    then show ?thesis using False unfolding eq
      by (simp add: zone_used_def page_used_def MapPagesInBitmap_other FlipPagesInBitmap_other)
  qed
  then show ?mark ?flip by auto
qed

lemma used_frames_mark:
  assumes wf: "pmm_wf s" and i: "i < length (zones s)"
    and run: "unat p + unat n \<le> unat (pagecount (zones s ! i))"
  shows "used_frames (run_update MapPagesInBitmap s i p n ff) =
         used_frames s \<union> frames (unat (start (zones s ! i)) + 4096 * unat p) (unat n)"
proof (intro set_eqI iffI)
  fix x
  assume "x \<in> used_frames (run_update MapPagesInBitmap s i p n ff)"
  then obtain j q where x: "x = unat (start (zones s ! j)) + 4096 * q" "j < length (zones s)"
      "q < unat (pagecount (zones s ! j))"
      "zone_used s j q \<or> j = i \<and> unat p \<le> q \<and> q < unat p + unat n"
    using zone_used_mark(1) [OF wf i _ run] by (auto simp: used_frames_def)
  moreover have "\<exists>k<unat n. x = unat (start (zones s ! i)) + 4096 * unat p + 4096 * k"
    if "j = i" "unat p \<le> q" "q < unat p + unat n"
    using x(1) that by (intro exI [of _ "q - unat p"]) (auto simp: algebra_simps)
  ultimately show "x \<in> used_frames s \<union> frames (unat (start (zones s ! i)) + 4096 * unat p) (unat n)"
    by (auto simp: used_frames_def frames_iff)
next
  fix x
  assume "x \<in> used_frames s \<union> frames (unat (start (zones s ! i)) + 4096 * unat p) (unat n)"
  then show "x \<in> used_frames (run_update MapPagesInBitmap s i p n ff)"
  proof
    assume "x \<in> used_frames s"
    then show ?thesis using zone_used_mark(1) [OF wf i _ run] by (fastforce simp: used_frames_def)
  next
    assume "x \<in> frames (unat (start (zones s ! i)) + 4096 * unat p) (unat n)"
    then obtain k where k: "k < unat n" "x = unat (start (zones s ! i)) + 4096 * (unat p + k)"
      by (auto simp: frames_iff algebra_simps)
    then have "zone_used (run_update MapPagesInBitmap s i p n ff) i (unat p + k)"
      using zone_used_mark(1) [OF wf i i run] run by simp
    then show ?thesis using k i run unfolding used_frames_def
      by (intro CollectI exI [of _ i] exI [of _ "unat p + k"]) simp
  qed
qed

text \<open>A run whose bits are clear has none of its pages in use.\<close>

lemma free_run_frames:
  assumes wf: "pmm_wf s" and i: "i < length (zones s)"
    and run: "unat p + unat n \<le> unat (pagecount (zones s ! i))"
    and free: "CheckIfPagesFree (bitmap_mem s) (alloc_bitmap (zones s ! i)) p n"
  shows "frames (unat (start (zones s ! i)) + 4096 * unat p) (unat n) \<inter> used_frames s = {}"
proof -
  have "unat (start (zones s ! i)) + 4096 * unat p + 4096 * k \<notin> used_frames s" if "k < unat n" for k
  proof -
    have "\<not> zone_used s i (unat p + k)" using free that by (simp add: CheckIfPagesFree_iff zone_used_def)
    then show ?thesis
      using used_frames_page [OF wf i, of "unat p + k"] run that by (simp add: algebra_simps)
  qed
  then show ?thesis by (auto simp: frames_iff)
qed

lemma free_run_iff:
  assumes wf: "pmm_wf s" and i: "i < length (zones s)"
    and run: "unat p + unat n \<le> unat (pagecount (zones s ! i))"
  shows "CheckIfPagesFree (bitmap_mem s) (alloc_bitmap (zones s ! i)) p n \<longleftrightarrow>
    frames (unat (start (zones s ! i)) + 4096 * unat p) (unat n) \<inter> used_frames s = {}"
proof
  assume apart: "frames (unat (start (zones s ! i)) + 4096 * unat p) (unat n) \<inter> used_frames s = {}"
  have "\<not> zone_used s i (unat p + k)" if "k < unat n" for k
  proof -
    have "unat (start (zones s ! i)) + 4096 * unat p + 4096 * k
        \<in> frames (unat (start (zones s ! i)) + 4096 * unat p) (unat n)"
      using that unfolding frames_iff by blast
    then have "unat (start (zones s ! i)) + 4096 * unat p + 4096 * k \<notin> used_frames s"
      using apart by blast
    then show ?thesis
      using used_frames_page [OF wf i, of "unat p + k"] run that by (simp add: algebra_simps)
  qed
  then show "CheckIfPagesFree (bitmap_mem s) (alloc_bitmap (zones s ! i)) p n"
    by (simp add: CheckIfPagesFree_iff zone_used_def)
qed (rule free_run_frames [OF assms])

end
