(* ===== verification/PMM_Alloc.thy ===== *)
theory PMM_Alloc
  imports PMM_Layout
begin

text \<open>
  \<open>AllocatePhysical\<close>: what its search returns, which zone it takes, and that it meets the
  contract \<open>phys_allocator\<close> of an allocator of fresh pages.
\<close>

unbundle bit_operations_syntax

section \<open>What the search returns\<close>

text \<open>Both branches of the loop go on with the next offset.\<close>

lemma search_free_step:
  "search_free m zone off n =
     (if CheckIfPagesFree m (alloc_bitmap zone) off n then Some off
      else search_free m zone (off + 1) n)"
  by (subst search_free.simps) simp

lemma search_free_is_free:
  assumes "search_free m zone off n = Some r"
  shows "CheckIfPagesFree m (alloc_bitmap zone) r n"
  by (rule search_free.raw_induct [OF _ assms]) (auto split: if_splits)

text \<open>
  The search returns the first offset from which \<open>n\<close> pages are free, if there is one below
  the top of the 32-bit range. In particular it ends.
\<close>

lemma search_free_least:
  assumes "unat off \<le> p" "p < 2 ^ 32"
    and "\<And>i. i < unat n \<Longrightarrow> \<not> page_used m (alloc_bitmap zone) (p + i)"
    and "\<And>q. unat off \<le> q \<Longrightarrow> q < p \<Longrightarrow> \<not> CheckIfPagesFree m (alloc_bitmap zone) (of_nat q) n"
  shows "search_free m zone off n = Some (of_nat p)"
  using assms
proof (induction "p - unat off" arbitrary: off)
  case 0
  then have p: "of_nat p = off" by simp
  then have "CheckIfPagesFree m (alloc_bitmap zone) off n"
    using 0 by (auto simp: CheckIfPagesFree_iff)
  then show ?case using p by (subst search_free_step) simp
next
  case (Suc d)
  have less: "unat off < p" using Suc.hyps(2) by simp
  then have "\<not> CheckIfPagesFree m (alloc_bitmap zone) off n"
    using Suc.prems(4) [of "unat off"] by simp
  moreover have step: "unat (off + 1) = unat off + 1"
    using less Suc.prems(2) by (subst unat_add_small) simp_all
  have "search_free m zone (off + 1) n = Some (of_nat p)"
    by (rule Suc.hyps(1)) (use Suc.hyps(2) Suc.prems step less in auto)
  ultimately show ?case by (subst search_free_step) simp
qed

lemma search_free_finds:
  assumes "unat off \<le> p" "p < 2 ^ 32"
    and "\<And>i. i < unat n \<Longrightarrow> \<not> page_used m (alloc_bitmap zone) (p + i)"
  obtains r where "search_free m zone off n = Some r" "unat off \<le> unat r" "unat r \<le> p"
    "\<forall>q. unat off \<le> q \<and> q < unat r \<longrightarrow> (\<exists>k<unat n. page_used m (alloc_bitmap zone) (q + k))"
proof -
  let ?free = "\<lambda>q. unat off \<le> q \<and> (\<forall>i<unat n. \<not> page_used m (alloc_bitmap zone) (q + i))"
  define r where "r = (LEAST q. ?free q)"
  have "?free p" using assms by blast
  then have r: "?free r" and le: "r \<le> p"
    unfolding r_def by (rule LeastI, rule Least_le)
  have r32: "r < 2 ^ 32" using le assms(2) by simp
  have before: "\<exists>k<unat n. page_used m (alloc_bitmap zone) (q + k)" if "unat off \<le> q" "q < r" for q
    using not_less_Least [of q ?free] that by (auto simp: r_def)
  have "\<not> CheckIfPagesFree m (alloc_bitmap zone) (of_nat q) n" if "unat off \<le> q" "q < r" for q
    using before [OF that] that r32 by (auto simp: CheckIfPagesFree_iff unat_of_nat_small)
  then have "search_free m zone off n = Some (of_nat r)"
    using r r32 by (intro search_free_least) auto
  moreover have "unat (of_nat r :: u32) = r" using r32 by (simp add: unat_of_nat_small)
  ultimately show ?thesis using that r le before by simp
qed

section \<open>Which zone is taken\<close>

definition first_offset :: "PMMZone \<Rightarrow> u32" where
  "first_offset z = (first_free_addr z - start z) div PHYS_PAGE_SIZE"

text \<open>The conditions a zone must meet for the search to start in it.\<close>

definition eligible :: "u32 \<Rightarrow> u32 \<Rightarrow> PMMZone \<Rightarrow> bool" where
  "eligible n ty z \<longleftrightarrow>
     zone_type z AND ty \<noteq> 0 \<and>
     first_free_addr z < start z + pagecount z * PHYS_PAGE_SIZE \<and>
     first_offset z + n < pagecount z"

text \<open>The state after zone \<open>i\<close> gave \<open>n\<close> pages from page offset \<open>p\<close> on.\<close>

definition take_pages :: "PMM \<Rightarrow> nat \<Rightarrow> u32 \<Rightarrow> u32 \<Rightarrow> PMM" where
  "take_pages s i p n =
     (let z = zones s ! i
      in s\<lparr>zones := (zones s)[i := z\<lparr>first_free_addr :=
                 start z + p * PHYS_PAGE_SIZE + n * PHYS_PAGE_SIZE\<rparr>],
           bitmap_mem := MapPagesInBitmap (alloc_bitmap z) p n (bitmap_mem s)\<rparr>)"

lemma AllocatePhysical_from_char:
  "AllocatePhysical_from s n ty i zs =
     (case first_index (eligible n ty) zs of
        None \<Rightarrow> Inl (Panic ''pmm: AllocatePhysical: phys memory exhausted, no suitable zones'')
      | Some j \<Rightarrow> and_then (returns (search_free (bitmap_mem s) (zs ! j) (first_offset (zs ! j)) n))
           (\<lambda>p. Inr (start (zs ! j) + p * PHYS_PAGE_SIZE, take_pages s (i + j) p n)))"
  if "\<And>j. j < length zs \<Longrightarrow> zones s ! (i + j) = zs ! j"
  using that
proof (induction zs arbitrary: i)
  case Nil
  then show ?case by simp
next
  case (Cons z zs)
  have z: "zones s ! i = z" using Cons.prems [of 0] by simp
  have IH: "AllocatePhysical_from s n ty (Suc i) zs =
     (case first_index (eligible n ty) zs of
        None \<Rightarrow> Inl (Panic ''pmm: AllocatePhysical: phys memory exhausted, no suitable zones'')
      | Some j \<Rightarrow> and_then (returns (search_free (bitmap_mem s) (zs ! j) (first_offset (zs ! j)) n))
           (\<lambda>p. Inr (start (zs ! j) + p * PHYS_PAGE_SIZE, take_pages s (Suc i + j) p n)))"
    using Cons.prems [of "Suc _"] by (intro Cons.IH) simp
  show ?case
  proof (cases "eligible n ty z")
    case True
    then show ?thesis
      by (auto simp: eligible_def first_offset_def take_pages_def z Let_def not_le)
  next
    case False
    then have "AllocatePhysical_from s n ty i (z # zs) = AllocatePhysical_from s n ty (Suc i) zs"
      by (auto simp: eligible_def first_offset_def Let_def not_le not_less)
    then show ?thesis using False by (auto simp: IH split: option.splits)
  qed
qed

lemma AllocatePhysical_char:
  "AllocatePhysical s n ty =
     (if ty AND MMIO \<noteq> 0
      then Inl (Panic (''can't allocate MMIO addresses, they're supposed to be mapped!'' @ [CHR 0x0A]))
      else case first_index (eligible n ty) (zones s) of
        None \<Rightarrow> Inl (Panic ''pmm: AllocatePhysical: phys memory exhausted, no suitable zones'')
      | Some i \<Rightarrow>
          and_then (returns (search_free (bitmap_mem s) (zones s ! i) (first_offset (zones s ! i)) n))
            (\<lambda>p. Inr (start (zones s ! i) + p * PHYS_PAGE_SIZE, take_pages s i p n)))"
  using AllocatePhysical_from_char [of "zones s" s 0] by (simp add: AllocatePhysical_def split: option.splits)


section \<open>The contract of an allocator of physical pages\<close>

text \<open>
  What the virtual memory manager relies on: under the invariant and the precondition \<open>can\<close>,
  \<open>alloc\<close> returns \<open>n\<close> pages none of which was in use, and they are in use afterwards.
\<close>

locale phys_allocator =
  fixes inv :: "'s \<Rightarrow> bool"
    and used :: "'s \<Rightarrow> nat set"
    and can :: "'s \<Rightarrow> u32 \<Rightarrow> bool"
    and alloc :: "'s \<Rightarrow> u32 \<Rightarrow> (u32 \<times> 's) result"
  assumes alloc_ok: "inv s \<Longrightarrow> can s n \<Longrightarrow>
    \<exists>a s'. alloc s n = Inr (a, s') \<and> inv s' \<and> frames (unat a) (unat n) \<inter> used s = {} \<and>
           used s' = used s \<union> frames (unat a) (unat n)"
begin

lemma alloc_result:
  assumes "inv s" "can s n" "alloc s n = Inr (a, s')"
  shows "inv s'" "frames (unat a) (unat n) \<inter> used s = {}"
    "used s' = used s \<union> frames (unat a) (unat n)"
  using alloc_ok [OF assms(1,2)] assms(3) by auto

text \<open>Allocations one after the other: each request is met by pages apart from all others.\<close>

fun alloc_all :: "'s \<Rightarrow> u32 list \<Rightarrow> (u32 list \<times> 's) result" where
  "alloc_all s [] = Inr ([], s)"
| "alloc_all s (n # ns) = and_then (alloc s n) (\<lambda>(a, s1).
     and_then (alloc_all s1 ns) (\<lambda>(as, s2). Inr (a # as, s2)))"

fun can_all :: "'s \<Rightarrow> u32 list \<Rightarrow> bool" where
  "can_all s [] = True"
| "can_all s (n # ns) \<longleftrightarrow> can s n \<and>
     (case alloc s n of Inl e \<Rightarrow> True | Inr (a, s1) \<Rightarrow> can_all s1 ns)"

definition blocks :: "u32 list \<Rightarrow> u32 list \<Rightarrow> nat set list" where
  "blocks as ns = map2 (\<lambda>a n. frames (unat a) (unat n)) as ns"

lemma alloc_all_ok:
  assumes "inv s" "can_all s ns"
  shows "\<exists>as s'. alloc_all s ns = Inr (as, s') \<and> inv s' \<and> length as = length ns \<and>
    (\<forall>B\<in>set (blocks as ns). B \<inter> used s = {}) \<and> used s' = used s \<union> \<Union> (set (blocks as ns)) \<and>
    (\<forall>i<length ns. \<forall>j<i. blocks as ns ! i \<inter> blocks as ns ! j = {})"
  using assms
proof (induction ns arbitrary: s)
  case Nil
  then show ?case by (simp add: blocks_def)
next
  case (Cons n ns)
  obtain a s1 where a: "alloc s n = Inr (a, s1)" using alloc_ok Cons.prems by fastforce
  note one = alloc_result [OF Cons.prems(1) _ a]
  from Cons.prems a have "can s n" and rest_can: "can_all s1 ns" by auto
  from Cons.IH [OF one(1) [OF \<open>can s n\<close>] rest_can] obtain as s' where rest: "alloc_all s1 ns = Inr (as, s')" "inv s'"
      "length as = length ns" "\<forall>B\<in>set (blocks as ns). B \<inter> used s1 = {}"
      "used s' = used s1 \<union> \<Union> (set (blocks as ns))"
      "\<forall>i<length ns. \<forall>j<i. blocks as ns ! i \<inter> blocks as ns ! j = {}"
    by (elim exE conjE) (rule that)
  have blocks: "blocks (a # as) (n # ns) = frames (unat a) (unat n) # blocks as ns"
    by (simp add: blocks_def)
  have len: "length (blocks as ns) = length ns" using rest(3) by (simp add: blocks_def)
  have "blocks (a # as) (n # ns) ! i \<inter> blocks (a # as) (n # ns) ! j = {}"
    if "i < length (n # ns)" "j < i" for i j
  proof (cases j)
    case 0
    with that obtain i' where i: "i = Suc i'" "i' < length ns" by (cases i) auto
    then have "blocks as ns ! i' \<in> set (blocks as ns)" using len by simp
    then show ?thesis using rest(4) one(3) \<open>can s n\<close> 0 i by (auto simp: blocks)
  next
    case (Suc j')
    with that obtain i' where "i = Suc i'" "i' < length ns" "j' < i'" by (cases i) auto
    then show ?thesis using rest(6) Suc by (simp add: blocks)
  qed
  moreover have "alloc_all s (n # ns) = Inr (a # as, s')" using a rest(1) by simp
  ultimately show ?case
    using rest one \<open>can s n\<close> by (intro exI [of _ "a # as"] exI [of _ s']) (auto simp: blocks)
qed

end

section \<open>AllocatePhysical meets the contract\<close>

text \<open>
  The precondition: the first eligible zone has \<open>n\<close> free pages in a row at or after its first
  free address. (Without it the search runs past the end of the zone.)
\<close>

definition can_allocate :: "PMM \<Rightarrow> u32 \<Rightarrow> u32 \<Rightarrow> bool" where
  "can_allocate s n ty \<longleftrightarrow> ty AND MMIO = 0 \<and>
     (case first_index (eligible n ty) (zones s) of None \<Rightarrow> False
      | Some i \<Rightarrow>
          let z = zones s ! i
          in \<exists>p\<in>{unat (first_offset z) ..< unat (pagecount z) + 1 - unat n}.
               \<forall>k<unat n. \<not> zone_used s i (p + k))"

lemma take_pages_run_update:
  "take_pages s i p n =
   run_update MapPagesInBitmap s i p n (start (zones s ! i) + p * PHYS_PAGE_SIZE + n * PHYS_PAGE_SIZE)"
  by (simp add: take_pages_def run_update_def Let_def)

lemma AllocatePhysical_in_zone:
  assumes wf: "pmm_wf s" and can: "can_allocate s n ty"
  obtains i p where "first_index (eligible n ty) (zones s) = Some i" "i < length (zones s)"
    "AllocatePhysical s n ty = Inr (start (zones s ! i) + p * PHYS_PAGE_SIZE, take_pages s i p n)"
    "unat (first_offset (zones s ! i)) \<le> unat p" "unat p + unat n \<le> unat (pagecount (zones s ! i))"
    "unat p < unat (pagecount (zones s ! i))"
    "CheckIfPagesFree (bitmap_mem s) (alloc_bitmap (zones s ! i)) p n"
    "\<forall>q. unat (first_offset (zones s ! i)) \<le> q \<and> q < unat p \<longrightarrow> (\<exists>k<unat n. zone_used s i (q + k))"
proof -
  from can obtain i where i: "first_index (eligible n ty) (zones s) = Some i"
    by (auto simp: can_allocate_def split: option.splits)
  then have len: "i < length (zones s)" by (simp add: first_index_Some_iff)
  from can i obtain q where q: "unat (first_offset (zones s ! i)) \<le> q"
      "q < unat (pagecount (zones s ! i)) + 1 - unat n" "\<forall>k<unat n. \<not> zone_used s i (q + k)"
    by (auto simp: can_allocate_def Let_def)
  have "q < 2 ^ 32" using q(2) unat_less_u32 [of "pagecount (zones s ! i)"] by simp
  with q obtain p where p: "search_free (bitmap_mem s) (zones s ! i) (first_offset (zones s ! i)) n = Some p"
      "unat (first_offset (zones s ! i)) \<le> unat p" "unat p \<le> q"
      "\<forall>q. unat (first_offset (zones s ! i)) \<le> q \<and> q < unat p \<longrightarrow> (\<exists>k<unat n. zone_used s i (q + k))"
    using search_free_finds [of "first_offset (zones s ! i)" q n "bitmap_mem s" "zones s ! i"]
    by (auto simp: zone_used_def)
  have elig: "eligible n ty (zones s ! i)" using i by (simp add: first_index_Some_iff)
  have "unat p + unat n \<le> unat (pagecount (zones s ! i))" using p(3) q(2) by linarith
  moreover have "unat p < unat (pagecount (zones s ! i))"
  proof (cases "n = 0")
    case False
    then show ?thesis using calculation by (simp add: unat_gt_0 [symmetric])
  next
    case True
    then have "search_free (bitmap_mem s) (zones s ! i) (first_offset (zones s ! i)) n
        = Some (first_offset (zones s ! i))"
      by (subst search_free_step) (simp add: CheckIfPagesFree_iff)
    then show ?thesis using p(1) elig True by (simp add: eligible_def word_less_nat_alt)
  qed
  moreover have "AllocatePhysical s n ty = Inr (start (zones s ! i) + p * PHYS_PAGE_SIZE, take_pages s i p n)"
    using can i p(1) by (simp add: AllocatePhysical_char can_allocate_def)
  ultimately show ?thesis
    using that i len p search_free_is_free [OF p(1)] by blast
qed

interpretation pmm: phys_allocator pmm_wf used_frames "\<lambda>s n. can_allocate s n ty"
  "\<lambda>s n. AllocatePhysical s n ty" for ty
proof unfold_locales
  fix s n
  assume wf: "pmm_wf s" and can: "can_allocate s n ty"
  from AllocatePhysical_in_zone [OF this] obtain i p where
    r: "i < length (zones s)" "AllocatePhysical s n ty = Inr (start (zones s ! i) + p * PHYS_PAGE_SIZE, take_pages s i p n)"
    "unat p + unat n \<le> unat (pagecount (zones s ! i))" "unat p < unat (pagecount (zones s ! i))"
    "CheckIfPagesFree (bitmap_mem s) (alloc_bitmap (zones s ! i)) p n"
    by blast
  have a: "unat (start (zones s ! i) + p * PHYS_PAGE_SIZE) = unat (start (zones s ! i)) + 4096 * unat p"
    using page_address zone_end_le [OF wf r(1)] r(4) by blast
  show "\<exists>a s'. AllocatePhysical s n ty = Inr (a, s') \<and> pmm_wf s' \<and>
      frames (unat a) (unat n) \<inter> used_frames s = {} \<and>
      used_frames s' = used_frames s \<union> frames (unat a) (unat n)"
    using r(2) free_run_frames [OF wf r(1,3,5)] used_frames_mark [OF wf r(1,3)] pmm_wf_run_update [OF wf]
    unfolding take_pages_run_update by (metis a)
qed

end
