(* ===== verification/PMM_Map.thy ===== *)
theory PMM_Map
  imports PMM_Alloc
begin

text \<open>
  \<open>FindZone\<close>, \<open>MapPages\<close> and \<open>UnmapPages\<close>: which zone an address belongs to, and what
  mapping and unmapping a run of its pages does to the pages in use.
\<close>

unbundle bit_operations_syntax

section \<open>FindZone\<close>

definition covers :: "PMMZone \<Rightarrow> u32 \<Rightarrow> bool" where
  "covers z addr \<longleftrightarrow> unat (start z) \<le> unat addr \<and> unat addr < zone_end z"

text \<open>An empty zone at address 0 would have the whole address space between its bounds.\<close>

definition nonempty_zones :: "PMM \<Rightarrow> bool" where
  "nonempty_zones s \<longleftrightarrow> (\<forall>z\<in>set (zones s). pagecount z \<noteq> 0)"

lemma zone_test_covers:
  assumes "zone_end z \<le> 2 ^ 32" "pagecount z \<noteq> 0"
  shows "addr \<ge> start z \<and> addr \<le> start z + PHYS_PAGE_SIZE * pagecount z - 1 \<longleftrightarrow> covers z addr"
proof -
  have pos: "0 < unat (pagecount z)" using assms(2) by (simp add: unat_gt_0)
  have end_bound: "unat (start z) + 4096 * unat (pagecount z) \<le> 4294967296"
    using assms(1) by (simp add: zone_end_def)
  have "4096 * unat (pagecount z) - 1 < 4294967296" using end_bound by linarith
  then have "unat (PHYS_PAGE_SIZE * pagecount z - 1) = 4096 * unat (pagecount z) - 1"
  proof (cases "4096 * unat (pagecount z) = 4294967296")
    case True
    then have "unat (PHYS_PAGE_SIZE * pagecount z) = 0" by (simp add: unat_word_ariths)
    then have "PHYS_PAGE_SIZE * pagecount z = 0" by (simp add: unat_eq_0)
    with True show ?thesis by (simp add: unsigned_minus_1_eq_mask mask_eq_exp_minus_1)
  next
    case False
    then have "unat (PHYS_PAGE_SIZE * pagecount z) = 4096 * unat (pagecount z)"
      using end_bound by (subst unat_mult_small) auto
    then show ?thesis using pos by (simp add: unat_sub_le word_le_nat_alt)
  qed
  then have "unat (start z + (PHYS_PAGE_SIZE * pagecount z - 1)) =
      unat (start z) + (4096 * unat (pagecount z) - 1)"
    using end_bound pos by (subst unat_add_small) auto
  then show ?thesis
    using pos by (auto simp: covers_def zone_end_def word_le_nat_alt add_diff_eq)
qed

lemma FindZone_from_char:
  assumes "\<forall>z\<in>set zs. zone_end z \<le> 2 ^ 32 \<and> pagecount z \<noteq> 0"
  shows "FindZone_from i zs addr = map_option ((+) i) (first_index (\<lambda>z. covers z addr) zs)"
  using assms
proof (induction zs arbitrary: i)
  case (Cons z zs)
  have "map_option ((+) (Suc i)) r = map_option ((+) i) (map_option Suc r)" for r
    by (cases r) simp_all
  moreover have "FindZone_from i (z # zs) addr =
      (if covers z addr then Some i else FindZone_from (Suc i) zs addr)"
    using zone_test_covers [of z addr] Cons.prems by (simp add: Let_def)
  ultimately show ?case using Cons by simp
qed simp

lemma FindZone_char:
  "pmm_wf s \<Longrightarrow> nonempty_zones s \<Longrightarrow> FindZone s addr = first_index (\<lambda>z. covers z addr) (zones s)"
  by (simp add: FindZone_def FindZone_from_char pmm_wf_def nonempty_zones_def option.map_ident_strong)

lemma FindZone_Some_iff:
  assumes "pmm_wf s" "nonempty_zones s"
  shows "FindZone s addr = Some i \<longleftrightarrow> i < length (zones s) \<and> covers (zones s ! i) addr"
proof -
  have "\<not> covers (zones s ! j) addr" if "i < length (zones s)" "covers (zones s ! i) addr" "j < i" for j
    using assms(1) that unfolding pmm_wf_def covers_def
    by (metis (no_types, lifting) leD le_less_trans less_trans nat_neq_iff order.strict_trans2)
  then show ?thesis by (auto simp: FindZone_char [OF assms] first_index_Some_iff)
qed

text \<open>The number of the page that holds an address of a zone.\<close>

definition page_of :: "PMMZone \<Rightarrow> u32 \<Rightarrow> u32" where
  "page_of z addr = (addr - start z) div PHYS_PAGE_SIZE"

lemma unat_page_of:
  "covers z addr \<Longrightarrow> unat (page_of z addr) = (unat addr - unat (start z)) div 4096"
  by (simp add: page_of_def covers_def unat_div unat_sub_le word_le_nat_alt)

lemma page_of_less:
  assumes "covers z addr"
  shows "unat (page_of z addr) < unat (pagecount z)"
proof -
  have "unat addr - unat (start z) < unat (pagecount z) * 4096"
    using assms unfolding covers_def zone_end_def by linarith
  then show ?thesis using assms by (simp add: unat_page_of less_mult_imp_div_less)
qed

text \<open>The address of a page lies in its zone, on that page.\<close>

lemma page_of_page_address:
  assumes "zone_end z \<le> 2 ^ 32" "unat p < unat (pagecount z)"
  shows "covers z (start z + p * PHYS_PAGE_SIZE)" "page_of z (start z + p * PHYS_PAGE_SIZE) = p"
proof -
  have a: "unat (start z + p * PHYS_PAGE_SIZE) = unat (start z) + 4096 * unat p"
    by (rule page_address [OF assms])
  show cov: "covers z (start z + p * PHYS_PAGE_SIZE)"
    unfolding covers_def a using assms(2) by (simp add: zone_end_def)
  have "unat (page_of z (start z + p * PHYS_PAGE_SIZE)) = unat p"
    using unat_page_of [OF cov] by (simp add: a)
  then show "page_of z (start z + p * PHYS_PAGE_SIZE) = p" by (simp add: word_unat_eq_iff)
qed

section \<open>MapPages and UnmapPages on a zone\<close>

lemma MapPages_char:
  assumes "FindZone s addr = Some i"
  defines "z \<equiv> zones s ! i"
  shows "MapPages s addr n =
     (if first_free_addr z \<le> addr \<and> CheckIfPagesFree (bitmap_mem s) (alloc_bitmap z) (page_of z addr) n
      then (addr, run_update MapPagesInBitmap s i (page_of z addr) n
              (if addr = first_free_addr z then first_free_addr z + n * PHYS_PAGE_SIZE
               else first_free_addr z))
      else (MAP_FAILED, s))"
  using assms(1) by (auto simp: MapPages_def Let_def z_def page_of_def run_update_def not_less)

lemma UnmapPages_char:
  assumes "FindZone s addr = Some i"
  defines "z \<equiv> zones s ! i"
  shows "UnmapPages s addr n =
     (n, run_update FlipPagesInBitmap s i (page_of z addr) n
           (if addr < first_free_addr z then addr AND NOT 0xfff else first_free_addr z))"
  using assms(1) by (auto simp: UnmapPages_def Let_def z_def page_of_def run_update_def)

lemma run_update_first_free [simp]:
  "i < length (zones s) \<Longrightarrow> first_free_addr (zones (run_update op s i p n ff) ! i) = ff"
  "j \<noteq> i \<Longrightarrow> zones (run_update op s i p n ff) ! j = zones s ! j"
  by (simp_all add: run_update_def)

lemma nonempty_run_update [simp]: "nonempty_zones (run_update op s i p n ff) = nonempty_zones s"
  unfolding nonempty_zones_def by (metis in_set_conv_nth run_update_layout(1,3))

lemma covers_run_update [simp]:
  "covers (zones (run_update op s i p n ff) ! j) = covers (zones s ! j)"
  by (simp add: covers_def zone_end_def fun_eq_iff)

lemma page_of_run_update [simp]:
  "page_of (zones (run_update op s i p n ff) ! j) = page_of (zones s ! j)"
  by (simp add: page_of_def fun_eq_iff)

lemma FindZone_run_update [simp]:
  assumes "pmm_wf s" "nonempty_zones s"
  shows "FindZone (run_update op s i p n ff) addr = FindZone s addr"
proof -
  have "FindZone (run_update op s i p n ff) addr = Some j \<longleftrightarrow> FindZone s addr = Some j" for j
    using assms pmm_wf_run_update [OF assms(1)] by (simp add: FindZone_Some_iff)
  then show ?thesis by (metis option.exhaust)
qed

text \<open>Flipping a marked run of a zone removes its frames from those in use.\<close>

lemma used_frames_unmark:
  assumes wf: "pmm_wf s" and i: "i < length (zones s)"
    and run: "unat p + unat n \<le> unat (pagecount (zones s ! i))"
    and used: "\<And>k. k < unat n \<Longrightarrow> zone_used s i (unat p + k)"
  shows "used_frames (run_update FlipPagesInBitmap s i p n ff) =
         used_frames s - frames (unat (start (zones s ! i)) + 4096 * unat p) (unat n)"
proof (intro set_eqI iffI)
  have run_used: "zone_used s i q" if "unat p \<le> q" "q < unat p + unat n" for q
    using used [of "q - unat p"] that by (simp add: less_diff_conv2)
  fix x
  assume "x \<in> used_frames (run_update FlipPagesInBitmap s i p n ff)"
  then obtain j q where x: "x = unat (start (zones s ! j)) + 4096 * q" "j < length (zones s)"
      "q < unat (pagecount (zones s ! j))"
      "zone_used s j q \<noteq> (j = i \<and> unat p \<le> q \<and> q < unat p + unat n)"
    using zone_used_mark(2) [OF wf i _ run] by (auto simp: used_frames_def)
  have notin: "\<not> (j = i \<and> unat p \<le> q \<and> q < unat p + unat n)"
    using x(4) run_used by auto
  have "x \<notin> frames (unat (start (zones s ! i)) + 4096 * unat p) (unat n)"
  proof
    assume "x \<in> frames (unat (start (zones s ! i)) + 4096 * unat p) (unat n)"
    then obtain k where k: "k < unat n" "x = unat (start (zones s ! i)) + 4096 * (unat p + k)"
      by (auto simp: frames_iff algebra_simps)
    then show False using frame_unique [OF wf x(2) i x(3), of "unat p + k"] x(1) run notin by simp
  qed
  then show "x \<in> used_frames s - frames (unat (start (zones s ! i)) + 4096 * unat p) (unat n)"
    using x notin by (auto simp: used_frames_def)
next
  fix x
  assume x: "x \<in> used_frames s - frames (unat (start (zones s ! i)) + 4096 * unat p) (unat n)"
  then obtain j q where jq: "x = unat (start (zones s ! j)) + 4096 * q" "j < length (zones s)"
      "q < unat (pagecount (zones s ! j))" "zone_used s j q"
    by (auto simp: used_frames_def)
  have "\<not> (j = i \<and> unat p \<le> q \<and> q < unat p + unat n)"
  proof
    assume q: "j = i \<and> unat p \<le> q \<and> q < unat p + unat n"
    then have "x = unat (start (zones s ! i)) + 4096 * unat p + 4096 * (q - unat p)"
      using jq(1) by (simp add: algebra_simps)
    moreover have "q - unat p < unat n" using q by linarith
    ultimately show False using x by (auto simp: frames_iff)
  qed
  then show "x \<in> used_frames (run_update FlipPagesInBitmap s i p n ff)"
    using jq zone_used_mark(2) [OF wf i jq(2) run jq(3)] by (auto simp: used_frames_def)
qed

end
