(* ===== verification/PMM_Init.thy ===== *)
theory PMM_Init
  imports PMM_Map
begin

text \<open>
  The constructor of the physical memory manager: the bitmaps it lays out behind the kernel
  do not overlap and are clear, and exactly the kernel's own pages are reserved.
\<close>

unbundle bit_operations_syntax

section \<open>The constructor\<close>

text \<open>Bytes of the bitmaps of the first \<open>i\<close> entries of a memory map.\<close>

definition entry_bytes :: "MemoryMap \<Rightarrow> nat" where
  "entry_bytes e = unat (mmap_pagecount e) div 8 + 1"

definition bitmaps_size :: "MemoryMap list \<Rightarrow> nat" where
  "bitmaps_size es = sum_list (map entry_bytes es)"

lemma bitmaps_size_simps [simp]:
  "bitmaps_size [] = 0" "bitmaps_size (e # es) = entry_bytes e + bitmaps_size es"
  by (simp_all add: bitmaps_size_def)

definition init_zone :: "MemoryMap \<Rightarrow> u32 \<Rightarrow> PMMZone" where
  "init_zone e bm = \<lparr>start = mm_start e, first_free_addr = mm_start e, pagecount = mmap_pagecount e,
     zone_type = mmap_zone_type e, alloc_bitmap = bm\<rparr>"

lemma unat_entry_bytes: "unat (mmap_pagecount e div 8 + 1) = entry_bytes e"
proof -
  have "unat (mmap_pagecount e) div 8 + 1 < 4294967296"
    using unat_less_u32 [of "mmap_pagecount e"] by linarith
  then show ?thesis by (subst unat_add_small) (simp_all add: unat_div entry_bytes_def)
qed

text \<open>Zone \<open>i\<close> gets the bitmap that starts where the bitmaps before it end, all bits clear.\<close>

lemma init_zones_char:
  assumes "unat kend + bitmaps_size es < 2 ^ 32" "init_zones es kend m = (zs, kend', m')"
  shows "length zs = length es" (is ?len)
    and "unat kend' = unat kend + bitmaps_size es" (is ?kend)
    and "\<forall>i<length es. zs ! i = init_zone (es ! i) (kend + of_nat (bitmaps_size (take i es)))" (is ?zs)
    and "\<forall>a. m' a = (if unat kend \<le> unat a \<and> unat a < unat kend + bitmaps_size es then 0 else m a)" (is ?mem)
proof -
  have "?len \<and> ?kend \<and> ?zs \<and> ?mem"
    using assms
  proof (induction es arbitrary: kend m zs kend' m')
    case Nil
    then show ?case by auto
  next
    case (Cons e es)
    let ?bytes = "mmap_pagecount e div 8 + 1"
    obtain zs1 k1 m1 where rest: "init_zones es (kend + ?bytes) (memset kend 0 ?bytes m) = (zs1, k1, m1)"
      by (cases "init_zones es (kend + ?bytes) (memset kend 0 ?bytes m)") auto
    have zs: "zs = init_zone e kend # zs1" "kend' = k1" "m' = m1"
      using Cons.prems(2) rest by (auto simp: Let_def init_zone_def)
    have step: "unat (kend + ?bytes) = unat kend + entry_bytes e"
      using Cons.prems(1) by (subst unat_add_small) (simp_all add: unat_entry_bytes)
    have fits: "unat (kend + ?bytes) + bitmaps_size es < 2 ^ 32"
      using Cons.prems(1) unfolding step by simp
    note IH = Cons.IH [OF fits rest]
    have of_bytes: "?bytes = of_nat (entry_bytes e)"
      by (simp flip: unat_entry_bytes)
    have "zs ! i = init_zone ((e # es) ! i) (kend + of_nat (bitmaps_size (take i (e # es))))"
      if "i < length (e # es)" for i
    proof (cases i)
      case (Suc j)
      then show ?thesis using IH that zs(1) unfolding of_bytes by (simp add: add.assoc)
    qed (simp add: zs)
    moreover have "m' a = (if unat kend \<le> unat a \<and> unat a < unat kend + bitmaps_size (e # es) then 0 else m a)"
      for a
    proof -
      have "in_region kend (entry_bytes e) a \<longleftrightarrow> unat kend \<le> unat a \<and> unat a < unat kend + entry_bytes e"
        using Cons.prems(1) by (intro in_region_unat) simp
      then show ?thesis
        using IH zs(3) unfolding step by (auto simp: memset_at unat_entry_bytes)
    qed
    ultimately show ?case using IH zs step by simp
  qed
  then show ?len ?kend ?zs ?mem by auto
qed

text \<open>
  A memory map the constructor can work with: areas below 4 GB that do not overlap once their
  lengths are rounded to pages.
\<close>

definition area_end :: "MemoryMap \<Rightarrow> nat" where
  "area_end e = unat (mm_start e) + 4096 * unat (mmap_pagecount e)"

definition mmap_ok :: "MemoryMap list \<Rightarrow> bool" where
  "mmap_ok es \<longleftrightarrow> (\<forall>e\<in>set es. area_end e \<le> 2 ^ 32 \<and> mm_len e \<noteq> 0) \<and>
     (\<forall>i<length es. \<forall>j<length es. i \<noteq> j \<longrightarrow>
        area_end (es ! i) \<le> unat (mm_start (es ! j)) \<or> area_end (es ! j) \<le> unat (mm_start (es ! i)))"

lemma bitmaps_size_take:
  assumes "i < length es"
  shows "bitmaps_size (take i es) + entry_bytes (es ! i) = bitmaps_size (take (Suc i) es)"
  using assms by (simp add: bitmaps_size_def take_Suc_conv_app_nth)

lemma bitmaps_size_take_le: "i \<le> j \<Longrightarrow> bitmaps_size (take i es) \<le> bitmaps_size (take j es)"
proof -
  assume "i \<le> j"
  then have "take j es = take i es @ take (j - i) (drop i es)" by (metis le_add_diff_inverse take_add)
  then show ?thesis by (simp add: bitmaps_size_def)
qed

lemma bitmaps_size_take_bound: "bitmaps_size (take i es) \<le> bitmaps_size es"
  using bitmaps_size_take_le [of i "length es" es] by (cases "i \<le> length es") simp_all

text \<open>The bitmaps lie one behind the other.\<close>

lemma bitmaps_apart:
  fixes es :: "MemoryMap list" and kend :: u32
  defines "bm \<equiv> \<lambda>i. kend + of_nat (bitmaps_size (take i es))"
  assumes fits: "unat kend + bitmaps_size es < 2 ^ 32"
  shows "unat (bm i) = unat kend + bitmaps_size (take i es)"
    and "i < length es \<Longrightarrow> unat (bm i) + entry_bytes (es ! i) \<le> unat kend + bitmaps_size es"
    and "i < length es \<Longrightarrow> j < length es \<Longrightarrow> i \<noteq> j \<Longrightarrow>
      disjoint_regions (bm i) (entry_bytes (es ! i)) (bm j) (entry_bytes (es ! j))"
proof -
  show bm: "unat (bm i) = unat kend + bitmaps_size (take i es)" for i
    unfolding bm_def using fits bitmaps_size_take_bound [of i es] by (subst unat_add_small) (simp_all add: unat_of_nat_small)
  show top: "unat (bm i) + entry_bytes (es ! i) \<le> unat kend + bitmaps_size es" if "i < length es" for i
    using bitmaps_size_take [of i es] bitmaps_size_take_bound [of "Suc i" es] that by (simp add: bm)
  have behind: "unat (bm i) + entry_bytes (es ! i) \<le> unat (bm j)" if "i < j" "j < length es" for i j
    using bitmaps_size_take [of i es] bitmaps_size_take_le [of "Suc i" j es] that by (simp add: bm)
  show "disjoint_regions (bm i) (entry_bytes (es ! i)) (bm j) (entry_bytes (es ! j))"
    if ij: "i < length es" "j < length es" "i \<noteq> j"
  proof (cases "i < j")
    case True
    then show ?thesis using disjoint_regionsI [OF behind] top [OF ij(2)] fits ij(2) by simp
  next
    case False
    then show ?thesis
      using disjoint_regions_sym [OF disjoint_regionsI [OF behind, of j i]] top [OF ij(1)] fits ij by simp
  qed
qed

lemma init_zones_wf:
  assumes ok: "mmap_ok es" and fits: "unat kend + bitmaps_size es < 2 ^ 32"
    and init: "init_zones es kend m = (zs, kend', m')"
  shows "pmm_wf \<lparr>zones = zs, bitmap_mem = m'\<rparr>" "nonempty_zones \<lparr>zones = zs, bitmap_mem = m'\<rparr>"
    "used_frames \<lparr>zones = zs, bitmap_mem = m'\<rparr> = {}"
proof -
  note c = init_zones_char [OF fits init]
  let ?bm = "\<lambda>i. kend + of_nat (bitmaps_size (take i es))"
  note bm = bitmaps_apart(1) [OF fits] and top = bitmaps_apart(2) [OF fits] and apart = bitmaps_apart(3) [OF fits]
  have z: "zs ! i = init_zone (es ! i) (?bm i)" if "i < length zs" for i using that c by simp
  have set_z: "\<exists>i<length zs. z = init_zone (es ! i) (?bm i)" if "z \<in> set zs" for z
    using that z by (metis in_set_conv_nth)
  have pages: "mmap_pagecount e \<noteq> 0" if "mm_len e \<noteq> 0" for e
    using that by (auto simp: mmap_pagecount_def Let_def word_neq_0_conv)
  have bytes: "bitmap_bytes (zs ! i) = entry_bytes (es ! i)" if "i < length zs" for i
    using z [OF that] by (simp add: bitmap_bytes_def init_zone_def entry_bytes_def)
  have layout: "zone_end (zs ! i) = area_end (es ! i)" "start (zs ! i) = mm_start (es ! i)"
      "alloc_bitmap (zs ! i) = ?bm i" if "i < length zs" for i
    using z [OF that] by (simp_all add: zone_end_def init_zone_def area_end_def)
  have "zone_end z \<le> 2 ^ 32" if "z \<in> set zs" for z
  proof -
    from that obtain i where i: "i < length zs" "z = zs ! i" by (auto simp: in_set_conv_nth)
    then have "es ! i \<in> set es" using c(1) by simp
    then show ?thesis using ok i layout(1) [OF i(1)] by (simp add: mmap_ok_def)
  qed
  then show "pmm_wf \<lparr>zones = zs, bitmap_mem = m'\<rparr>"
    using ok c(1) by (simp add: pmm_wf_def mmap_ok_def layout bytes apart)
  have "pagecount z \<noteq> 0" if "z \<in> set zs" for z
  proof -
    from that obtain i where i: "i < length zs" "z = init_zone (es ! i) (?bm i)" using set_z by blast
    then have "es ! i \<in> set es" using c(1) by simp
    then show ?thesis using ok pages i(2) by (simp add: mmap_ok_def init_zone_def)
  qed
  then show "nonempty_zones \<lparr>zones = zs, bitmap_mem = m'\<rparr>" by (simp add: nonempty_zones_def)
  have "\<not> page_used m' (alloc_bitmap (zs ! i)) p"
    if i: "i < length zs" and p: "p < unat (pagecount (zs ! i))" for i p
  proof -
    have le: "p div 8 < entry_bytes (es ! i)"
      using p z [OF i] div_le_mono [of p "unat (mmap_pagecount (es ! i))" 8]
      by (simp add: init_zone_def entry_bytes_def)
    have byte: "unat (?bm i + of_nat (p div 8)) = unat (?bm i) + p div 8"
      using le top [of i] fits i c(1) by (subst unat_add_small) (simp_all add: unat_of_nat_small)
    have "m' (?bm i + of_nat (p div 8)) = 0"
      using c(4) byte le bitmaps_size_take [of i es] bitmaps_size_take_bound [of "Suc i" es] i c(1)
      by (simp add: bm)
    then show ?thesis using z [OF i] by (simp add: page_used_def init_zone_def)
  qed
  then show "used_frames \<lparr>zones = zs, bitmap_mem = m'\<rparr> = {}"
    by (auto simp: used_frames_def zone_used_def)
qed

text \<open>The pages the constructor reserves: from the kernel's start to the end of the bitmaps.\<close>

definition tables_start :: "u32 \<Rightarrow> MemoryMap list \<Rightarrow> u32" where
  "tables_start pool es = pool + sizeof_PMMZone * of_nat (length es)"

definition reserved_pages :: "u32 \<Rightarrow> u32 \<Rightarrow> u32 \<Rightarrow> MemoryMap list \<Rightarrow> u32" where
  "reserved_pages ks off pool es =
     1 + (tables_start pool es + of_nat (bitmaps_size es) - (ks + off)) div PHYS_PAGE_SIZE"

lemma reserved_pages_pos: "0 < unat (reserved_pages ks off pool es)"
proof -
  have "unat ((tables_start pool es + of_nat (bitmaps_size es) - (ks + off)) div PHYS_PAGE_SIZE) < 2 ^ 20"
    using unat_less_u32 [of "tables_start pool es + of_nat (bitmaps_size es) - (ks + off)"]
    by (simp add: unat_div less_mult_imp_div_less)
  then show ?thesis unfolding reserved_pages_def by (subst unat_add_small) simp_all
qed

lemma PMM_init_char:
  assumes ok: "mmap_ok es" and fits: "unat (tables_start pool es) + bitmaps_size es < 2 ^ 32"
    and i: "i < length es" "unat (mm_start (es ! i)) \<le> unat ks"
    and ks: "ks \<noteq> MAP_FAILED"
    and room: "(unat ks - unat (mm_start (es ! i))) div 4096 + unat (reserved_pages ks off pool es)
               \<le> unat (mmap_pagecount (es ! i))"
  obtains s where "PMM_init ks off pool es m = Inr s" "pmm_wf s" "nonempty_zones s"
    "used_frames s = frames (unat (mm_start (es ! i)) +
        4096 * ((unat ks - unat (mm_start (es ! i))) div 4096)) (unat (reserved_pages ks off pool es))"
proof -
  obtain zs kend' m' where init: "init_zones es (tables_start pool es) m = (zs, kend', m')"
    by (cases "init_zones es (tables_start pool es) m") auto
  let ?s = "\<lparr>zones = zs, bitmap_mem = m'\<rparr>" and ?n = "reserved_pages ks off pool es"
  note c = init_zones_char [OF fits init] and wf = init_zones_wf [OF ok fits init]
  have kend': "kend' = tables_start pool es + of_nat (bitmaps_size es)"
    using arg_cong [OF c(2), of "of_nat :: nat \<Rightarrow> u32"] by simp
  have z: "start (zs ! i) = mm_start (es ! i)" "pagecount (zs ! i) = mmap_pagecount (es ! i)"
      "first_free_addr (zs ! i) = mm_start (es ! i)"
    using c(3) i(1) by (simp_all add: init_zone_def)
  have "0 < unat ?n" by (rule reserved_pages_pos)
  with room have "(unat ks - unat (mm_start (es ! i))) div 4096 < unat (mmap_pagecount (es ! i))"
    by linarith
  then have cov: "covers (zs ! i) ks"
    using i(2) by (simp add: covers_def zone_end_def z div_less_iff_less_mult)
  then have find: "FindZone ?s ks = Some i"
    using i(1) c(1) by (simp add: FindZone_Some_iff [OF wf(1,2)])
  have run: "unat (page_of (zones ?s ! i) ks) + unat ?n \<le> unat (pagecount (zones ?s ! i))"
    using room by (simp add: unat_page_of [OF cov] z)
  have page: "unat (start (zones ?s ! i)) + 4096 * unat (page_of (zones ?s ! i) ks) =
      unat (mm_start (es ! i)) + 4096 * ((unat ks - unat (mm_start (es ! i))) div 4096)"
    by (simp add: unat_page_of [OF cov] z)
  have "\<not> zone_used ?s i q" if "q < unat (pagecount (zones ?s ! i))" for q
    using used_frames_page [OF wf(1), of i q] wf(3) that i(1) c(1) by simp
  then have free: "CheckIfPagesFree m' (alloc_bitmap (zs ! i)) (page_of (zs ! i) ks) ?n"
    using run by (simp add: CheckIfPagesFree_iff zone_used_def)
  define s where "s = run_update MapPagesInBitmap ?s i (page_of (zs ! i) ks) ?n
    (if ks = first_free_addr (zs ! i) then first_free_addr (zs ! i) + ?n * PHYS_PAGE_SIZE
     else first_free_addr (zs ! i))"
  have "MapPages ?s ks ?n = (ks, s)"
    using free i(2) by (simp add: MapPages_char [OF find] z s_def word_le_nat_alt)
  then have "PMM_init ks off pool es m = Inr s"
    using init ks kend' unfolding PMM_init_def
    by (simp add: tables_start_def reserved_pages_def Let_def)
  moreover have "used_frames s = frames (unat (mm_start (es ! i)) +
        4096 * ((unat ks - unat (mm_start (es ! i))) div 4096)) (unat ?n)"
    using used_frames_mark [OF wf(1) _ run] i(1) c(1) wf(3) page unfolding s_def by simp
  moreover have "pmm_wf s" "nonempty_zones s"
    using pmm_wf_run_update [OF wf(1)] wf(2) by (simp_all add: s_def)
  ultimately show ?thesis using that by blast
qed

end
