(* ===== verification/PMM_Properties.thy ===== *)
theory PMM_Properties
  imports PMM_Init
begin

text \<open>
  The properties of the physical memory manager, each with a run of it on a concrete state.
\<close>

unbundle bit_operations_syntax

section \<open>Sample states\<close>

text \<open>One zone of 16 free pages at 1 MB, and one of four.\<close>

definition sample_pmm :: PMM where
  "sample_pmm = \<lparr>zones = [\<lparr>start = 0x100000, first_free_addr = 0x100000, pagecount = 16,
     zone_type = Normal, alloc_bitmap = 0x1000\<rparr>], bitmap_mem = (\<lambda>_. 0)\<rparr>"

definition tiny_pmm :: PMM where
  "tiny_pmm = \<lparr>zones = [\<lparr>start = 0x100000, first_free_addr = 0x100000, pagecount = 4,
     zone_type = Normal, alloc_bitmap = 0x1000\<rparr>], bitmap_mem = (\<lambda>_. 0)\<rparr>"

lemma sample_pmm_wf: "pmm_wf sample_pmm" "nonempty_zones sample_pmm"
  by (simp_all add: pmm_wf_def nonempty_zones_def sample_pmm_def zone_end_def)

lemma sample_pmm_can: "can_allocate sample_pmm 3 Normal"
  by (auto simp: can_allocate_def sample_pmm_def eligible_def first_offset_def zone_used_def
      page_used_def intro!: exI [of _ "0::nat"])

lemma sample_pmm_find: "FindZone sample_pmm 0x103000 = Some 0"
  by (simp add: FindZone_def sample_pmm_def)

lemmas pmm_eval = AllocatePhysical_def search_free.simps CheckIfPagesFree_def MapPagesInBitmap_def
  FlipPagesInBitmap_def test_bit_at_def MapPages_def UnmapPages_def FindZone_def Let_def

section \<open>Allocation\<close>

text \<open>
  C1. \<open>AllocatePhysical\<close> returns fresh pages: whenever the zone it turns to has a free run, it
  succeeds, none of the returned pages was in use, exactly they become used, and the layout
  of the zones stays well-formed.
\<close>

theorem AllocatePhysical_fresh:
  assumes "pmm_wf s" "can_allocate s n ty"
  shows "\<exists>a s'. AllocatePhysical s n ty = Inr (a, s') \<and> pmm_wf s' \<and>
    frames (unat a) (unat n) \<inter> used_frames s = {} \<and>
    used_frames s' = used_frames s \<union> frames (unat a) (unat n)"
  using assms by (rule pmm.alloc_ok)

theorem AllocatePhysical_fresh_witness:
  "\<exists>a s'. AllocatePhysical sample_pmm 3 Normal = Inr (a, s') \<and> pmm_wf s' \<and>
    frames (unat a) 3 \<inter> used_frames sample_pmm = {} \<and>
    used_frames s' = used_frames sample_pmm \<union> frames (unat a) 3"
  using AllocatePhysical_fresh [OF sample_pmm_wf(1) sample_pmm_can] by simp

text \<open>
  C2. First fit: the pages come from the first eligible zone, and from the lowest offset at or
  after its first free address from which enough pages are free.
\<close>

theorem AllocatePhysical_first_fit:
  assumes "pmm_wf s" "can_allocate s n ty"
  shows "\<exists>i p s'. first_index (eligible n ty) (zones s) = Some i \<and>
    AllocatePhysical s n ty = Inr (start (zones s ! i) + p * PHYS_PAGE_SIZE, s') \<and>
    unat (first_offset (zones s ! i)) \<le> unat p \<and>
    unat p + unat n \<le> unat (pagecount (zones s ! i)) \<and>
    (\<forall>k<unat n. \<not> zone_used s i (unat p + k)) \<and>
    (\<forall>q\<in>{unat (first_offset (zones s ! i)) ..< unat p}. \<exists>k<unat n. zone_used s i (q + k))"
proof -
  from AllocatePhysical_in_zone [OF assms] obtain i p where r:
    "first_index (eligible n ty) (zones s) = Some i" "i < length (zones s)"
    "AllocatePhysical s n ty = Inr (start (zones s ! i) + p * PHYS_PAGE_SIZE, take_pages s i p n)"
    "unat (first_offset (zones s ! i)) \<le> unat p" "unat p + unat n \<le> unat (pagecount (zones s ! i))"
    "unat p < unat (pagecount (zones s ! i))"
    "CheckIfPagesFree (bitmap_mem s) (alloc_bitmap (zones s ! i)) p n"
    "\<forall>q. unat (first_offset (zones s ! i)) \<le> q \<and> q < unat p \<longrightarrow> (\<exists>k<unat n. zone_used s i (q + k))"
    .
  then show ?thesis
    by (intro exI [of _ i] exI [of _ p] exI [of _ "take_pages s i p n"])
      (simp add: CheckIfPagesFree_iff zone_used_def)
qed

theorem AllocatePhysical_first_fit_witness:
  "\<exists>i p s'. first_index (eligible 3 Normal) (zones sample_pmm) = Some i \<and>
    AllocatePhysical sample_pmm 3 Normal =
      Inr (start (zones sample_pmm ! i) + p * PHYS_PAGE_SIZE, s') \<and>
    unat (first_offset (zones sample_pmm ! i)) \<le> unat p"
  using AllocatePhysical_first_fit [OF sample_pmm_wf(1) sample_pmm_can] by blast

text \<open>
  Requests served one after the other, and the condition that each can be met when its turn comes.
\<close>

fun allocate_each :: "u32 \<Rightarrow> PMM \<Rightarrow> u32 list \<Rightarrow> (u32 list \<times> PMM) result" where
  "allocate_each ty s [] = Inr ([], s)"
| "allocate_each ty s (n # ns) = and_then (AllocatePhysical s n ty) (\<lambda>(a, s1).
     and_then (allocate_each ty s1 ns) (\<lambda>(as, s2). Inr (a # as, s2)))"

fun can_allocate_each :: "u32 \<Rightarrow> PMM \<Rightarrow> u32 list \<Rightarrow> bool" where
  "can_allocate_each ty s [] = True"
| "can_allocate_each ty s (n # ns) \<longleftrightarrow> can_allocate s n ty \<and>
     (case AllocatePhysical s n ty of Inl e \<Rightarrow> True | Inr (a, s1) \<Rightarrow> can_allocate_each ty s1 ns)"

lemma allocate_each_alloc_all: "pmm.alloc_all ty s ns = allocate_each ty s ns"
  by (induction ns arbitrary: s) (simp_all add: case_prod_unfold)

lemma can_allocate_each_can_all: "pmm.can_all ty s ns = can_allocate_each ty s ns"
  by (induction ns arbitrary: s) (simp_all split: sum.splits)

text \<open>
  C3. Any sequence of allocations, each of which the zones can meet, hands out pairwise
  disjoint runs of pages that were not in use before.
\<close>

theorem AllocatePhysical_sequence_disjoint:
  assumes "pmm_wf s" "can_allocate_each ty s ns"
  shows "\<exists>as s'. allocate_each ty s ns = Inr (as, s') \<and> length as = length ns \<and>
    (\<forall>i<length ns. frames (unat (as ! i)) (unat (ns ! i)) \<inter> used_frames s = {} \<and>
      (\<forall>j<i. frames (unat (as ! i)) (unat (ns ! i)) \<inter> frames (unat (as ! j)) (unat (ns ! j)) = {}))"
proof -
  from pmm.alloc_all_ok [OF assms(1), of ty ns] assms(2) obtain as s' where r:
    "allocate_each ty s ns = Inr (as, s')" "length as = length ns"
    "\<forall>B\<in>set (pmm.blocks as ns). B \<inter> used_frames s = {}"
    "\<forall>i<length ns. \<forall>j<i. pmm.blocks as ns ! i \<inter> pmm.blocks as ns ! j = {}"
    unfolding allocate_each_alloc_all can_allocate_each_can_all by metis
  have nth: "pmm.blocks as ns ! i = frames (unat (as ! i)) (unat (ns ! i))" if "i < length ns" for i
    using that r(2) by (simp add: pmm.blocks_def)
  have mem: "pmm.blocks as ns ! i \<in> set (pmm.blocks as ns)" if "i < length ns" for i
    using that r(2) by (intro nth_mem) (simp add: pmm.blocks_def)
  show ?thesis
  proof (intro exI [of _ as] exI [of _ s'] conjI allI impI)
    fix i assume i: "i < length ns"
    show "frames (unat (as ! i)) (unat (ns ! i)) \<inter> used_frames s = {}"
      using r(3) mem [OF i] nth [OF i] by blast
    fix j assume j: "j < i"
    then have "pmm.blocks as ns ! i \<inter> pmm.blocks as ns ! j = {}" using r(4) i by blast
    then show "frames (unat (as ! i)) (unat (ns ! i)) \<inter> frames (unat (as ! j)) (unat (ns ! j)) = {}"
      using i j by (simp add: nth)
  qed (use r in auto)
qed

lemma sample_pmm_can_twice: "can_allocate_each Normal sample_pmm [3, 2]"
proof -
  let ?m = "MapPagesInBitmap 0x1000 0 3 (\<lambda>_. 0)"
  let ?s = "sample_pmm\<lparr>zones := [\<lparr>start = 0x100000, first_free_addr = 0x103000, pagecount = 16,
     zone_type = Normal, alloc_bitmap = 0x1000\<rparr>], bitmap_mem := ?m\<rparr>"
  have "AllocatePhysical sample_pmm 3 Normal = Inr (0x100000, ?s)"
    by (simp add: sample_pmm_def AllocatePhysical_def search_free.simps CheckIfPagesFree_iff
        page_used_def Let_def)
  moreover have "\<not> page_used (\<lambda>_. 0) 0x1000 p" for p by (simp add: page_used_def)
  then have "\<forall>k<2. \<not> page_used ?m 0x1000 (3 + k)" by (simp add: pb.used_mark)
  then have "can_allocate ?s 2 Normal"
    by (auto simp: can_allocate_def eligible_def first_offset_def zone_used_def
        intro!: exI [of _ "3::nat"] bexI [of _ "3::nat"])
  ultimately show ?thesis using sample_pmm_can by (simp split: sum.splits)
qed

theorem AllocatePhysical_sequence_disjoint_witness:
  "\<exists>a b s'. allocate_each Normal sample_pmm [3, 2] = Inr ([a, b], s') \<and>
    frames (unat b) 2 \<inter> frames (unat a) 3 = {}"
proof -
  from AllocatePhysical_sequence_disjoint [OF sample_pmm_wf(1) sample_pmm_can_twice]
  obtain as s' where r: "allocate_each Normal sample_pmm [3, 2] = Inr (as, s')" "length as = 2"
    "\<forall>i<2. \<forall>j<i. frames (unat (as ! i)) (unat ([3, 2] ! i :: u32)) \<inter>
      frames (unat (as ! j)) (unat ([3, 2] ! j :: u32)) = {}"
    by auto
  from r(2) obtain a b where "as = [a, b]" by (auto simp: length_Suc_conv numeral_2_eq_2)
  with r(1,3) show ?thesis by (force dest: spec [of _ "1::nat"])
qed

text \<open>
  C4. \<open>AllocatePhysical\<close> panics exactly when MMIO pages are asked for or no zone is eligible.
\<close>

theorem AllocatePhysical_panics_iff:
  "(\<exists>msg. AllocatePhysical s n ty = Inl (Panic msg)) =
   (if ty AND MMIO \<noteq> 0 then True else filter (eligible n ty) (zones s) = [])"
proof -
  have "returns x = Inl e \<longleftrightarrow> x = None \<and> e = Hang" for x :: "u32 option" and e
    by (cases x) auto
  then have "and_then (returns x) f \<noteq> Inl (Panic msg)" if "\<And>y. \<exists>z. f y = Inr z"
    for x :: "u32 option" and f :: "u32 \<Rightarrow> (u32 \<times> PMM) result" and msg
    using that by (cases x) (auto, metis Inl_Inr_False)
  then show ?thesis
    by (auto simp: AllocatePhysical_char first_index_None_iff first_index_Some_iff filter_empty_conv
        split: option.splits intro: nth_mem)
qed

definition escape_run :: "u32 result" where
  "escape_run =
     (let next = (\<lambda>s f. and_then (AllocatePhysical s 1 Normal) f);
          back = (\<lambda>s. snd (UnmapPages s 0x100000 1))
      in next tiny_pmm (\<lambda>(a0, s). next s (\<lambda>(a1, s). next s (\<lambda>(a2, s).
         next (back s) (\<lambda>(a3, s). next s (\<lambda>(a4, s).
         next (back s) (\<lambda>(a5, s). next s (\<lambda>(a6, s). Inr a6))))))))"

text \<open>
  The search does not stop at the end of a zone (its \<open>continue\<close> goes on with the inner
  loop). Three pages of a zone of four are allocated, the first is returned, two are allocated,
  the first is returned again, and two more are allocated: the last page handed out is page 4
  of a zone whose pages are 0 to 3, at an address outside the zone.
\<close>

lemma AllocatePhysical_leaves_zone:
  "escape_run = Inr 0x104000 \<and> \<not> unat (0x104000 :: u32) < zone_end (zones tiny_pmm ! 0)"
  by (simp add: escape_run_def tiny_pmm_def pmm_eval zone_end_def)

section \<open>Mapping and unmapping\<close>

text \<open>
  \<open>FindZone\<close> returns the zone an address lies in, and none if it lies in no zone.
\<close>

lemma FindZone_correct:
  assumes "pmm_wf s" "nonempty_zones s"
  shows "FindZone s addr = Some i \<longleftrightarrow> i < length (zones s) \<and>
    unat (start (zones s ! i)) \<le> unat addr \<and>
    unat addr < unat (start (zones s ! i)) + 4096 * unat (pagecount (zones s ! i))"
  using FindZone_Some_iff [OF assms] by (simp add: covers_def zone_end_def)

lemma FindZone_correct_example: "FindZone sample_pmm 0x10ffff = Some 0"
  using FindZone_correct [OF sample_pmm_wf, of "0x10ffff" 0] by (simp add: sample_pmm_def)

text \<open>
  C5. \<open>MapPages\<close> on a run inside one zone: it succeeds exactly if the address is not below the
  zone's first free address and none of the pages is in use; then exactly these pages become
  used. Otherwise it returns 0xffffffff and changes nothing.
\<close>

theorem MapPages_correct:
  assumes wf: "pmm_wf s" "nonempty_zones s" and find: "FindZone s addr = Some i"
    and run: "unat (page_of (zones s ! i) addr) + unat n \<le> unat (pagecount (zones s ! i))"
  defines "run \<equiv> frames (unat (start (zones s ! i)) + 4096 * unat (page_of (zones s ! i) addr)) (unat n)"
  shows "if first_free_addr (zones s ! i) \<le> addr \<and> run \<inter> used_frames s = {}
    then fst (MapPages s addr n) = addr \<and> used_frames (snd (MapPages s addr n)) = used_frames s \<union> run \<and>
         pmm_wf (snd (MapPages s addr n))
    else MapPages s addr n = (MAP_FAILED, s)"
proof -
  have i: "i < length (zones s)" using find FindZone_Some_iff [OF wf] by blast
  have "CheckIfPagesFree (bitmap_mem s) (alloc_bitmap (zones s ! i)) (page_of (zones s ! i) addr) n
        \<longleftrightarrow> run \<inter> used_frames s = {}"
    unfolding run_def by (rule free_run_iff [OF wf(1) i run])
  then show ?thesis
    using used_frames_mark [OF wf(1) i run] pmm_wf_run_update [OF wf(1)]
    by (auto simp: MapPages_char [OF find] run_def)
qed

theorem MapPages_correct_witness:
  "used_frames (snd (MapPages sample_pmm 0x103000 2)) = used_frames sample_pmm \<union> frames 0x103000 2"
proof -
  have page: "page_of (zones sample_pmm ! 0) 0x103000 = 3" by (simp add: page_of_def sample_pmm_def)
  have free: "frames 0x103000 2 \<inter> used_frames sample_pmm = {}"
    by (auto simp: used_frames_def zone_used_def page_used_def sample_pmm_def)
  show ?thesis
    using MapPages_correct [OF sample_pmm_wf sample_pmm_find, of 2] free
    unfolding page by (simp add: sample_pmm_def)
qed

text \<open>
  C6. \<open>UnmapPages\<close> gives back what \<open>AllocatePhysical\<close> handed out: after both, exactly the pages
  in use before are in use.
\<close>

theorem UnmapPages_after_AllocatePhysical:
  assumes wf: "pmm_wf s" "nonempty_zones s" and can: "can_allocate s n ty"
    and alloc: "AllocatePhysical s n ty = Inr (a, s')"
  shows "used_frames (snd (UnmapPages s' a n)) = used_frames s"
proof -
  from AllocatePhysical_in_zone [OF wf(1) can] obtain i p where r:
    "i < length (zones s)"
    "AllocatePhysical s n ty = Inr (start (zones s ! i) + p * PHYS_PAGE_SIZE, take_pages s i p n)"
    "unat p + unat n \<le> unat (pagecount (zones s ! i))" "unat p < unat (pagecount (zones s ! i))"
    "CheckIfPagesFree (bitmap_mem s) (alloc_bitmap (zones s ! i)) p n"
    by blast
  then have eq: "a = start (zones s ! i) + p * PHYS_PAGE_SIZE" "s' = take_pages s i p n"
    using alloc by auto
  have cov: "covers (zones s ! i) a" and page: "page_of (zones s ! i) a = p"
    unfolding eq using page_of_page_address zone_end_le [OF wf(1) r(1)] r(4) by blast+
  define ff where "ff = start (zones s ! i) + p * PHYS_PAGE_SIZE + n * PHYS_PAGE_SIZE"
  have s': "s' = run_update MapPagesInBitmap s i p n ff"
    unfolding eq ff_def by (rule take_pages_run_update)
  have wf': "pmm_wf s'" "nonempty_zones s'" unfolding s' using wf pmm_wf_run_update by simp_all
  have find: "FindZone s' a = Some i"
    using r(1) cov by (simp add: FindZone_Some_iff [OF wf']) (simp add: s')
  have len: "i < length (zones s')" using r(1) by (simp add: s')
  have page': "page_of (zones s' ! i) a = p" using page by (simp add: s')
  have run: "unat p + unat n \<le> unat (pagecount (zones s' ! i))" using r(3) by (simp add: s')
  have "zone_used s' i (unat p + k)" if "k < unat n" for k
    using zone_used_mark(1) [OF wf(1) r(1) r(1) r(3)] r(3) that by (simp add: s')
  then have "used_frames (snd (UnmapPages s' a n)) =
      used_frames s' - frames (unat (start (zones s ! i)) + 4096 * unat p) (unat n)"
    using used_frames_unmark [OF wf'(1) len run] unfolding UnmapPages_char [OF find] page'
    by (simp add: s')
  then show ?thesis
    using used_frames_mark [OF wf(1) r(1,3)] free_run_frames [OF wf(1) r(1,3,5)] by (auto simp: s')
qed

theorem UnmapPages_after_AllocatePhysical_witness:
  "\<exists>a s'. AllocatePhysical sample_pmm 3 Normal = Inr (a, s') \<and>
     used_frames (snd (UnmapPages s' a 3)) = used_frames sample_pmm"
  using pmm.alloc_ok [OF sample_pmm_wf(1) sample_pmm_can]
    UnmapPages_after_AllocatePhysical [OF sample_pmm_wf sample_pmm_can] by blast

text \<open>
  \<open>UnmapPages\<close> toggles: unmapping a run of pages that are free marks them as used, so a page
  unmapped twice is lost to the allocator.
\<close>

lemma UnmapPages_of_free_pages:
  assumes wf: "pmm_wf s" "nonempty_zones s" and find: "FindZone s addr = Some i"
    and run: "unat (page_of (zones s ! i) addr) + unat n \<le> unat (pagecount (zones s ! i))"
    and free: "CheckIfPagesFree (bitmap_mem s) (alloc_bitmap (zones s ! i)) (page_of (zones s ! i) addr) n"
    and k: "k < unat n"
  shows "zone_used (snd (UnmapPages s addr n)) i (unat (page_of (zones s ! i) addr) + k)"
proof -
  have i: "i < length (zones s)" using find FindZone_Some_iff [OF wf] by blast
  have "\<not> zone_used s i (unat (page_of (zones s ! i) addr) + k)"
    using free k by (simp add: CheckIfPagesFree_iff zone_used_def)
  then show ?thesis
    using zone_used_mark(2) [OF wf(1) i i run] run k by (simp add: UnmapPages_char [OF find])
qed

lemma UnmapPages_of_free_pages_example:
  "zone_used (snd (UnmapPages sample_pmm 0x103000 2)) 0 (unat (page_of (zones sample_pmm ! 0) 0x103000) + 1)"
proof (rule UnmapPages_of_free_pages [OF sample_pmm_wf sample_pmm_find])
  show "unat (page_of (zones sample_pmm ! 0) 0x103000) + unat (2 :: u32) \<le> unat (pagecount (zones sample_pmm ! 0))"
    by (simp add: page_of_def sample_pmm_def)
  show "CheckIfPagesFree (bitmap_mem sample_pmm) (alloc_bitmap (zones sample_pmm ! 0))
      (page_of (zones sample_pmm ! 0) 0x103000) 2"
    by (simp add: CheckIfPagesFree_iff page_used_def sample_pmm_def)
qed simp

definition two_zones :: PMM where
  "two_zones = \<lparr>zones = [
     \<lparr>start = 0x100000, first_free_addr = 0x100000, pagecount = 8, zone_type = Normal, alloc_bitmap = 0x1000\<rparr>,
     \<lparr>start = 0x800000, first_free_addr = 0x800000, pagecount = 8, zone_type = Normal, alloc_bitmap = 0x1002\<rparr>],
     bitmap_mem = (\<lambda>_. 0)\<rparr>"

text \<open>
  \<open>MapPages\<close> does not check that the run ends inside the zone. Of two zones of eight pages,
  mapping 17 pages from the start of the first one also sets a bit of the second zone's bitmap:
  its first page is then in use although no address of that zone was mapped.
\<close>

lemma MapPages_overruns_zone:
  "pmm_wf two_zones \<and> fst (MapPages two_zones 0x100000 17) = 0x100000 \<and>
   \<not> zone_used two_zones 1 0 \<and> zone_used (snd (MapPages two_zones 0x100000 17)) 1 0"
proof -
  have find: "FindZone two_zones 0x100000 = Some 0" by (simp add: FindZone_def two_zones_def)
  have "pmm_wf two_zones"
    by (simp add: pmm_wf_def two_zones_def zone_end_def bitmap_bytes_def disjoint_regions_def
        less_Suc_eq nth_Cons split: nat.splits)
  moreover have free: "CheckIfPagesFree (bitmap_mem two_zones) bm off n" for bm off n
    by (simp add: CheckIfPagesFree_iff page_used_def two_zones_def)
  moreover have "page_used (MapPagesInBitmap 0x1000 0 17 (\<lambda>_. 0)) 0x1000 16"
    by (subst pb.used_mark) simp_all
  then have "page_used (MapPagesInBitmap 0x1000 0 17 (\<lambda>_. 0)) 0x1002 0"
    by (simp add: page_used_def)
  moreover have "MapPages two_zones 0x100000 17 =
      (0x100000, run_update MapPagesInBitmap two_zones 0 0 17 0x111000)"
    by (simp add: MapPages_char [OF find] free) (simp add: two_zones_def page_of_def)
  ultimately show ?thesis
    by (simp add: zone_used_def run_update_def) (simp add: two_zones_def page_used_def)
qed

section \<open>Initialisation\<close>

text \<open>
  C7. The constructor: for a memory map of non-empty areas that do not overlap, with room for
  the bitmaps below 4 GB and an area that holds the kernel and its tables, it succeeds; no two
  bitmaps overlap, and exactly the pages of the kernel and of the tables are in use.
\<close>

theorem PMM_init_correct:
  assumes "mmap_ok es" "unat (tables_start pool es) + bitmaps_size es < 2 ^ 32"
    and "i < length es" "unat (mm_start (es ! i)) \<le> unat ks" "ks \<noteq> MAP_FAILED"
    and "(unat ks - unat (mm_start (es ! i))) div 4096 + unat (reserved_pages ks off pool es)
         \<le> unat (mmap_pagecount (es ! i))"
  shows "\<exists>s. PMM_init ks off pool es m = Inr s \<and> pmm_wf s \<and> nonempty_zones s \<and>
    used_frames s = frames (unat (mm_start (es ! i)) +
      4096 * ((unat ks - unat (mm_start (es ! i))) div 4096)) (unat (reserved_pages ks off pool es))"
  using PMM_init_char [OF assms] by metis

text \<open>
  A machine with 640 kB below 1 MB and 16 MB from 1 MB on; the kernel at 1 MB, its image ending
  at physical 0x120000, loaded at the virtual offset 0xc0000000.
\<close>

definition sample_mmap :: "MemoryMap list" where
  "sample_mmap = [\<lparr>mm_start = 0, mm_len = 0x9f000, mm_type = 1\<rparr>,
                  \<lparr>mm_start = 0x100000, mm_len = 0x1000000, mm_type = 1\<rparr>]"

lemma sample_mmap_facts:
  "mmap_pagecount (sample_mmap ! 0) = 0x9f" "mmap_pagecount (sample_mmap ! 1) = 0x1000"
  "bitmaps_size sample_mmap = 533" "tables_start 0xc0120000 sample_mmap = 0xc0120028"
  "reserved_pages 0x100000 0xc0000000 0xc0120000 sample_mmap = 33" "mmap_ok sample_mmap"
proof -
  show pages: "mmap_pagecount (sample_mmap ! 0) = 0x9f" "mmap_pagecount (sample_mmap ! 1) = 0x1000"
    by (simp_all add: sample_mmap_def mmap_pagecount_def)
  show size: "bitmaps_size sample_mmap = 533"
    using pages by (simp add: bitmaps_size_def entry_bytes_def sample_mmap_def)
  show start: "tables_start 0xc0120000 sample_mmap = 0xc0120028"
    by (simp add: tables_start_def sample_mmap_def)
  show "reserved_pages 0x100000 0xc0000000 0xc0120000 sample_mmap = 33"
    by (simp add: reserved_pages_def start size)
  show "mmap_ok sample_mmap"
    using pages by (simp add: mmap_ok_def area_end_def sample_mmap_def less_Suc_eq nth_Cons
        split: nat.splits)
qed

theorem PMM_init_correct_witness:
  "\<exists>s. PMM_init 0x100000 0xc0000000 0xc0120000 sample_mmap (\<lambda>_. 0xff) = Inr s \<and> pmm_wf s \<and>
    nonempty_zones s \<and> used_frames s = frames 0x100000 33"
  using PMM_init_correct [OF sample_mmap_facts(6), of "0xc0120000" 1 "0x100000" "0xc0000000" "\<lambda>_. 0xff"] sample_mmap_facts(2)
  by (simp add: sample_mmap_facts(3-5)) (simp add: sample_mmap_def)

end
