(* ===== verification/VMM.thy ===== *)
theory VMM
  imports PMM
begin

text \<open>
  The virtual memory manager (arch/x86/VMM.cpp) and the part of the processor it drives: the
  physical memory that holds the page tables, the two-level address translation of the i386, and
  the operations that allocate, map and unmap virtual pages through the recursive mapping of the
  page directory. The translation is the one the boot code sets up: 4 kB pages (CR4.PSE clear),
  and supervisor writes ignore the writable bit (CR0.WP clear). Its cache, the TLB, is not
  modelled.
\<close>

unbundle bit_operations_syntax

section \<open>State\<close>

datatype VMMZone = ZUser | ZKernel | ZAppLoader

record VMMZoneStruct =
  addr_start :: u32
  addr_end :: u32
  last_vaddr :: u32

text \<open>The initial value of the global \<open>vzones\<close>.\<close>

fun initial_vzones :: "VMMZone \<Rightarrow> VMMZoneStruct" where
  "initial_vzones ZUser = \<lparr>addr_start = 0x1000, addr_end = 0xBFFFFFFF, last_vaddr = 0x1000\<rparr>"
| "initial_vzones ZKernel = \<lparr>addr_start = 0xC0000000, addr_end = 0xFFFFFFFF, last_vaddr = 0xC0400000\<rparr>"
| "initial_vzones ZAppLoader = \<lparr>addr_start = 0x400000, addr_end = 0x480000, last_vaddr = 0x400000\<rparr>"

text \<open>
  \<open>pmem\<close> gives the 32-bit word at each physical address; every access of this component is
  aligned. \<open>cr3\<close> is the processor's page directory base register.
\<close>

record VMM =
  vmm_pmm :: PMM
  pmem :: "u32 \<Rightarrow> u32"
  cr3 :: u32
  vzones :: "VMMZone \<Rightarrow> VMMZoneStruct"

section \<open>Page table entries and translation\<close>

text \<open>
  The bit fields of \<open>union PageDir\<close> and \<open>union PageTable\<close> that the code or the processor looks
  at: the present bit and the physical address of the frame.
\<close>

definition present :: "u32 \<Rightarrow> bool" where
  "present e \<longleftrightarrow> e AND 1 \<noteq> 0"

definition frame :: "u32 \<Rightarrow> u32" where
  "frame e = e AND 0xfffff000"

definition dirindex_of :: "u32 \<Rightarrow> u32" where
  "dirindex_of v = drop_bit 22 v"

definition tableindex_of :: "u32 \<Rightarrow> u32" where
  "tableindex_of v = drop_bit 12 v AND 0x3ff"

text \<open>The translation of a virtual address, \<open>None\<close> when a page fault is raised.\<close>

definition translate :: "VMM \<Rightarrow> u32 \<Rightarrow> u32 option" where
  "translate s v =
     (let pde = pmem s (frame (cr3 s) + 4 * dirindex_of v)
      in if \<not> present pde then None
         else let pte = pmem s (frame pde + 4 * tableindex_of v)
              in if \<not> present pte then None
                 else Some (frame pte + (v AND 0xfff)))"

definition vread :: "VMM \<Rightarrow> u32 \<Rightarrow> u32 result" where
  "vread s v = (case translate s v of None \<Rightarrow> Inl (PageFault v) | Some a \<Rightarrow> Inr (pmem s a))"

definition vwrite :: "VMM \<Rightarrow> u32 \<Rightarrow> u32 \<Rightarrow> VMM result" where
  "vwrite s v x =
     (case translate s v of None \<Rightarrow> Inl (PageFault v)
      | Some a \<Rightarrow> Inr (s\<lparr>pmem := (pmem s)(a := x)\<rparr>))"

text \<open>\<open>memset(v, 0, 4 * k)\<close> at an aligned address, word by word.\<close>

fun vclear :: "nat \<Rightarrow> u32 \<Rightarrow> VMM \<Rightarrow> VMM result" where
  "vclear 0 v s = Inr s"
| "vclear (Suc k) v s = and_then (vwrite s v 0) (vclear k (v + 4))"

section \<open>Operations\<close>

abbreviation (input) "VMM_PAGE_SIZE \<equiv> 4096 :: u32"
abbreviation (input) "kernel_virt_cr3_base \<equiv> 0xfffff000 :: u32"
abbreviation (input) "kernel_virt_first_table \<equiv> 0xffc00000 :: u32"

text \<open>\<open>&pdir[i]\<close> and \<open>&ptbl[i]\<close>.\<close>

definition pdir_at :: "u32 \<Rightarrow> u32" where
  "pdir_at i = kernel_virt_cr3_base + 4 * i"

definition ptbl_at :: "u32 \<Rightarrow> u32" where
  "ptbl_at i = kernel_virt_first_table + 4 * i"

definition MapPageDirectoryIndex :: "VMM \<Rightarrow> u32 \<Rightarrow> (u32 \<times> VMM) result" where
  "MapPageDirectoryIndex s dirindex =
     (if dirindex \<ge> 1024
      then Inl (Panic ''vmm: tried to allocate directory entry with dirindex > 1024'')
      else and_then (AllocatePhysical (vmm_pmm s) 1 Normal) (\<lambda>(p, pmm). Inr (p, s\<lparr>vmm_pmm := pmm\<rparr>)))"

text \<open>\<open>pdir[dirindex].addr = MapPageDirectoryIndex(dirindex) | 0x3\<close>.\<close>

definition add_directory :: "VMM \<Rightarrow> u32 \<Rightarrow> VMM result" where
  "add_directory s dirindex =
     and_then (MapPageDirectoryIndex s dirindex) (\<lambda>(p, s). vwrite s (pdir_at dirindex) (p OR 3))"

text \<open>
  The loop of \<open>MapPhysicalToVirtual\<close> with \<open>k\<close> pages to go, the next of which has the index \<open>idx\<close>
  in \<open>ptbl\<close>.
\<close>

fun map_loop :: "nat \<Rightarrow> u32 \<Rightarrow> u32 \<Rightarrow> u32 \<Rightarrow> u32 \<Rightarrow> u8 \<Rightarrow> VMM \<Rightarrow> VMM result" where
  "map_loop 0 idx phys tableindex dirindex flags s = Inr s"
| "map_loop (Suc k) idx phys tableindex dirindex flags s =
     and_then (vread s (ptbl_at idx)) (\<lambda>_.
     and_then (vwrite s (ptbl_at idx) (phys OR (ucast flags AND 0x7f))) (\<lambda>s.
       if tableindex + 1 \<ge> 1024
       then and_then (vread s (pdir_at (dirindex + 1))) (\<lambda>e.
            and_then (if present e then Inr s else add_directory s (dirindex + 1)) (\<lambda>s.
              map_loop k (idx + 1) (phys + VMM_PAGE_SIZE) 0 (dirindex + 1) flags s))
       else map_loop k (idx + 1) (phys + VMM_PAGE_SIZE) (tableindex + 1) dirindex flags s))"

definition MapPhysicalToVirtual :: "VMM \<Rightarrow> u32 \<Rightarrow> u32 \<Rightarrow> u32 \<Rightarrow> u8 \<Rightarrow> (u32 \<times> VMM) result" where
  "MapPhysicalToVirtual s phys n virt flags =
     (let tableindex = tableindex_of virt;
          dirindex = dirindex_of virt;
          toffset = dirindex * 1024 + tableindex
      in and_then (vread s (pdir_at dirindex)) (\<lambda>e.
         and_then (if present e then Inr s
                   else and_then (add_directory s dirindex)
                          (vclear 1024 (kernel_virt_first_table + dirindex * 4096))) (\<lambda>s.
         and_then (vread s (ptbl_at toffset)) (\<lambda>_.
         and_then (map_loop (unat n) toffset phys tableindex dirindex flags s) (\<lambda>s.
           Inr (n, s))))))"

text \<open>The loop of \<open>UnmapVirtual\<close>; a missing directory is only logged.\<close>

fun unmap_loop :: "nat \<Rightarrow> u32 \<Rightarrow> u32 \<Rightarrow> u32 \<Rightarrow> VMM \<Rightarrow> VMM result" where
  "unmap_loop 0 idx tableindex dirindex s = Inr s"
| "unmap_loop (Suc k) idx tableindex dirindex s =
     and_then (vread s (ptbl_at idx)) (\<lambda>e.
     and_then (vwrite s (ptbl_at idx) (e AND NOT 1)) (\<lambda>s.
       if tableindex + 1 \<ge> 1024
       then and_then (vread s (pdir_at (dirindex + 1))) (\<lambda>_.
              unmap_loop k (idx + 1) 0 (dirindex + 1) s)
       else unmap_loop k (idx + 1) (tableindex + 1) dirindex s))"

definition UnmapVirtual :: "VMM \<Rightarrow> u32 \<Rightarrow> u32 \<Rightarrow> (u32 \<times> VMM) result" where
  "UnmapVirtual s virt n =
     (let tableindex = tableindex_of virt;
          dirindex = dirindex_of virt;
          toffset = dirindex * 1024 + tableindex
      in and_then (vread s (pdir_at dirindex)) (\<lambda>_.
         and_then (vread s (ptbl_at toffset)) (\<lambda>_.
         and_then (unmap_loop (unat n) toffset tableindex dirindex s) (\<lambda>s.
           Inr (n, s)))))"

definition Unmap :: "VMM \<Rightarrow> u32 \<Rightarrow> u32 \<Rightarrow> VMM result" where
  "Unmap s virt n = and_then (UnmapVirtual s virt n) (\<lambda>(_, s). Inr s)"

text \<open>
  \<open>Init\<close> runs with the identity mapping of the boot page tables, so the physical address of the
  page directory is also a virtual one.
\<close>

definition Init :: "VMM \<Rightarrow> PMM \<Rightarrow> u32 \<Rightarrow> VMM result" where
  "Init s pmm phys_cr3_base =
     and_then (vread s (phys_cr3_base + 4 * 1023)) (\<lambda>_.
     and_then (vwrite s (phys_cr3_base + 4 * 1023) (phys_cr3_base OR 3)) (\<lambda>s.
     and_then (vread s (pdir_at 0)) (\<lambda>e.
       let identity_ptbl = e AND NOT 0x3ff in
     and_then (vread s identity_ptbl) (\<lambda>_.
     and_then (vwrite s identity_ptbl 0) (\<lambda>s.
     and_then (UnmapVirtual (s\<lparr>vmm_pmm := pmm\<rparr>) 0xf0000 (0x300000 div VMM_PAGE_SIZE)) (\<lambda>(_, s).
       Inr (s\<lparr>cr3 := phys_cr3_base AND NOT 0x3ff\<rparr>)))))))"

text \<open>\<open>*rphys\<close> is the second component of the result; callers that pass NULL ignore it.\<close>

definition AllocateVirtualPhysical ::
  "VMM \<Rightarrow> u32 \<Rightarrow> u32 \<Rightarrow> u8 \<Rightarrow> VMMZone \<Rightarrow> (u32 \<times> u32 \<times> VMM) result" where
  "AllocateVirtualPhysical s pzone n flags vzone =
     (let last = last_vaddr (vzones s vzone);
          alloc_end = last + VMM_PAGE_SIZE * n
      in if alloc_end - 1 \<ge> addr_end (vzones s vzone)
         then Inl (Panic ''vmm: virtual address space exhausted '')
         else and_then (AllocatePhysical (vmm_pmm s) n pzone) (\<lambda>(physaddr, pmm).
           if physaddr = 0xffffffff then Inl (Panic ''vmm: physical mapping not successful'')
           else and_then (MapPhysicalToVirtual (s\<lparr>vmm_pmm := pmm\<rparr>) physaddr n last flags) (\<lambda>(_, s).
             Inr (last, physaddr, s\<lparr>vzones := (vzones s)(vzone :=
               (vzones s vzone)\<lparr>last_vaddr := last + VMM_PAGE_SIZE * n\<rparr>)\<rparr>))))"

definition AllocateVirtual :: "VMM \<Rightarrow> u32 \<Rightarrow> u8 \<Rightarrow> VMMZone \<Rightarrow> (u32 \<times> VMM) result" where
  "AllocateVirtual s n flags zone =
     and_then (AllocateVirtualPhysical s Normal n flags zone) (\<lambda>(v, _, s). Inr (v, s))"

definition MapPhysicalAddress :: "VMM \<Rightarrow> u32 \<Rightarrow> u32 \<Rightarrow> u8 \<Rightarrow> VMMZone \<Rightarrow> (u32 \<times> VMM) result" where
  "MapPhysicalAddress s phys n flags vzone =
     (let last = last_vaddr (vzones s vzone);
          off = phys AND 0xfff;
          phys = phys AND NOT 0xfff;
          alloc_end = last + VMM_PAGE_SIZE * n
      in if alloc_end - 1 \<ge> addr_end (vzones s vzone)
         then Inl (Panic ''vmm: virtual address space exhausted'')
         else let (physaddr, pmm) = MapPages (vmm_pmm s) phys n in
           if physaddr = 0xffffffff then Inl (Panic ''vmm: physical mapping not successful'')
           else and_then (MapPhysicalToVirtual (s\<lparr>vmm_pmm := pmm\<rparr>) physaddr n last flags) (\<lambda>(_, s).
             Inr (last + off, s\<lparr>vzones := (vzones s)(vzone :=
               (vzones s vzone)\<lparr>last_vaddr := last + VMM_PAGE_SIZE * n\<rparr>)\<rparr>)))"

definition CheckPhysicalToVirtual :: "VMM \<Rightarrow> u32 \<Rightarrow> u32 \<Rightarrow> u32 \<Rightarrow> bool" where
  "CheckPhysicalToVirtual s phys n virt = True"

section \<open>The memory the kernel sees\<close>

text \<open>
  The byte at a physical address, the lowest of a word first, and the bytes at the virtual
  addresses. What a read of an address that is not mapped would give is of no meaning, here 0: the
  processor raises a page fault instead.
\<close>

definition phys_byte :: "(u32 \<Rightarrow> u32) \<Rightarrow> u32 \<Rightarrow> u8" where
  "phys_byte pm a = ucast (drop_bit (8 * unat (a AND 3)) (pm (a AND NOT 3)))"

definition virtual_mem :: "VMM \<Rightarrow> mem" where
  "virtual_mem s v = (case translate s v of None \<Rightarrow> 0 | Some a \<Rightarrow> phys_byte (pmem s) a)"

end
