(* ===== verification/VMM_Tables.thy ===== *)
theory VMM_Tables
  imports VMM PMM_Map
begin

text \<open>
  The page tables seen through the recursive mapping: the abstract table \<open>entry\<close> (virtual page
  number to page table entry), the invariant \<open>vmm_wf\<close> of a page directory whose tables are
  distinct frames in use, and what a store through the two windows does to the table.
\<close>

unbundle bit_operations_syntax

section \<open>Address arithmetic\<close>

lemma unat_frame: "unat (frame e) = unat e - unat e mod 4096"
  unfolding frame_def and_not_0xfff [symmetric] unat_and_not unat_and_0xfff ..

lemma frame_aligned: "unat (frame e) mod 4096 = 0"
  unfolding unat_frame minus_mod_eq_mult_div by simp

lemma frame_id: "unat p mod 4096 = 0 \<Longrightarrow> frame p = p"
  by (rule word_unat_eq_iff [THEN iffD2]) (simp add: unat_frame)

lemma frame_frame [simp]: "frame (frame e) = frame e"
  by (rule frame_id [OF frame_aligned])

lemma unat_slot:
  assumes "unat (f :: u32) mod 4096 = 0" "t < 1024"
  shows "unat (f + 4 * of_nat t) = unat f + 4 * t"
proof -
  have "unat (4 * of_nat t :: u32) = 4 * t"
    using assms(2) by (simp add: unat_mult_small unat_of_nat_small)
  moreover from assms(1) obtain k where k: "unat f = 4096 * k"
    by (auto elim: dvdE simp: mod_eq_0_iff_dvd)
  then have "4096 * k < 4096 * 1048576" using unat_less_u32 [of f] by simp
  then have "unat f + 4 * t < 4294967296" using k assms(2) by simp
  ultimately show ?thesis by (subst unat_add_small) simp_all
qed

lemma slot_eq_iff:
  assumes "unat (f :: u32) mod 4096 = 0" "unat g mod 4096 = 0" "t < 1024" "r < 1024"
  shows "f + 4 * of_nat t = g + 4 * of_nat r \<longleftrightarrow> f = g \<and> t = r"
proof
  assume "f + 4 * of_nat t = g + 4 * of_nat r"
  then have "unat f + 4 * t = unat g + 4 * r" using unat_slot assms by metis
  from mult_add_inj [OF this assms(1,2)] show "f = g \<and> t = r"
    using assms(3,4) by (auto dest: unat_inj)
qed simp

text \<open>The page number of an address, and its two indexes.\<close>

definition page_number :: "u32 \<Rightarrow> nat" where
  "page_number v = unat v div 4096"

lemma page_number_less: "page_number v < 1048576"
  using unat_less_u32 [of v] by (simp add: page_number_def)

lemma dirindex_of_nat: "dirindex_of v = of_nat (page_number v div 1024)"
proof -
  have "unat (dirindex_of v) = page_number v div 1024"
    by (simp only: dirindex_of_def unat_drop_bit page_number_def div_mult2_eq [symmetric]) simp
  then show ?thesis by (rule word_eq_of_natI)
qed

lemma tableindex_of_nat: "tableindex_of v = of_nat (page_number v mod 1024)"
proof -
  have "unat (tableindex_of v) = page_number v mod 1024"
    by (simp only: tableindex_of_def unat_and_0x3ff unat_drop_bit page_number_def) simp
  then show ?thesis by (rule word_eq_of_natI)
qed

lemma toffset_of_nat: "dirindex_of v * 1024 + tableindex_of v = of_nat (page_number v)"
proof -
  have "of_nat (page_number v div 1024) * 1024 + of_nat (page_number v mod 1024) =
      (of_nat (page_number v div 1024 * 1024 + page_number v mod 1024) :: u32)"
    by (simp only: of_nat_add of_nat_mult) simp
  then show ?thesis unfolding dirindex_of_nat tableindex_of_nat by simp
qed

lemma unat_pdir_at: "d < 1024 \<Longrightarrow> unat (pdir_at (of_nat d)) = 0xfffff000 + 4 * d"
  unfolding pdir_at_def by (subst unat_slot) simp_all

lemma page_number_pdir: "d < 1024 \<Longrightarrow> page_number (pdir_at (of_nat d)) = 1048575"
  by (simp add: page_number_def unat_pdir_at)

lemma unat_4_mult: "k < 1048576 \<Longrightarrow> unat (4 * of_nat k :: u32) = 4 * k"
  by (simp add: unat_mult_small unat_of_nat_small)

lemma pdir_offset:
  assumes "d < 1024"
  shows "pdir_at (of_nat d) AND 0xfff = 4 * of_nat d"
proof (rule word_unat_eq_iff [THEN iffD2])
  have "(0xfffff000 + 4 * d) mod 4096 = 4 * d"
    using mod_mult_self3 [of "0xfffff" 4096 "4 * d"] assms by simp
  then show "unat (pdir_at (of_nat d) AND 0xfff) = unat (4 * of_nat d :: u32)"
    using assms by (simp only: unat_and_0xfff unat_pdir_at) (simp add: unat_4_mult)
qed

lemma unat_ptbl_at: "q < 1048576 \<Longrightarrow> unat (ptbl_at (of_nat q)) = 0xffc00000 + 4 * q"
  unfolding ptbl_at_def by (subst unat_add_small) (simp_all add: unat_4_mult)

lemma page_number_ptbl: "q < 1048576 \<Longrightarrow> page_number (ptbl_at (of_nat q)) = 1047552 + q div 1024"
proof -
  have "(0xffc00000 + 4 * q) div 4096 = 1047552 + (4 * q) div 4096" by simp
  also have "(4 * q) div 4096 = q div 1024" by simp
  finally show "q < 1048576 \<Longrightarrow> ?thesis" by (simp add: page_number_def unat_ptbl_at)
qed

lemma ptbl_offset:
  assumes "q < 1048576"
  shows "ptbl_at (of_nat q) AND 0xfff = 4 * of_nat (q mod 1024)"
proof (rule word_unat_eq_iff [THEN iffD2])
  have "(0xffc00000 + 4 * q) mod 4096 = (4 * q) mod (4 * 1024)"
    using mod_mult_self3 [of "0xffc00" 4096 "4 * q"] by simp
  also have "\<dots> = 4 * (q mod 1024)" by (rule mult_mod_right [symmetric])
  finally have "(0xffc00000 + 4 * q) mod 4096 = 4 * (q mod 1024)" .
  moreover have "unat (4 * of_nat (q mod 1024) :: u32) = 4 * (q mod 1024)"
    by (rule unat_4_mult) (rule less_trans [OF mod_less_divisor], simp_all)
  ultimately show "unat (ptbl_at (of_nat q) AND 0xfff) = unat (4 * of_nat (q mod 1024) :: u32)"
    using assms by (simp only: unat_and_0xfff unat_ptbl_at)
qed

section \<open>The abstract table\<close>

definition pde :: "VMM \<Rightarrow> nat \<Rightarrow> u32" where
  "pde s d = pmem s (frame (cr3 s) + 4 * of_nat d)"

definition pte :: "VMM \<Rightarrow> nat \<Rightarrow> nat \<Rightarrow> u32" where
  "pte s d t = pmem s (frame (pde s d) + 4 * of_nat t)"

definition entry :: "VMM \<Rightarrow> nat \<Rightarrow> u32 option" where
  "entry s q = (if present (pde s (q div 1024)) then Some (pte s (q div 1024) (q mod 1024)) else None)"

lemma translate_entry:
  "translate s v = (case entry s (page_number v) of None \<Rightarrow> None
     | Some e \<Rightarrow> if present e then Some (frame e + (v AND 0xfff)) else None)"
  by (simp add: translate_def entry_def pde_def pte_def dirindex_of_nat tableindex_of_nat Let_def)

text \<open>
  The invariant: the directory is its own last table, every table that is present lies in a frame
  of its own, and all these frames are in use, so that the physical allocator never returns one.
\<close>

definition aligned_zones :: "PMM \<Rightarrow> bool" where
  "aligned_zones s \<longleftrightarrow> (\<forall>z\<in>set (zones s). unat (start z) mod 4096 = 0)"

definition vmm_wf :: "VMM \<Rightarrow> bool" where
  "vmm_wf s \<longleftrightarrow> pmm_wf (vmm_pmm s) \<and> aligned_zones (vmm_pmm s) \<and>
     present (pde s 1023) \<and> frame (pde s 1023) = frame (cr3 s) \<and>
     (\<forall>d<1024. present (pde s d) \<longrightarrow> unat (frame (pde s d)) \<in> used_frames (vmm_pmm s)) \<and>
     (\<forall>d<1024. \<forall>d'<1024. present (pde s d) \<and> present (pde s d') \<and>
        frame (pde s d) = frame (pde s d') \<longrightarrow> d = d')"

lemma vmm_wfD:
  assumes "vmm_wf s"
  shows "pmm_wf (vmm_pmm s)" "aligned_zones (vmm_pmm s)" "present (pde s 1023)"
    "frame (pde s 1023) = frame (cr3 s)"
    "\<And>d. d < 1024 \<Longrightarrow> present (pde s d) \<Longrightarrow> unat (frame (pde s d)) \<in> used_frames (vmm_pmm s)"
    "\<And>d d'. d < 1024 \<Longrightarrow> d' < 1024 \<Longrightarrow> present (pde s d) \<Longrightarrow> present (pde s d') \<Longrightarrow>
      frame (pde s d) = frame (pde s d') \<Longrightarrow> d = d'"
  using assms by (auto simp: vmm_wf_def)

text \<open>The last table is the directory.\<close>

lemma pte_last: "vmm_wf s \<Longrightarrow> pte s 1023 t = pde s t"
  by (simp add: pte_def pde_def [of s t] vmm_wfD)

lemma last_table:
  assumes "(d :: nat) < 1024"
  shows "(1047552 + d) div 1024 = 1023" "(1047552 + d) mod 1024 = d"
  using div_mult_self3 [of 1024 1023 d] mod_mult_self3 [of 1023 1024 d] assms by simp_all

lemma last_table_iff:
  assumes "(d :: nat) < 1024"
  shows "q div 1024 = 1023 \<and> d = q mod 1024 \<longleftrightarrow> q = 1047552 + d"
proof
  assume "q div 1024 = 1023 \<and> d = q mod 1024"
  then have "q = 1023 * 1024 + d" using div_mult_mod_eq [of q 1024] by simp
  then show "q = 1047552 + d" by simp
qed (simp add: last_table [OF assms])

lemma entry_window: "vmm_wf s \<Longrightarrow> d < 1024 \<Longrightarrow> entry s (1047552 + d) = Some (pde s d)"
  by (simp add: entry_def last_table pte_last vmm_wfD)

lemma translate_pdir:
  assumes "vmm_wf s" "d < 1024"
  shows "translate s (pdir_at (of_nat d)) = Some (frame (cr3 s) + 4 * of_nat d)"
  using entry_window [OF assms(1), of 1023] assms
  by (simp add: translate_entry page_number_pdir pdir_offset vmm_wfD)

lemma translate_ptbl:
  assumes "vmm_wf s" "q < 1048576"
  shows "translate s (ptbl_at (of_nat q)) =
    (if present (pde s (q div 1024)) then Some (frame (pde s (q div 1024)) + 4 * of_nat (q mod 1024))
     else None)"
  using entry_window [OF assms(1), of "q div 1024"] assms
  by (simp add: translate_entry page_number_ptbl ptbl_offset)

lemma vread_pdir: "vmm_wf s \<Longrightarrow> d < 1024 \<Longrightarrow> vread s (pdir_at (of_nat d)) = Inr (pde s d)"
  by (simp add: vread_def translate_pdir pde_def)

lemma vread_ptbl:
  assumes "vmm_wf s" "q < 1048576" "entry s q = Some e"
  shows "vread s (ptbl_at (of_nat q)) = Inr e"
  using assms by (auto simp: vread_def translate_ptbl entry_def pte_def split: if_splits)

section \<open>Stores\<close>

text \<open>A store to a slot of a present table changes that entry and nothing else.\<close>

definition set_entry :: "nat \<Rightarrow> u32 \<Rightarrow> VMM \<Rightarrow> VMM" where
  "set_entry q x s = s\<lparr>pmem := (pmem s)(frame (pde s (q div 1024)) + 4 * of_nat (q mod 1024) := x)\<rparr>"

lemma set_entry_fields [simp]:
  "vmm_pmm (set_entry q x s) = vmm_pmm s" "cr3 (set_entry q x s) = cr3 s"
  "vzones (set_entry q x s) = vzones s"
  by (simp_all add: set_entry_def)

lemma vwrite_ptbl:
  assumes "vmm_wf s" "q < 1048576" "present (pde s (q div 1024))"
  shows "vwrite s (ptbl_at (of_nat q)) x = Inr (set_entry q x s)"
  using assms by (simp add: vwrite_def translate_ptbl set_entry_def)

lemma vwrite_pdir:
  assumes "vmm_wf s" "d < 1024"
  shows "vwrite s (pdir_at (of_nat d)) x = Inr (set_entry (1047552 + d) x s)"
  using assms by (simp add: vwrite_def translate_pdir set_entry_def last_table vmm_wfD)

lemma pde_set_entry:
  assumes "vmm_wf s" "q < 1048576" "present (pde s (q div 1024))" "d < 1024"
  shows "pde (set_entry q x s) d = (if q = 1047552 + d then x else pde s d)"
proof -
  have dq: "q div 1024 < 1024" using assms(2) by auto
  have "frame (cr3 s) + 4 * of_nat d = frame (pde s (q div 1024)) + 4 * of_nat (q mod 1024)
      \<longleftrightarrow> frame (cr3 s) = frame (pde s (q div 1024)) \<and> d = q mod 1024"
    by (rule slot_eq_iff) (simp_all add: frame_aligned assms)
  also have "frame (cr3 s) = frame (pde s (q div 1024)) \<longleftrightarrow> q div 1024 = 1023"
    using vmm_wfD(3,4) [OF assms(1)] vmm_wfD(6) [OF assms(1) dq, of 1023] assms(3) by fastforce
  also have "q div 1024 = 1023 \<and> d = q mod 1024 \<longleftrightarrow> q = 1047552 + d"
    by (rule last_table_iff [OF assms(4)])
  finally show ?thesis by (simp add: pde_def set_entry_def)
qed

lemma pte_set_entry:
  assumes "vmm_wf s" "q < 1048576" "present (pde s (q div 1024))" "q div 1024 \<noteq> 1023"
    and "d < 1024" "present (pde s d)" "t < 1024"
  shows "pte (set_entry q x s) d t = (if q = 1024 * d + t then x else pte s d t)"
proof -
  have dq: "q div 1024 < 1024" using assms(2) by auto
  have pd: "pde (set_entry q x s) d = pde s d"
    using pde_set_entry [OF assms(1-3,5)] assms(4,5) by auto
  have "frame (pde s d) + 4 * of_nat t = frame (pde s (q div 1024)) + 4 * of_nat (q mod 1024)
      \<longleftrightarrow> frame (pde s d) = frame (pde s (q div 1024)) \<and> t = q mod 1024"
    by (rule slot_eq_iff) (simp_all add: frame_aligned assms)
  also have "frame (pde s d) = frame (pde s (q div 1024)) \<longleftrightarrow> d = q div 1024"
    using vmm_wfD(6) [OF assms(1,5) dq assms(6,3)] by auto
  also have "d = q div 1024 \<and> t = q mod 1024 \<longleftrightarrow> q = 1024 * d + t"
    using assms(7) by auto
  finally show ?thesis unfolding pte_def pd by (simp add: set_entry_def)
qed

lemma set_entry_page:
  assumes "vmm_wf s" "q < 1047552" "present (pde s (q div 1024))"
  shows "vmm_wf (set_entry q x s)"
    and "d < 1024 \<Longrightarrow> pde (set_entry q x s) d = pde s d"
    and "r < 1047552 \<Longrightarrow> entry (set_entry q x s) r = (if r = q then Some x else entry s r)"
proof -
  have q: "q < 1048576" "q div 1024 \<noteq> 1023" using assms(2) by auto
  show pd: "pde (set_entry q x s) d = pde s d" if "d < 1024" for d
    using pde_set_entry [OF assms(1) q(1) assms(3) that] assms(2) by simp
  show "vmm_wf (set_entry q x s)"
    using assms(1) by (simp add: vmm_wf_def pd)
  assume r: "r < 1047552"
  then have rd: "r div 1024 < 1024" "1024 * (r div 1024) + r mod 1024 = r" by auto
  show "entry (set_entry q x s) r = (if r = q then Some x else entry s r)"
    using pte_set_entry [OF assms(1) q(1) assms(3) q(2) rd(1), of "r mod 1024"] rd assms(3)
    by (auto simp: entry_def pd)
qed

end
