(* ===== verification/VMM_Map.thy ===== *)
theory VMM_Map
  imports VMM_Tables
begin

text \<open>
  Mapping and unmapping runs of pages: the effect of the loops on the abstract table, the
  creation of a missing directory with a frame from the physical allocator, and the functional
  description of \<open>MapPhysicalToVirtual\<close> and \<open>UnmapVirtual\<close>.
\<close>

unbundle bit_operations_syntax

section \<open>Small facts\<close>

lemma present_or [simp]: "present (e OR 3)"
proof -
  have "(e OR 3) AND 1 = (e AND 1) OR (3 AND 1)" by (rule bit.conj_disj_distrib2)
  moreover have "bit ((e AND 1) OR (1 :: u32)) 0" by (simp add: bit_simps)
  then have "(e AND 1) OR (1 :: u32) \<noteq> 0" by auto
  ultimately show ?thesis by (simp add: present_def)
qed

lemma frame_or_flags: "x AND NOT 0xfff = 0 \<Longrightarrow> frame (p OR x) = frame p"
  by (simp only: frame_def and_not_0xfff [symmetric] bit.conj_disj_distrib2 or.right_neutral)

lemma frame_or_3 [simp]: "frame (e OR 3) = frame e"
  by (rule frame_or_flags) simp

lemma flags_below_page: "(ucast (f :: u8) AND 0x7f) AND NOT 0xfff = (0 :: u32)"
proof -
  have "(0x7f :: u32) AND NOT 0xfff = 0" by simp
  then show ?thesis by (simp only: and.assoc and_zero_eq)
qed

lemma present_and_not_1 [simp]: "\<not> present (e AND NOT 1)"
  by (simp add: present_def and.assoc)

text \<open>The successor of a page number, as the loops compute its two indexes.\<close>

lemma Suc_mod_div:
  fixes q n :: nat
  assumes "0 < n"
  shows "Suc (q mod n) = n \<Longrightarrow> Suc q mod n = 0 \<and> Suc q div n = Suc (q div n)"
    and "Suc (q mod n) \<noteq> n \<Longrightarrow> Suc q mod n = Suc (q mod n) \<and> Suc q div n = q div n"
  using assms by (simp_all add: mod_Suc div_Suc)

lemma table_wraps:
  assumes "t < 1024"
  shows "of_nat t + 1 \<ge> (1024 :: u32) \<longleftrightarrow> t = 1023"
proof -
  have "unat (of_nat t + 1 :: u32) = t + 1"
    using assms by (subst unat_add_small) (simp_all add: unat_of_nat_small)
  moreover have "unat (1024 :: u32) = 1024" by simp
  ultimately show ?thesis using assms unfolding word_le_nat_alt by linarith
qed

lemma page_step:
  "of_nat (q mod 1024) + 1 \<ge> (1024 :: u32) \<longleftrightarrow> q mod 1024 = 1023"
  "q mod 1024 = 1023 \<Longrightarrow> Suc q mod 1024 = 0 \<and> Suc q div 1024 = Suc (q div 1024)"
  "q mod 1024 \<noteq> 1023 \<Longrightarrow> Suc q mod 1024 = Suc (q mod 1024) \<and> Suc q div 1024 = q div 1024"
  using table_wraps [of "q mod 1024"] Suc_mod_div [of 1024 q] by simp_all

section \<open>The loops\<close>

text \<open>The directories of a run of pages are there.\<close>

definition directories_present :: "VMM \<Rightarrow> nat \<Rightarrow> nat \<Rightarrow> bool" where
  "directories_present s q k \<longleftrightarrow> (\<forall>p. q \<le> p \<and> p < q + k \<longrightarrow> present (pde s (p div 1024)))"

lemma directories_present_Suc:
  assumes "directories_present s q (Suc k)"
  shows "directories_present s (Suc q) k" "present (pde s (q div 1024))"
  using assms by (auto simp: directories_present_def)

lemma directories_present_cong:
  assumes "\<And>d. d < 1024 \<Longrightarrow> pde t d = pde s d" "q + k \<le> 1048576"
  shows "directories_present t q k \<longleftrightarrow> directories_present s q k"
proof -
  have "p div 1024 < 1024" if "p < q + k" for p using that assms(2) by auto
  then show ?thesis using assms(1) by (auto simp: directories_present_def)
qed

lemma directories_present_mono:
  "directories_present s q k \<Longrightarrow> j \<le> k \<Longrightarrow> directories_present s q j"
  by (simp add: directories_present_def)

lemma entry_present: "present (pde s (q div 1024)) \<Longrightarrow> \<exists>e. entry s q = Some e"
  by (simp add: entry_def)

text \<open>Both loops store to the entries of a run, one after the other.\<close>

fun set_run :: "nat \<Rightarrow> nat \<Rightarrow> (nat \<Rightarrow> u32 \<Rightarrow> u32) \<Rightarrow> VMM \<Rightarrow> VMM" where
  "set_run q 0 f s = s"
| "set_run q (Suc k) f s = set_run (Suc q) k f (set_entry q (f q (the (entry s q))) s)"

lemma set_run_fields [simp]:
  "vmm_pmm (set_run q k f s) = vmm_pmm s" "cr3 (set_run q k f s) = cr3 s"
  "vzones (set_run q k f s) = vzones s"
  by (induction k arbitrary: q s) simp_all

lemma set_run_all:
  assumes "vmm_wf s" "q + k \<le> 1047552" "directories_present s q k"
  shows "vmm_wf (set_run q k f s) \<and> (\<forall>d<1024. pde (set_run q k f s) d = pde s d) \<and>
    (\<forall>r<1047552. entry (set_run q k f s) r =
      (if q \<le> r \<and> r < q + k then Some (f r (the (entry s r))) else entry s r))"
  using assms
proof (induction k arbitrary: q s)
  case (Suc k)
  let ?s = "set_entry q (f q (the (entry s q))) s"
  have q: "q < 1047552" "Suc q + k \<le> 1047552" using Suc.prems(2) by auto
  note dirs = directories_present_Suc [OF Suc.prems(3)]
  note one = set_entry_page [OF Suc.prems(1) q(1) dirs(2)]
  have "directories_present ?s (Suc q) k"
    using directories_present_cong [OF one(2), of "Suc q" k] q(2) dirs(1) by simp
  from Suc.IH [OF one(1) q(2) this] show ?case using one(2,3) by auto
qed auto

text \<open>Only the values within the run matter.\<close>

lemma set_run_cong:
  assumes "\<And>r x. q \<le> r \<Longrightarrow> f r x = g r x"
  shows "set_run q k f s = set_run q k g s"
  using assms
proof (induction k arbitrary: q s)
  case (Suc k)
  then have "set_run (Suc q) k f t = set_run (Suc q) k g t" for t by simp
  then show ?case using Suc.prems [of q] by simp
qed simp

lemmas set_run =
  set_run_all [THEN conjunct1]
  set_run_all [THEN conjunct2, THEN conjunct1, rule_format]
  set_run_all [THEN conjunct2, THEN conjunct2, rule_format]

text \<open>One page of the loop: its entry, and the next directory if there is none yet.\<close>

lemma map_loop_Suc:
  fixes phys :: u32 and flags :: u8
  assumes "vmm_wf s" "q < 1047552" "present (pde s (q div 1024))"
  defines "t \<equiv> set_entry q (phys OR (ucast flags AND 0x7f)) s"
  shows "map_loop (Suc k) (of_nat q) phys (of_nat (q mod 1024)) (of_nat (q div 1024)) flags s =
    and_then (if present (pde s (Suc q div 1024)) then Inr t else add_directory t (of_nat (Suc q div 1024)))
      (map_loop k (of_nat (Suc q)) (phys + 4096) (of_nat (Suc q mod 1024)) (of_nat (Suc q div 1024)) flags)"
proof -
  have q: "q < 1048576" using assms(2) by auto
  note one = set_entry_page [OF assms(1-3), where x = "phys OR (ucast flags AND 0x7f)", folded t_def]
  obtain e where e: "vread s (ptbl_at (of_nat q)) = Inr e"
    using vread_ptbl [OF assms(1) q] entry_present [OF assms(3)] by blast
  have w: "vwrite s (ptbl_at (of_nat q)) (phys OR (ucast flags AND 0x7f)) = Inr t"
    unfolding t_def by (rule vwrite_ptbl [OF assms(1) q assms(3)])
  show ?thesis
  proof (cases "q mod 1024 = 1023")
    case True
    have d: "Suc (q div 1024) < 1024" using assms(2) by auto
    have nxt: "Suc q mod 1024 = 0" "Suc q div 1024 = Suc (q div 1024)" "of_nat (q mod 1024) + 1 \<ge> (1024 :: u32)"
      using page_step [of q] True by simp_all
    have r: "vread t (pdir_at (of_nat (q div 1024) + 1)) = Inr (pde s (Suc (q div 1024)))"
      using vread_pdir [OF one(1) d] one(2) [OF d] by (simp add: add.commute)
    have "map_loop (Suc k) (of_nat q) phys (of_nat (q mod 1024)) (of_nat (q div 1024)) flags s =
        and_then (if present (pde s (Suc (q div 1024))) then Inr t else add_directory t (of_nat (q div 1024) + 1))
          (map_loop k (of_nat q + 1) (phys + 4096) 0 (of_nat (q div 1024) + 1) flags)"
      by (simp only: map_loop.simps e w r nxt(3) and_then.simps if_True)
    then show ?thesis using nxt by (simp add: add.commute)
  next
    case False
    have nxt: "Suc q mod 1024 = Suc (q mod 1024)" "Suc q div 1024 = q div 1024" "\<not> of_nat (q mod 1024) + 1 \<ge> (1024 :: u32)"
      using page_step [of q] False by simp_all
    have "map_loop (Suc k) (of_nat q) phys (of_nat (q mod 1024)) (of_nat (q div 1024)) flags s =
        map_loop k (of_nat q + 1) (phys + 4096) (of_nat (q mod 1024) + 1) (of_nat (q div 1024)) flags t"
      by (simp only: map_loop.simps e w nxt(3) and_then.simps if_False)
    then show ?thesis using nxt assms(3) by (simp add: add.commute)
  qed
qed

lemma map_loop_set_run:
  assumes "vmm_wf s" "q + k \<le> 1047552" "directories_present s q (Suc k)"
  shows "map_loop k (of_nat q) phys (of_nat (q mod 1024)) (of_nat (q div 1024)) flags s =
    Inr (set_run q k (\<lambda>r _. (phys + 4096 * of_nat (r - q)) OR (ucast flags AND 0x7f)) s)"
  using assms
proof (induction k arbitrary: q s phys)
  case (Suc k)
  let ?s = "set_entry q (phys OR (ucast flags AND 0x7f)) s"
  have q: "q < 1047552" "Suc q + k \<le> 1047552" using Suc.prems(2) by auto
  note dirs = directories_present_Suc [OF Suc.prems(3)] and one = set_entry_page [OF Suc.prems(1) q(1)]
  have dirs': "directories_present ?s (Suc q) (Suc k)"
    using directories_present_cong [OF one(2) [OF dirs(2)], of "Suc q" "Suc k"] q(2) dirs(1) by simp
  have shift: "(phys + 4096 + 4096 * of_nat (r - Suc q)) = phys + 4096 * of_nat (r - q)" if "Suc q \<le> r" for r
  proof -
    have "r - q = Suc (r - Suc q)" using that by simp
    then show ?thesis by (simp add: algebra_simps)
  qed
  have "set_run (Suc q) k (\<lambda>r _. (phys + 4096 + 4096 * of_nat (r - Suc q)) OR (ucast flags AND 0x7f)) ?s =
      set_run q (Suc k) (\<lambda>r _. (phys + 4096 * of_nat (r - q)) OR (ucast flags AND 0x7f)) s"
    using set_run_cong [of "Suc q" "\<lambda>r _. (phys + 4096 + 4096 * of_nat (r - Suc q)) OR (ucast flags AND 0x7f)"
        "\<lambda>r _. (phys + 4096 * of_nat (r - q)) OR (ucast flags AND 0x7f)" k ?s] shift
    by simp
  then show ?case
    unfolding map_loop_Suc [OF Suc.prems(1) q(1) dirs(2)]
    using Suc.IH [OF one(1) [OF dirs(2)] q(2) dirs', of "phys + 4096"] directories_present_Suc(2) [OF dirs(1)] by simp
qed simp

lemma unmap_loop_Suc:
  assumes "vmm_wf s" "q < 1047552" "entry s q = Some e"
  shows "unmap_loop (Suc k) (of_nat q) (of_nat (q mod 1024)) (of_nat (q div 1024)) s =
    unmap_loop k (of_nat (Suc q)) (of_nat (Suc q mod 1024)) (of_nat (Suc q div 1024)) (set_entry q (e AND NOT 1) s)"
proof -
  let ?s = "set_entry q (e AND NOT 1) s"
  have q: "q < 1048576" using assms(2) by simp
  have dir: "present (pde s (q div 1024))" using assms(3) by (simp add: entry_def split: if_splits)
  note one = set_entry_page [OF assms(1,2) dir]
  have e: "vread s (ptbl_at (of_nat q)) = Inr e" by (rule vread_ptbl [OF assms(1) q assms(3)])
  have w: "vwrite s (ptbl_at (of_nat q)) (e AND NOT 1) = Inr ?s" by (rule vwrite_ptbl [OF assms(1) q dir])
  show ?thesis
  proof (cases "q mod 1024 = 1023")
    case True
    have d: "Suc (q div 1024) < 1024" using assms(2) by auto
    have "vread ?s (pdir_at (of_nat (q div 1024) + 1)) = Inr (pde ?s (Suc (q div 1024)))"
      using vread_pdir [OF one(1) d] by (simp add: add.commute)
    then show ?thesis using page_step [of q] True e w by (simp add: add.commute)
  next
    case False
    then show ?thesis using page_step [of q] e w by (simp add: add.commute)
  qed
qed

lemma unmap_loop_set_run:
  assumes "vmm_wf s" "q + k \<le> 1047552" "directories_present s q k"
  shows "unmap_loop k (of_nat q) (of_nat (q mod 1024)) (of_nat (q div 1024)) s =
    Inr (set_run q k (\<lambda>_ e. e AND NOT 1) s)"
  using assms
proof (induction k arbitrary: q s)
  case (Suc k)
  have q: "q < 1047552" "Suc q + k \<le> 1047552" using Suc.prems(2) by auto
  note dirs = directories_present_Suc [OF Suc.prems(3)]
  obtain e where ent: "entry s q = Some e" using entry_present [OF dirs(2)] by blast
  note one = set_entry_page [OF Suc.prems(1) q(1) dirs(2), where x = "e AND NOT 1"]
  have "directories_present (set_entry q (e AND NOT 1) s) (Suc q) k"
    using directories_present_cong [OF one(2), of "Suc q" "k"] q(2) dirs(1) by simp
  from Suc.IH [OF one(1) q(2) this] show ?case by (simp add: unmap_loop_Suc [OF Suc.prems(1) q(1) ent] ent del: unmap_loop.simps(2))
qed simp

section \<open>What is written\<close>

text \<open>
  The frames of the page directory and of its tables. The operations write to no other memory,
  and the tables they add lie in frames that were not in use.
\<close>

definition tables :: "VMM \<Rightarrow> u32 set" where
  "tables s = (\<lambda>d. frame (pde s d)) ` {d. d < 1024 \<and> present (pde s d)}"

definition writes_tables :: "VMM \<Rightarrow> VMM \<Rightarrow> bool" where
  "writes_tables s t \<longleftrightarrow> tables s \<subseteq> tables t \<and> (\<forall>f\<in>tables t - tables s. unat f \<notin> used_frames (vmm_pmm s)) \<and>
     (\<forall>a. frame a \<notin> tables t \<longrightarrow> pmem t a = pmem s a) \<and> used_frames (vmm_pmm s) \<subseteq> used_frames (vmm_pmm t)"

lemma tablesI: "d < 1024 \<Longrightarrow> present (pde s d) \<Longrightarrow> frame (pde s d) \<in> tables s"
  by (simp add: tables_def)

lemma tables_cong: "(\<And>d. d < 1024 \<Longrightarrow> pde t d = pde s d) \<Longrightarrow> tables t = tables s"
  unfolding tables_def by (rule image_cong) auto

lemma writes_tables_refl [simp]: "writes_tables s s"
  by (simp add: writes_tables_def)

lemma writes_tables_trans [trans]:
  assumes "writes_tables s t" "writes_tables t u"
  shows "writes_tables s u"
proof -
  have "unat f \<notin> used_frames (vmm_pmm s)" if "f \<in> tables u - tables s" for f
    using assms that unfolding writes_tables_def by (cases "f \<in> tables t") auto
  moreover have "pmem u a = pmem s a" if "frame a \<notin> tables u" for a
    using assms that unfolding writes_tables_def by (metis subsetD)
  ultimately show ?thesis using assms unfolding writes_tables_def by blast
qed

lemma frame_slot:
  assumes "t < 1024"
  shows "frame (frame e + 4 * of_nat t) = frame e"
proof -
  obtain k where k: "unat (frame e) = 4096 * k" using frame_aligned [of e] by (auto elim: dvdE simp: mod_eq_0_iff_dvd)
  have "unat (frame e + 4 * of_nat t) = 4096 * k + 4 * t" using unat_slot [OF frame_aligned assms] k by simp
  moreover have "(4096 * k + 4 * t) mod 4096 = 4 * t" using assms by simp
  ultimately have "unat (frame (frame e + 4 * of_nat t)) = unat (frame e)" unfolding unat_frame [of "frame e + _"] k by simp
  then show ?thesis by (rule unat_inj)
qed

lemma writes_tables_set_entry:
  assumes "vmm_wf s" "q < 1047552" "present (pde s (q div 1024))"
  shows "writes_tables s (set_entry q x s)"
proof -
  have "tables (set_entry q x s) = tables s"
    by (rule tables_cong) (rule set_entry_page(2) [OF assms])
  moreover have "frame (pde s (q div 1024)) \<in> tables s" by (rule tablesI [OF _ assms(3)]) (use assms(2) in simp)
  ultimately show ?thesis by (auto simp: writes_tables_def set_entry_def frame_slot)
qed

lemma writes_tables_set_run:
  "vmm_wf s \<Longrightarrow> q + k \<le> 1047552 \<Longrightarrow> directories_present s q k \<Longrightarrow> writes_tables s (set_run q k f s)"
proof (induction k arbitrary: q s)
  case (Suc k)
  have q: "q < 1047552" "Suc q + k \<le> 1047552" using Suc.prems(2) by auto
  note dirs = directories_present_Suc [OF Suc.prems(3)]
  let ?s = "set_entry q (f q (the (entry s q))) s"
  have "directories_present ?s (Suc q) k"
    using directories_present_cong [OF set_entry_page(2) [OF Suc.prems(1) q(1) dirs(2)], of "Suc q" k] q(2) dirs(1) by simp
  then show ?case
    using writes_tables_trans [OF writes_tables_set_entry [OF Suc.prems(1) q(1) dirs(2)]
      Suc.IH [OF set_entry_page(1) [OF Suc.prems(1) q(1) dirs(2)] q(2)]] by simp
qed simp

section \<open>The first page of a run\<close>

lemma run_indexes:
  fixes virt
  defines "q \<equiv> page_number virt"
  shows "dirindex_of virt = of_nat (q div 1024)" "tableindex_of virt = of_nat (q mod 1024)"
    "of_nat (q div 1024) * 1024 + of_nat (q mod 1024) = (of_nat q :: u32)"
  using dirindex_of_nat tableindex_of_nat toffset_of_nat [of virt] by (simp_all add: q_def)

lemma run_reads:
  assumes "vmm_wf s" "q < 1047552"
  shows "vread s (pdir_at (of_nat (q div 1024))) = Inr (pde s (q div 1024))"
    "present (pde s (q div 1024)) \<Longrightarrow> \<exists>e. vread s (ptbl_at (of_nat q)) = Inr e"
proof -
  have "q div 1024 < 1024" "q < 1048576" using assms(2) by auto
  then show "vread s (pdir_at (of_nat (q div 1024))) = Inr (pde s (q div 1024))"
    "present (pde s (q div 1024)) \<Longrightarrow> \<exists>e. vread s (ptbl_at (of_nat q)) = Inr e"
    using vread_pdir [OF assms(1)] vread_ptbl [OF assms(1)] entry_present by blast+
qed

section \<open>A new directory\<close>

lemma vmm_pmm_update [simp]:
  "pde (s\<lparr>vmm_pmm := x\<rparr>) d = pde s d" "pte (s\<lparr>vmm_pmm := x\<rparr>) d t = pte s d t"
  "entry (s\<lparr>vmm_pmm := x\<rparr>) q = entry s q"
  by (simp_all add: pde_def pte_def entry_def)

lemma AllocatePhysical_aligned:
  assumes "pmm_wf s" "aligned_zones s" "can_allocate s n ty" "AllocatePhysical s n ty = Inr (a, s')"
  shows "unat a mod 4096 = 0" "aligned_zones s'"
proof -
  from AllocatePhysical_in_zone [OF assms(1,3)] obtain i p where r: "i < length (zones s)"
    "AllocatePhysical s n ty = Inr (start (zones s ! i) + p * PHYS_PAGE_SIZE, take_pages s i p n)"
    "unat p < unat (pagecount (zones s ! i))"
    by blast
  have "unat (start (zones s ! i)) mod 4096 = 0"
    using assms(2) r(1) by (simp add: aligned_zones_def)
  moreover have "unat a = unat (start (zones s ! i)) + 4096 * unat p"
    using page_address [OF zone_end_le [OF assms(1) r(1)] r(3)] r(2) assms(4) by simp
  ultimately show "unat a mod 4096 = 0" by simp
  show "aligned_zones s'"
    using assms(2,4) r(2) by (auto simp: aligned_zones_def take_pages_run_update all_set_conv_all_nth)
qed

lemma vmm_wf_more_used:
  assumes "vmm_wf s" "pmm_wf pmm" "aligned_zones pmm" "used_frames (vmm_pmm s) \<subseteq> used_frames pmm"
  shows "vmm_wf (s\<lparr>vmm_pmm := pmm\<rparr>)"
  using assms unfolding vmm_wf_def by auto

lemma vmm_wf_allocate:
  assumes "vmm_wf s" "can_allocate (vmm_pmm s) n ty" "AllocatePhysical (vmm_pmm s) n ty = Inr (a, pmm)"
  shows "vmm_wf (s\<lparr>vmm_pmm := pmm\<rparr>)"
    "frames (unat a) (unat n) \<inter> used_frames (vmm_pmm s) = {}"
    "used_frames pmm = used_frames (vmm_pmm s) \<union> frames (unat a) (unat n)"
    "unat a mod 4096 = 0"
proof -
  note wf = vmm_wfD [OF assms(1)]
  note r = pmm.alloc_result [OF wf(1) assms(2,3)]
  note al = AllocatePhysical_aligned [OF wf(1,2) assms(2,3)]
  show "vmm_wf (s\<lparr>vmm_pmm := pmm\<rparr>)" using vmm_wf_more_used [OF assms(1) r(1) al(2)] r(3) by simp
  show "frames (unat a) (unat n) \<inter> used_frames (vmm_pmm s) = {}"
    "used_frames pmm = used_frames (vmm_pmm s) \<union> frames (unat a) (unat n)" "unat a mod 4096 = 0"
    using r al by simp_all
qed

text \<open>A directory entry is set to a frame that no table uses.\<close>

lemma set_directory:
  assumes wf: "vmm_wf s" and d: "d < 1023" and e: "present e"
    and used: "unat (frame e) \<in> used_frames (vmm_pmm s)"
    and fresh: "\<And>d'. d' < 1024 \<Longrightarrow> present (pde s d') \<Longrightarrow> frame (pde s d') \<noteq> frame e"
  defines "t \<equiv> set_entry (1047552 + d) e s"
  shows "vmm_wf t"
    and "d' < 1024 \<Longrightarrow> pde t d' = (if d' = d then e else pde s d')"
    and "r < 1047552 \<Longrightarrow> r div 1024 \<noteq> d \<Longrightarrow> entry t r = entry s r"
proof -
  have d': "d < 1024" "1047552 + d < 1048576" using d by auto
  have last: "(1047552 + d) div 1024 = 1023" "(1047552 + d) mod 1024 = d"
    using last_table [OF d'(1)] by auto
  have pd: "pde t c = (if c = d then e else pde s c)" if "c < 1024" for c
    using pde_set_entry [OF wf d'(2) _ that, of e] last wf by (simp add: t_def vmm_wfD)
  then show "pde t d' = (if d' = d then e else pde s d')" if "d' < 1024" using that .
  have fields: "vmm_pmm t = vmm_pmm s" "cr3 t = cr3 s" by (simp_all add: t_def)
  show "vmm_wf t"
    using wf d e used fresh unfolding vmm_wf_def fields
    by (simp add: pd) metis
  assume r: "r < 1047552" "r div 1024 \<noteq> d"
  have rd: "r div 1024 < 1023" "r mod 1024 < 1024" using r by auto
  have "pte t (r div 1024) (r mod 1024) = pte s (r div 1024) (r mod 1024)"
    if pres: "present (pde s (r div 1024))"
  proof -
    have "frame (pde s (r div 1024)) \<noteq> frame (cr3 s)"
      using vmm_wfD(6) [OF wf, of "r div 1024" 1023] vmm_wfD(3,4) [OF wf] rd pres by force
    then have "frame (pde s (r div 1024)) + 4 * of_nat (r mod 1024) \<noteq> frame (cr3 s) + 4 * of_nat d"
      using slot_eq_iff [OF frame_aligned frame_aligned rd(2) d'(1)] by blast
    moreover have "pde t (r div 1024) = pde s (r div 1024)" using pd rd r(2) by simp
    ultimately show ?thesis
      unfolding pte_def by (simp add: t_def set_entry_def last vmm_wfD(4) [OF wf])
  qed
  then show "entry t r = entry s r" using pd [of "r div 1024"] rd r(2) by (simp add: entry_def)
qed

lemma set_directory_writes:
  assumes wf: "vmm_wf s" and d: "d < 1023" "\<not> present (pde s d)" and e: "present e"
  defines "t \<equiv> set_entry (1047552 + d) e s"
  assumes pd: "\<forall>d'<1024. pde t d' = (if d' = d then e else pde s d')"
  shows "tables t = insert (frame e) (tables s)" "frame a \<notin> tables t \<Longrightarrow> pmem t a = pmem s a"
proof -
  have "{c. c < 1024 \<and> present (pde t c)} = insert d {c. c < 1024 \<and> present (pde s c)}"
    using pd d e by auto
  then have "tables t = insert (frame (pde t d)) ((\<lambda>c. frame (pde t c)) ` {c. c < 1024 \<and> present (pde s c)})"
    by (simp add: tables_def)
  also have "(\<lambda>c. frame (pde t c)) ` {c. c < 1024 \<and> present (pde s c)} = tables s"
    unfolding tables_def by (rule image_cong) (use pd d(2) in auto)
  finally show tab: "tables t = insert (frame e) (tables s)" using pd d(1) by simp
  have "frame (cr3 s) \<in> tables s" using tablesI [of 1023 s] vmm_wfD(3,4) [OF wf] by simp
  then show "pmem t a = pmem s a" if "frame a \<notin> tables t"
    using that d(1) last_table [of d] vmm_wfD(4) [OF wf] unfolding tab by (auto simp: t_def set_entry_def frame_slot)
qed

lemma add_directory:
  assumes wf: "vmm_wf s" and d: "d < 1023" "\<not> present (pde s d)" and can: "can_allocate (vmm_pmm s) 1 Normal"
  obtains t p where "add_directory s (of_nat d) = Inr t" "vmm_wf t" "cr3 t = cr3 s" "vzones t = vzones s"
    "\<forall>d'<1024. pde t d' = (if d' = d then p OR 3 else pde s d')"
    "\<forall>r<1047552. r div 1024 \<noteq> d \<longrightarrow> entry t r = entry s r"
    "used_frames (vmm_pmm t) = used_frames (vmm_pmm s) \<union> {unat p}"
    "unat p \<notin> used_frames (vmm_pmm s)" "writes_tables s t"
proof -
  obtain p pmm where a: "AllocatePhysical (vmm_pmm s) 1 Normal = Inr (p, pmm)"
    using pmm.alloc_ok [OF vmm_wfD(1) [OF wf] can] by blast
  note r = vmm_wf_allocate [OF wf can a]
  have single: "frames (unat p) (unat (1 :: u32)) = {unat p}" by (auto simp: frames_def)
  let ?s = "s\<lparr>vmm_pmm := pmm\<rparr>"
  have p: "frame (p OR 3) = p" using frame_id [OF r(4)] by simp
  have used: "unat (frame (p OR 3)) \<in> used_frames (vmm_pmm ?s)" using r(3) single p by simp
  have fresh: "frame (pde ?s c) \<noteq> frame (p OR 3)" if "c < 1024" "present (pde ?s c)" for c
    using vmm_wfD(5) [OF wf that(1)] that(2) r(2) single p by auto
  note sd = set_directory [OF r(1) d(1) present_or used fresh]
  have absent: "\<not> present (pde ?s d)" using d(2) by simp
  note sw = set_directory_writes [OF r(1) d(1) absent present_or]
  let ?t = "set_entry (1047552 + d) (p OR 3) ?s"
  have "tables ?s = tables s" by (simp add: tables_def)
  then have "writes_tables s ?t"
    using sw sd(2) r(2,3) single p by (auto simp: writes_tables_def)
  have "\<not> of_nat d \<ge> (1024 :: u32)" using d(1) by (simp add: word_le_nat_alt unat_of_nat_small)
  then have "MapPageDirectoryIndex s (of_nat d) = Inr (p, ?s)"
    by (simp add: MapPageDirectoryIndex_def a)
  moreover have "vwrite ?s (pdir_at (of_nat d)) (p OR 3) = Inr (set_entry (1047552 + d) (p OR 3) ?s)"
    using d(1) by (intro vwrite_pdir [OF r(1)]) simp
  ultimately have "add_directory s (of_nat d) = Inr (set_entry (1047552 + d) (p OR 3) ?s)"
    by (simp add: add_directory_def)
  then show ?thesis
    by (rule that) (use sd r single \<open>writes_tables s ?t\<close> in \<open>simp_all\<close>)
qed

text \<open>Clearing a table through its window.\<close>

lemma vclear_set_run:
  assumes "vmm_wf s" "q + k \<le> 1047552" "directories_present s q k"
  shows "vclear k (ptbl_at (of_nat q)) s = Inr (set_run q k (\<lambda>_ _. 0) s)"
  using assms
proof (induction k arbitrary: q s)
  case (Suc k)
  have q: "q < 1047552" "q < 1048576" "Suc q + k \<le> 1047552" using Suc.prems(2) by auto
  note dirs = directories_present_Suc [OF Suc.prems(3)]
  note one = set_entry_page [OF Suc.prems(1) q(1) dirs(2)]
  have dirs': "directories_present (set_entry q 0 s) (Suc q) k"
    using directories_present_cong [OF one(2), of "Suc q" k] q(3) dirs(1) by simp
  have "ptbl_at (of_nat q) + 4 = ptbl_at (of_nat (Suc q))" by (simp add: ptbl_at_def algebra_simps)
  then show ?case
    using vwrite_ptbl [OF Suc.prems(1) q(2) dirs(2)] Suc.IH [OF one(1) q(3) dirs'] by simp
qed simp

section \<open>MapPhysicalToVirtual\<close>

text \<open>
  The precondition: the run lies below the window of the page tables, the directories after its
  first one exist (up to the one that the page behind the run lies in), and the first one exists
  or a page can be allocated for it.
\<close>

definition can_map :: "VMM \<Rightarrow> nat \<Rightarrow> nat \<Rightarrow> bool" where
  "can_map s q k \<longleftrightarrow> q < 1047552 \<and> q + k \<le> 1047552 \<and>
     (\<forall>p. q \<le> p \<and> p \<le> q + k \<and> p div 1024 \<noteq> q div 1024 \<longrightarrow> present (pde s (p div 1024))) \<and>
     (present (pde s (q div 1024)) \<or> can_allocate (vmm_pmm s) 1 Normal)"

text \<open>The state in which the loop starts: the first directory is there.\<close>

lemma first_directory:
  assumes wf: "vmm_wf s" and can: "can_map s q k"
  obtains t where
    "(if present (pde s (q div 1024)) then Inr s
      else and_then (add_directory s (of_nat (q div 1024)))
             (vclear 1024 (kernel_virt_first_table + of_nat (q div 1024) * 4096))) = Inr t"
    "vmm_wf t" "cr3 t = cr3 s" "vzones t = vzones s" "directories_present t q (Suc k)"
    "used_frames (vmm_pmm s) \<subseteq> used_frames (vmm_pmm t)"
    "present (pde s (q div 1024)) \<longrightarrow> t = s"
    "\<forall>r<1047552. entry t r =
      (if present (pde s (q div 1024)) \<or> r div 1024 \<noteq> q div 1024 then entry s r else Some 0)"
    "writes_tables s t"
proof (cases "present (pde s (q div 1024))")
  case True
  have "directories_present s q (Suc k)"
    using can True unfolding can_map_def directories_present_def by (metis add_Suc_right less_Suc_eq_le)
  then show ?thesis using that [of s] wf True by simp
next
  case False
  define d where "d = q div 1024"
  have d: "d < 1023" using can by (auto simp: can_map_def d_def)
  have "can_allocate (vmm_pmm s) 1 Normal" using can False by (simp add: can_map_def)
  from add_directory [OF wf d _ this] False obtain t p where t:
    "add_directory s (of_nat d) = Inr t" "vmm_wf t" "cr3 t = cr3 s" "vzones t = vzones s"
    "\<forall>d'<1024. pde t d' = (if d' = d then p OR 3 else pde s d')"
    "\<forall>r<1047552. r div 1024 \<noteq> d \<longrightarrow> entry t r = entry s r"
    "used_frames (vmm_pmm t) = used_frames (vmm_pmm s) \<union> {unat p}"
    "unat p \<notin> used_frames (vmm_pmm s)" "writes_tables s t"
    by (auto simp: d_def)
  define u where "u = set_run (1024 * d) 1024 (\<lambda>_ _. 0) t"
  have in_d: "1024 * d \<le> r \<and> r < 1024 * d + 1024 \<longleftrightarrow> r div 1024 = d" for r by auto
  have dirs: "directories_present t (1024 * d) 1024"
    using t(5) d by (simp add: directories_present_def in_d)
  have bound: "1024 * d + 1024 \<le> 1047552" using d by simp
  note su = set_run [OF t(2) bound dirs, where f = "\<lambda>_ _. 0", folded u_def]
  have addr: "0xffc00000 + of_nat d * 4096 = ptbl_at (of_nat (1024 * d))"
    by (simp add: ptbl_at_def)
  have clear: "vclear 1024 (0xffc00000 + of_nat d * 4096) t = Inr u"
    unfolding addr u_def by (rule vclear_set_run [OF t(2) bound dirs])
  have "directories_present u q (Suc k)"
    unfolding directories_present_def
  proof (intro allI impI)
    fix r assume r: "q \<le> r \<and> r < q + Suc k"
    have "r div 1024 < 1024" using r can by (auto simp: can_map_def)
    moreover have "r div 1024 \<noteq> d \<Longrightarrow> present (pde s (r div 1024))"
      using r can by (simp add: can_map_def d_def)
    ultimately show "present (pde u (r div 1024))" using su(2) t(5) by simp
  qed
  moreover have "entry u r = (if r div 1024 = d then Some 0 else entry s r)" if "r < 1047552" for r
    using su(3) [OF that] t(6) that in_d [of r] by simp
  moreover have "writes_tables s u"
    using writes_tables_trans [OF t(9) writes_tables_set_run [OF t(2) bound dirs]] by (simp add: u_def)
  ultimately show ?thesis
    using that [of u] False t su(1) clear by (simp add: d_def [symmetric]) (simp add: u_def subset_insertI)
qed

lemma MapPhysicalToVirtual_char:
  assumes wf: "vmm_wf s" and can: "can_map s (page_number virt) (unat n)"
  defines "q \<equiv> page_number virt"
  obtains t where "MapPhysicalToVirtual s phys n virt flags = Inr (n, t)" "vmm_wf t"
    "cr3 t = cr3 s" "vzones t = vzones s" "used_frames (vmm_pmm s) \<subseteq> used_frames (vmm_pmm t)"
    "present (pde s (q div 1024)) \<longrightarrow> vmm_pmm t = vmm_pmm s"
    "\<forall>r<1047552. entry t r =
      (if q \<le> r \<and> r < q + unat n then Some ((phys + 4096 * of_nat (r - q)) OR (ucast flags AND 0x7f))
       else if present (pde s (q div 1024)) \<or> r div 1024 \<noteq> q div 1024 then entry s r else Some 0)"
    "writes_tables s t"
proof -
  from first_directory [OF assms(1,2), folded q_def] obtain t where t:
    "(if present (pde s (q div 1024)) then Inr s
      else and_then (add_directory s (of_nat (q div 1024)))
             (vclear 1024 (kernel_virt_first_table + of_nat (q div 1024) * 4096))) = Inr t"
    "vmm_wf t" "cr3 t = cr3 s" "vzones t = vzones s" "directories_present t q (Suc (unat n))"
    "used_frames (vmm_pmm s) \<subseteq> used_frames (vmm_pmm t)"
    "present (pde s (q div 1024)) \<longrightarrow> t = s"
    "\<forall>r<1047552. entry t r =
      (if present (pde s (q div 1024)) \<or> r div 1024 \<noteq> q div 1024 then entry s r else Some 0)"
    "writes_tables s t" .
  have q: "q < 1047552" "q < 1048576" "q + unat n \<le> 1047552"
    using can by (simp_all add: can_map_def q_def)
  note idx = run_indexes [of virt, folded q_def]
  note rd = run_reads(1) [OF wf q(1)]
  obtain e where e: "vread t (ptbl_at (of_nat q)) = Inr e"
    using run_reads(2) [OF t(2) q(1) directories_present_Suc(2) [OF t(5)]] by blast
  define f where "f = (\<lambda>r (_ :: u32). (phys + 4096 * of_nat (r - q)) OR (ucast flags AND 0x7f :: u32))"
  have loop: "map_loop (unat n) (of_nat q) phys (of_nat (q mod 1024)) (of_nat (q div 1024)) flags t =
      Inr (set_run q (unat n) f t)"
    unfolding f_def by (rule map_loop_set_run [OF t(2) q(3) t(5)])
  have res: "MapPhysicalToVirtual s phys n virt flags = Inr (n, set_run q (unat n) f t)"
    by (simp only: MapPhysicalToVirtual_def Let_def idx rd t(1) e loop and_then.simps)
  note su = set_run [OF t(2) q(3) directories_present_mono [OF t(5)], where f = f]
  have "writes_tables s (set_run q (unat n) f t)"
    by (rule writes_tables_trans [OF t(9) writes_tables_set_run [OF t(2) q(3) directories_present_mono [OF t(5)]]]) simp
  then show ?thesis
    by (rule that [OF res, rotated -1]) (use su t in \<open>simp_all add: f_def\<close>)
qed

section \<open>UnmapVirtual\<close>

text \<open>With its directories there, a call stores the entries of its run and does nothing else.\<close>

lemma UnmapVirtual_set_run:
  fixes virt
  defines "q \<equiv> page_number virt"
  assumes "vmm_wf s" "q + unat n \<le> 1047552" "directories_present s q (unat n)" "0 < unat n"
  shows "UnmapVirtual s virt n = Inr (n, set_run q (unat n) (\<lambda>_ e. e AND NOT 1) s)"
proof -
  have q: "q < 1047552" "present (pde s (q div 1024))"
    using assms(3-5) by (auto simp: directories_present_def)
  obtain e where e: "vread s (ptbl_at (of_nat q)) = Inr e" using run_reads(2) [OF assms(2) q] by blast
  show ?thesis
    by (simp only: UnmapVirtual_def Let_def run_indexes [of virt, folded q_def] run_reads(1) [OF assms(2) q(1)] e
        unmap_loop_set_run [OF assms(2-4)] and_then.simps)
qed

lemma UnmapVirtual_char:
  assumes wf: "vmm_wf s" and n: "n \<noteq> 0" "page_number virt + unat n \<le> 1047552"
    and dirs: "directories_present s (page_number virt) (unat n)"
  defines "q \<equiv> page_number virt"
  obtains t where "UnmapVirtual s virt n = Inr (n, t)" "vmm_wf t"
    "cr3 t = cr3 s" "vzones t = vzones s" "vmm_pmm t = vmm_pmm s"
    "\<forall>d<1024. pde t d = pde s d"
    "\<forall>r<1047552. entry t r = (if q \<le> r \<and> r < q + unat n
       then Some (the (entry s r) AND NOT 1) else entry s r)"
    "writes_tables s t"
proof -
  have "0 < unat n" using n(1) by (simp add: unat_gt_0)
  note res = UnmapVirtual_set_run [OF wf n(2) dirs this, folded q_def]
  note su = set_run [OF wf n(2) dirs, folded q_def, where f = "\<lambda>_ e. e AND NOT 1"]
  show ?thesis
    by (rule that [OF res]) (use su writes_tables_set_run [OF wf n(2) dirs] in \<open>simp_all add: q_def\<close>)
qed

section \<open>Frames and flags\<close>

lemma frame_multiple:
  assumes "unat phys mod 4096 = 0"
  shows "frame (phys + 4096 * x) = phys + 4096 * x"
proof -
  from assms obtain k where "unat phys = 4096 * k" by (auto elim: dvdE simp: mod_eq_0_iff_dvd)
  then have "phys = of_nat (4096 * k)" by (rule word_eq_of_natI)
  then have "unat (phys + 4096 * x) = (4096 * (k + unat x)) mod 4294967296"
    by (simp add: unat_word_ariths unat_of_nat mod_simps distrib_left)
  also have "\<dots> mod 4096 = 0" by (simp add: mod_mod_cancel)
  finally show ?thesis by (intro frame_id) simp
qed

lemma frame_run:
  assumes "unat phys mod 4096 = 0"
  shows "frame ((phys + 4096 * x) OR (ucast (f :: u8) AND 0x7f)) = phys + 4096 * x"
  using frame_or_flags [OF flags_below_page] frame_multiple [OF assms] by metis

lemma present_flags:
  assumes "frame x = x"
  shows "present (x OR (ucast (f :: u8) AND 0x7f)) \<longleftrightarrow> bit f 0"
proof -
  have "x AND 1 = frame x AND 1" using assms by simp
  also have "\<dots> = 0" by (simp add: frame_def and.assoc)
  finally have "(x OR (ucast f AND 0x7f)) AND 1 = ucast f AND (0x7f AND 1)"
    by (simp add: bit.conj_disj_distrib2 and.assoc)
  also have "\<dots> = of_bool (bit f 0)" by (rule bit_word_eqI) (auto simp: bit_simps bit_1_iff)
  finally show ?thesis by (simp add: present_def)
qed

section \<open>Virtual zones\<close>

lemma vmm_wf_vzones: "vmm_wf t \<Longrightarrow> vmm_wf (t\<lparr>vzones := x\<rparr>)"
proof -
  have "pde (t\<lparr>vzones := x\<rparr>) d = pde t d" for d by (simp add: pde_def)
  then show "vmm_wf t \<Longrightarrow> vmm_wf (t\<lparr>vzones := x\<rparr>)" by (simp add: vmm_wf_def)
qed

text \<open>The exhaustion test passes when the run ends at or below the end of the zone.\<close>

lemma zone_room:
  fixes v n e :: u32
  assumes "n \<noteq> 0" "unat v + 4096 * unat n \<le> unat e"
  shows "v + 4096 * n - 1 < e"
proof -
  have bound: "4096 * unat n < 4294967296" "unat v + 4096 * unat n < 4294967296"
    using assms(2) unat_less_u32 [of e] by simp_all
  have "unat (4096 * n) = 4096 * unat n" using bound by (subst unat_mult_small) simp_all
  then have u: "unat (v + 4096 * n) = unat v + 4096 * unat n"
    using bound by (subst unat_add_small) simp_all
  have pos: "0 < unat n" using assms(1) by (simp add: unat_gt_0)
  then have "1 \<le> v + 4096 * n" using u by (simp add: word_le_nat_alt)
  then have "unat (v + 4096 * n - 1) = unat v + 4096 * unat n - 1" using u by (simp add: unat_sub_le)
  then show ?thesis using assms(2) pos by (simp add: word_less_nat_alt)
qed

end
