(* ===== verification/VMM_Init.thy ===== *)
theory VMM_Init
  imports VMM_Map
begin

text \<open>
  \<open>VMM::Init\<close> on the page tables of the boot code: it establishes the invariant of the manager
  and removes the identity mapping of page 0 and of the pages from 0xf0000 to 0x3effff.
\<close>

unbundle bit_operations_syntax

text \<open>
  The tables boot/x86/entry.S sets up: a directory below 4 MB whose entry 0 maps the first 4 MB
  to themselves, and no two of whose entries share a table.
\<close>

definition boot_tables :: "VMM \<Rightarrow> PMM \<Rightarrow> bool" where
  "boot_tables s pmm \<longleftrightarrow>
     unat (cr3 s) mod 4096 = 0 \<and> page_number (cr3 s) < 1024 \<and>
     present (pde s 0) \<and> pde s 0 AND NOT 0x3ff = frame (pde s 0) \<and>
     page_number (frame (pde s 0)) < 1024 \<and>
     (\<forall>q<1024. pte s 0 q = of_nat (4096 * q) OR 3) \<and>
     pmm_wf pmm \<and> aligned_zones pmm \<and> unat (cr3 s) \<in> used_frames pmm \<and>
     (\<forall>d<1023. present (pde s d) \<longrightarrow>
        unat (frame (pde s d)) \<in> used_frames pmm \<and> frame (pde s d) \<noteq> cr3 s \<and>
        (\<forall>d'<1023. present (pde s d') \<and> frame (pde s d) = frame (pde s d') \<longrightarrow> d = d'))"

lemma translate_fields [simp]:
  "translate (u\<lparr>vmm_pmm := y\<rparr>) w = translate u w" "translate (u\<lparr>vzones := x\<rparr>) w = translate u w"
  by (simp_all add: translate_def Let_def)

lemma vread_pmm [simp]: "vread (u\<lparr>vmm_pmm := y\<rparr>) w = vread u w"
  by (simp add: vread_def split: option.split)

text \<open>An entry that maps a page to itself.\<close>

lemma page_split: "v = of_nat (4096 * page_number v) + (v AND 0xfff)"
proof (rule unat_inj)
  have "4096 * page_number v + unat v mod 4096 = unat v" by (simp add: page_number_def)
  moreover have "4096 * page_number v < 4294967296" using page_number_less [of v] by simp
  moreover have "unat (of_nat (4096 * page_number v) :: u32) = 4096 * page_number v"
    using calculation(2) by (intro unat_of_nat_small) simp
  ultimately show "unat v = unat (of_nat (4096 * page_number v) + (v AND 0xfff))"
    using unat_less_u32 [of v] by (subst unat_add_small) (simp_all only: unat_and_0xfff, simp_all)
qed

lemma identity_entry:
  assumes "entry s (page_number v) = Some (of_nat (4096 * page_number v) OR 3)"
  shows "translate s v = Some v"
proof -
  have "unat (of_nat (4096 * page_number v) :: u32) mod 4096 = 0"
    using page_number_less [of v] unat_of_nat_small [where 'a = 32, of "4096 * page_number v"] by simp
  then have "frame (of_nat (4096 * page_number v)) = of_nat (4096 * page_number v)" by (rule frame_id)
  then show ?thesis unfolding translate_entry assms using page_split [of v] by simp
qed

lemma low_div: "(q :: nat) < 1024 \<Longrightarrow> q div 1024 = 0 \<and> q mod 1024 = q"
  by simp

lemma cr3_frame: "boot_tables s pmm \<Longrightarrow> frame (cr3 s) = cr3 s"
  by (intro frame_id) (simp add: boot_tables_def)

lemma identity_before: "boot_tables s pmm \<Longrightarrow> page_number v < 1024 \<Longrightarrow> translate s v = Some v"
  by (intro identity_entry) (simp add: entry_def boot_tables_def low_div)

text \<open>The directory with its own recursive entry.\<close>

definition recursive_tables :: "VMM \<Rightarrow> PMM \<Rightarrow> VMM" where
  "recursive_tables s pmm = s\<lparr>pmem := (pmem s)(cr3 s + 4 * of_nat 1023 := cr3 s OR 3), vmm_pmm := pmm\<rparr>"

lemma recursive_fields [simp]:
  "vmm_pmm (recursive_tables s pmm) = pmm" "cr3 (recursive_tables s pmm) = cr3 s"
  by (simp_all add: recursive_tables_def)

lemma boot_tables_cr3: "boot_tables s pmm \<Longrightarrow> unat (cr3 s) mod 4096 = 0"
  by (simp add: boot_tables_def)

lemma recursive_pde:
  assumes "boot_tables s pmm" "d < 1024"
  shows "pde (recursive_tables s pmm) d = (if d = 1023 then cr3 s OR 3 else pde s d)"
proof -
  note aligned = boot_tables_cr3 [OF assms(1)]
  have "cr3 s + 4 * of_nat d = cr3 s + 4 * of_nat 1023 \<longleftrightarrow> d = 1023"
    using slot_eq_iff [OF aligned aligned assms(2), of 1023] by simp
  then show ?thesis
    unfolding pde_def recursive_tables_def using cr3_frame [OF assms(1)] by (simp del: of_nat_numeral)
qed

lemma recursive_wf:
  assumes boot: "boot_tables s pmm"
  shows "vmm_wf (recursive_tables s pmm)"
proof -
  let ?u = "recursive_tables s pmm"
  note pd = recursive_pde [OF boot]
  have fields: "vmm_pmm ?u = pmm" "cr3 ?u = cr3 s" by (simp_all add: recursive_tables_def)
  have less: "d < 1023" if "d < 1024" "d \<noteq> 1023" for d :: nat using that by simp
  have last: "frame (pde ?u 1023) = cr3 s" "present (pde ?u 1023)" by (simp_all add: pd cr3_frame [OF boot])
  have tables: "unat (frame (pde ?u d)) \<in> used_frames pmm \<and> frame (pde ?u d) \<noteq> cr3 s"
    if "d < 1024" "d \<noteq> 1023" "present (pde ?u d)" for d
    using boot less [OF that(1,2)] that by (simp add: boot_tables_def pd)
  have distinct: "d = d'" if "d < 1024" "d \<noteq> 1023" "d' < 1024" "d' \<noteq> 1023"
    "present (pde ?u d)" "present (pde ?u d')" "frame (pde ?u d) = frame (pde ?u d')" for d d'
    using boot less that by (simp add: boot_tables_def pd)
  have "pmm_wf pmm" "aligned_zones pmm" "unat (cr3 s) \<in> used_frames pmm"
    using boot by (simp_all add: boot_tables_def)
  then have "unat (frame (pde ?u d)) \<in> used_frames pmm" if "d < 1024" "present (pde ?u d)" for d
    using that last tables by (cases "d = 1023") simp_all
  moreover have "d = d'" if "d < 1024" "d' < 1024" "present (pde ?u d)" "present (pde ?u d')"
    "frame (pde ?u d) = frame (pde ?u d')" for d d'
    using that last distinct tables by metis
  ultimately show ?thesis
    using last boot unfolding vmm_wf_def fields cr3_frame [OF boot] boot_tables_def by blast
qed

lemma recursive_entry:
  assumes boot: "boot_tables s pmm" and q: "q < 1047552"
  shows "entry (recursive_tables s pmm) q = entry s q"
proof -
  have d: "q div 1024 < 1023" "q mod 1024 < 1024" using q by auto
  then have pd: "pde (recursive_tables s pmm) (q div 1024) = pde s (q div 1024)" by (simp add: recursive_pde [OF boot])
  have "pte (recursive_tables s pmm) (q div 1024) (q mod 1024) = pte s (q div 1024) (q mod 1024)"
    if "present (pde s (q div 1024))"
  proof -
    have "frame (pde s (q div 1024)) \<noteq> cr3 s" using boot d that by (simp add: boot_tables_def)
    then have "frame (pde s (q div 1024)) + 4 * of_nat (q mod 1024) \<noteq> cr3 s + 4 * of_nat 1023"
      using slot_eq_iff [OF frame_aligned _ d(2), of "cr3 s" 1023] boot by (simp add: boot_tables_def)
    then show ?thesis unfolding pte_def pd by (simp add: recursive_tables_def)
  qed
  then show ?thesis by (simp add: entry_def pd)
qed

text \<open>
  The first steps of \<open>Init\<close>, through the identity mapping of the boot code: the recursive entry is
  written, and the entry of page 0 is cleared.
\<close>

lemma Init_first_steps:
  assumes boot: "boot_tables s pmm"
  shows "Init s pmm (cr3 s) = and_then (UnmapVirtual (set_entry 0 0 (recursive_tables s pmm)) 0xf0000 0x300)
    (\<lambda>(_, t). Inr (t\<lparr>cr3 := cr3 s AND NOT 0x3ff\<rparr>))"
proof -
  let ?u = "recursive_tables s pmm"
  define s1 where "s1 = s\<lparr>pmem := (pmem s)(cr3 s + 4 * of_nat 1023 := cr3 s OR 3)\<rparr>"
  have u: "s1\<lparr>vmm_pmm := pmm\<rparr> = ?u" by (simp add: s1_def recursive_tables_def)
  have aligned: "unat (cr3 s) mod 4096 = 0" and low: "page_number (cr3 s) < 1024"
    using boot by (simp_all add: boot_tables_def)
  have last: "unat (cr3 s + 4 * of_nat 1023) = unat (cr3 s) + 4 * 1023"
    by (rule unat_slot [OF aligned]) simp
  obtain k where "unat (cr3 s) = 4096 * k" using aligned by (auto elim: dvdE simp: mod_eq_0_iff_dvd)
  then have "page_number (cr3 s + 4 * of_nat 1023) = page_number (cr3 s)" using last by (simp add: page_number_def)
  then have t0: "translate s (cr3 s + 4 * of_nat 1023) = Some (cr3 s + 4 * of_nat 1023)"
    using identity_before [OF boot] low by simp
  have w0: "vwrite s (cr3 s + 4 * 1023) (cr3 s OR 3) = Inr s1" using t0 by (simp add: vwrite_def s1_def)
  have pd0: "pde ?u 0 = pde s 0" by (simp add: recursive_pde [OF boot])
  have r1: "vread s1 (pdir_at 0) = Inr (pde s 0)"
    using vread_pdir [OF recursive_wf [OF boot], of 0] pd0 by (simp flip: u)
  define T where "T = frame (pde s 0)"
  have T: "pde s 0 AND NOT 0x3ff = T" "page_number T < 1024" "present (pde s 0)"
    using boot by (simp_all add: boot_tables_def T_def)
  have "entry ?u (page_number T) = Some (of_nat (4096 * page_number T) OR 3)"
    using T boot by (subst recursive_entry [OF boot]) (simp_all add: entry_def boot_tables_def low_div)
  then have "translate ?u T = Some T" by (rule identity_entry)
  then have t1: "translate s1 T = Some T" unfolding u [symmetric] by simp
  define s2 where "s2 = s1\<lparr>pmem := (pmem s1)(T := 0)\<rparr>"
  have w2: "vwrite s1 T 0 = Inr s2" using t1 by (simp add: vwrite_def s2_def)
  have "pmem ?u = pmem s1" unfolding u [symmetric] by simp
  then have s2: "s2\<lparr>vmm_pmm := pmm\<rparr> = set_entry 0 0 ?u"
    unfolding set_entry_def using pd0 by (simp add: s2_def T_def flip: u)
  have div: "(0x300000 :: u32) div 4096 = 0x300" by simp
  obtain x y where "vread s (cr3 s + 4 * 1023) = Inr x" "vread s1 T = Inr y"
    using t0 t1 by (simp add: vread_def)
  then show ?thesis
    unfolding Init_def by (simp only: w0 r1 Let_def T w2 and_then.simps s2 div case_prod_conv)
qed

lemma recursive_tables_frames:
  assumes "boot_tables s pmm"
  shows "tables (recursive_tables s pmm) \<subseteq> insert (cr3 s) (tables s)"
proof
  fix f assume "f \<in> tables (recursive_tables s pmm)"
  then obtain d where d: "d < 1024" "present (pde (recursive_tables s pmm) d)" "f = frame (pde (recursive_tables s pmm) d)"
    unfolding tables_def by blast
  then show "f \<in> insert (cr3 s) (tables s)"
    using cr3_frame [OF assms] tablesI [of d s] by (cases "d = 1023") (simp_all add: recursive_pde [OF assms])
qed

lemma Init_char:
  assumes boot: "boot_tables s pmm"
  obtains t where "Init s pmm (cr3 s) = Inr t" "vmm_wf t" "vmm_pmm t = pmm"
    "\<forall>r<1047552. entry t r = (if r = 0 \<or> 0xf0 \<le> r \<and> r < 0x3f0
       then map_option (\<lambda>e. if r = 0 then 0 else e AND NOT 1) (entry s r) else entry s r)"
    "\<forall>a. frame a \<notin> insert (cr3 s) (tables s) \<longrightarrow> pmem t a = pmem s a"
proof -
  let ?u = "recursive_tables s pmm"
  have p0: "present (pde ?u (0 div 1024))" using boot by (simp add: recursive_pde [OF boot] boot_tables_def)
  note z = set_entry_page [OF recursive_wf [OF boot] _ p0, where x = 0, simplified]
  have "directories_present (set_entry 0 0 ?u) (page_number 0xf0000) (unat (0x300 :: u32))"
    using p0 z(2) [of 0] by (simp add: directories_present_def page_number_def)
  moreover have "(0x300 :: u32) \<noteq> 0" "page_number 0xf0000 + unat (0x300 :: u32) \<le> 1047552"
    by (simp_all add: page_number_def)
  ultimately obtain t where raw:
    "UnmapVirtual (set_entry 0 0 ?u) 0xf0000 0x300 = Inr (0x300, t)" "vmm_wf t"
    "cr3 t = cr3 (set_entry 0 0 ?u)" "vmm_pmm t = vmm_pmm (set_entry 0 0 ?u)"
    "\<forall>r<1047552. entry t r = (if page_number 0xf0000 \<le> r \<and> r < page_number 0xf0000 + unat (0x300 :: u32)
       then Some (the (entry (set_entry 0 0 ?u) r) AND NOT 1) else entry (set_entry 0 0 ?u) r)"
    "\<forall>d<1024. pde t d = pde (set_entry 0 0 ?u) d" "writes_tables (set_entry 0 0 ?u) t"
    using UnmapVirtual_char [OF z(1)] by blast
  have t: "cr3 t = cr3 s" "vmm_pmm t = pmm" "\<forall>r<1047552. entry t r = (if 0xf0 \<le> r \<and> r < 0x3f0
       then Some (the (entry (set_entry 0 0 ?u) r) AND NOT 1) else entry (set_entry 0 0 ?u) r)"
    using raw by (simp_all add: page_number_def)
  have "tables t = tables ?u" using raw(6) z(2) by (intro tables_cong) simp
  moreover have "writes_tables ?u t"
    using writes_tables_trans [OF writes_tables_set_entry [OF recursive_wf [OF boot] _ p0] raw(7)] by simp
  ultimately have "pmem t a = pmem ?u a" if "frame a \<notin> insert (cr3 s) (tables s)" for a
    using that recursive_tables_frames [OF boot] by (auto simp: writes_tables_def)
  moreover have "pmem ?u a = pmem s a" if "frame a \<noteq> cr3 s" for a
    using that frame_slot [of 1023 "cr3 s"] by (auto simp: recursive_tables_def cr3_frame [OF boot])
  ultimately have kept: "\<forall>a. frame a \<notin> insert (cr3 s) (tables s) \<longrightarrow> pmem t a = pmem s a" by simp
  have "unat (cr3 s) mod 1024 = 0"
    using mod_mod_cancel [of 1024 4096 "unat (cr3 s)"] boot by (simp add: boot_tables_def)
  then have "cr3 s AND NOT 0x3ff = cr3 s" by (intro unat_inj) (simp only: unat_and_not unat_and_0x3ff minus_nat.diff_0)
  then have "t\<lparr>cr3 := cr3 s AND NOT 0x3ff\<rparr> = t" using t(1) by simp
  then have "Init s pmm (cr3 s) = Inr t" unfolding Init_first_steps [OF boot] raw(1) by simp
  moreover have "entry s r = Some (pte s 0 r)" if "r < 1024" for r
    using that boot by (simp add: entry_def low_div boot_tables_def)
  ultimately show ?thesis
    using that [of t] raw(2) t(2,3) z(3) kept by (simp add: recursive_entry [OF boot])
qed

end
