(* ===== verification/VMM_Properties.thy ===== *)
theory VMM_Properties
  imports VMM_Init
begin

text \<open>
  The properties of the virtual memory manager, stated on the processor's translation of virtual
  addresses, each with a run on a concrete set of page tables.
\<close>

unbundle bit_operations_syntax

section \<open>Sample states\<close>

text \<open>
  A page directory at 0x110000, mapped recursively, with one empty table at 0x111000 for the
  4 MB from 0xC0400000 on; 64 pages of memory at 1 MB of which these two are in use.
\<close>

definition table_pmm :: PMM where
  "table_pmm = \<lparr>zones = [\<lparr>start = 0x100000, first_free_addr = 0x100000, pagecount = 64,
     zone_type = Normal, alloc_bitmap = 0x1000\<rparr>], bitmap_mem = (\<lambda>_. 0)(0x1002 := 3)\<rparr>"

definition sample_vmm :: VMM where
  "sample_vmm = \<lparr>vmm_pmm = table_pmm,
     pmem = (\<lambda>_. 0)(0x110ffc := 0x110003, 0x110c04 := 0x111003),
     cr3 = 0x110000, vzones = initial_vzones\<rparr>"

lemma sample_pde:
  assumes "d < 1024"
  shows "pde sample_vmm d = (if d = 1023 then 0x110003 else if d = 769 then 0x111003 else 0)"
proof -
  have "0x110000 + 4 * of_nat d = (0x110ffc :: u32) \<longleftrightarrow> d = 1023"
    "0x110000 + 4 * of_nat d = (0x110c04 :: u32) \<longleftrightarrow> d = 769"
    using slot_eq_iff [of "0x110000" "0x110000" d 1023] slot_eq_iff [of "0x110000" "0x110000" d 769] assms
    by simp_all
  then show ?thesis by (auto simp: pde_def sample_vmm_def frame_def)
qed

lemma table_pmm_wf: "pmm_wf table_pmm" "aligned_zones table_pmm"
  by (simp_all add: pmm_wf_def aligned_zones_def table_pmm_def zone_end_def)

lemma table_pmm_used: "0x110000 \<in> used_frames table_pmm" "0x111000 \<in> used_frames table_pmm"
  unfolding used_frames_def
  by (auto simp: table_pmm_def zone_used_def page_used_def bit_simps
      intro!: exI [of _ "0 :: nat"] exI [of _ "16 :: nat"] exI [of _ "17 :: nat"])

lemma sample_vmm_wf: "vmm_wf sample_vmm"
proof -
  have present: "present (pde sample_vmm d) \<longleftrightarrow> d = 1023 \<or> d = 769" if "d < 1024" for d
    using that by (simp add: sample_pde present_def)
  have "frame (cr3 sample_vmm) = 0x110000" "vmm_pmm sample_vmm = table_pmm"
    by (simp_all add: sample_vmm_def frame_def)
  then show ?thesis
    using table_pmm_wf table_pmm_used
    by (auto simp: vmm_wf_def present sample_pde frame_def present_def)
qed

lemma table_pmm_free: "k < 8 \<Longrightarrow> \<not> zone_used table_pmm 0 k"
  by (simp add: zone_used_def page_used_def table_pmm_def)

lemma table_pmm_can: "can_allocate table_pmm 1 Normal" "can_allocate table_pmm 2 Normal"
  using table_pmm_free
  by (auto simp: can_allocate_def eligible_def first_offset_def table_pmm_def
      intro!: exI [of _ "0::nat"] bexI [of _ "0::nat"])

lemma sample_vmm_zones [simp]:
  "vzones sample_vmm = initial_vzones" "vmm_pmm sample_vmm = table_pmm"
  by (simp_all add: sample_vmm_def)

section \<open>Mapping\<close>

lemma MapPhysicalToVirtual_run:
  assumes wf: "vmm_wf s" and can: "can_map s (page_number virt) (unat n)"
    and phys: "unat phys mod 4096 = 0" and flags: "bit flags 0"
  obtains t where "MapPhysicalToVirtual s phys n virt flags = Inr (n, t)" "vmm_wf t" "vzones t = vzones s"
    "used_frames (vmm_pmm s) \<subseteq> used_frames (vmm_pmm t)"
    "\<forall>v. page_number v < 1047552 \<longrightarrow> translate t v =
      (if page_number virt \<le> page_number v \<and> page_number v < page_number virt + unat n
       then Some (phys + 4096 * of_nat (page_number v - page_number virt) + (v AND 0xfff))
       else translate s v)"
    "writes_tables s t"
proof -
  from MapPhysicalToVirtual_char [OF wf can, of phys flags] obtain t where t:
    "MapPhysicalToVirtual s phys n virt flags = Inr (n, t)" "vmm_wf t" "vzones t = vzones s"
    "used_frames (vmm_pmm s) \<subseteq> used_frames (vmm_pmm t)"
    "\<forall>r<1047552. entry t r =
      (if page_number virt \<le> r \<and> r < page_number virt + unat n
       then Some ((phys + 4096 * of_nat (r - page_number virt)) OR (ucast flags AND 0x7f))
       else if present (pde s (page_number virt div 1024)) \<or> r div 1024 \<noteq> page_number virt div 1024
       then entry s r else Some 0)"
    "writes_tables s t"
    by blast
  have pres: "present ((phys + 4096 * x) OR (ucast flags AND 0x7f))" for x
    using frame_multiple [OF phys, of x] present_flags [of "phys + 4096 * x" flags] flags by simp
  have zero: "\<not> present 0" by (simp add: present_def)
  have none: "entry s r = None" if "\<not> present (pde s (r div 1024))" for r
    using that by (simp add: entry_def)
  have "translate t v = Some (phys + 4096 * of_nat (page_number v - page_number virt) + (v AND 0xfff))"
    if "page_number v < 1047552" "page_number virt \<le> page_number v"
      "page_number v < page_number virt + unat n" for v
    unfolding translate_entry using t(5) that by (simp only: option.case pres frame_run [OF phys] if_True simp_thms)
  moreover have "translate t v = translate s v" if "page_number v < 1047552"
    "\<not> (page_number virt \<le> page_number v \<and> page_number v < page_number virt + unat n)" for v
  proof -
    have "entry t (page_number v) = entry s (page_number v) \<or>
        entry t (page_number v) = Some 0 \<and> entry s (page_number v) = None"
      using t(5) that none [of "page_number v"] by metis
    then show ?thesis unfolding translate_entry using zero by auto
  qed
  ultimately show ?thesis using that [OF t(1-4) _ t(6)] by simp
qed

text \<open>
  C8. \<open>MapPhysicalToVirtual\<close> maps the run: afterwards every address of its pages translates to
  the corresponding address of the physical run, and every other address below the window of the
  page tables translates as before. The first directory of the run may be missing.
\<close>

theorem MapPhysicalToVirtual_translates:
  assumes wf: "vmm_wf s" and can: "can_map s (page_number virt) (unat n)"
    and phys: "unat phys mod 4096 = 0" and flags: "bit flags 0"
  shows "\<exists>t. MapPhysicalToVirtual s phys n virt flags = Inr (n, t) \<and> vmm_wf t \<and>
    (\<forall>v. page_number v < 1047552 \<longrightarrow> translate t v =
      (if page_number virt \<le> page_number v \<and> page_number v < page_number virt + unat n
       then Some (phys + 4096 * of_nat (page_number v - page_number virt) + (v AND 0xfff))
       else translate s v))"
  using MapPhysicalToVirtual_run [OF assms] by metis

lemma sample_can_map: "can_map sample_vmm (page_number 0x400000) (unat (2 :: u32))"
proof -
  have "p div 1024 = 1" if "1024 \<le> p" "p \<le> 1026" for p :: nat using that by auto
  then show ?thesis
    using table_pmm_can by (auto simp: can_map_def page_number_def)
qed

theorem MapPhysicalToVirtual_translates_witness:
  "\<exists>t. MapPhysicalToVirtual sample_vmm 0x800000 2 0x400000 3 = Inr (2, t) \<and>
    translate t 0x401234 = Some 0x801234"
proof -
  from MapPhysicalToVirtual_translates [OF sample_vmm_wf sample_can_map, of "0x800000" 3]
  obtain t where t: "MapPhysicalToVirtual sample_vmm 0x800000 2 0x400000 3 = Inr (2, t)"
    "\<forall>v. page_number v < 1047552 \<longrightarrow> translate t v =
      (if page_number 0x400000 \<le> page_number v \<and> page_number v < page_number 0x400000 + unat (2 :: u32)
       then Some (0x800000 + 4096 * of_nat (page_number v - page_number 0x400000) + (v AND 0xfff))
       else translate sample_vmm v)"
    by (auto simp: bit_simps)
  then have "translate t 0x401234 = Some 0x801234"
    using t(2) [rule_format, of "0x401234"] by (simp add: page_number_def)
  with t(1) show ?thesis by blast
qed

text \<open>
  C9. \<open>UnmapVirtual\<close>: afterwards no address of the run translates, and all others as before.
\<close>

theorem UnmapVirtual_translates:
  assumes wf: "vmm_wf s" and n: "n \<noteq> 0" "page_number virt + unat n \<le> 1047552"
    and dirs: "directories_present s (page_number virt) (unat n)"
  shows "\<exists>t. UnmapVirtual s virt n = Inr (n, t) \<and> vmm_wf t \<and>
    (\<forall>v. page_number v < 1047552 \<longrightarrow> translate t v =
      (if page_number virt \<le> page_number v \<and> page_number v < page_number virt + unat n
       then None else translate s v))"
proof -
  from UnmapVirtual_char [OF assms] obtain t where t:
    "UnmapVirtual s virt n = Inr (n, t)" "vmm_wf t"
    "\<forall>r<1047552. entry t r = (if page_number virt \<le> r \<and> r < page_number virt + unat n
       then Some (the (entry s r) AND NOT 1) else entry s r)"
    by blast
  have "translate t v = (if page_number virt \<le> page_number v \<and> page_number v < page_number virt + unat n
       then None else translate s v)" if "page_number v < 1047552" for v
  proof (cases "page_number virt \<le> page_number v \<and> page_number v < page_number virt + unat n")
    case True
    then have "entry t (page_number v) = Some (the (entry s (page_number v)) AND NOT 1)"
      using t(3) that by metis
    then show ?thesis unfolding translate_entry using True by (simp only: option.case present_and_not_1 if_False if_True simp_thms)
  next
    case False
    then have "entry t (page_number v) = entry s (page_number v)" using t(3) that by metis
    then show ?thesis unfolding translate_entry using False by auto
  qed
  then show ?thesis using t(1,2) by blast
qed

lemma sample_directories:
  "directories_present sample_vmm (page_number 0xC0401000) (unat (3 :: u32))"
proof -
  have "p div 1024 = 769" if "0xC0401 \<le> p" "p < 0xC0404" for p :: nat using that by auto
  then show ?thesis by (simp add: directories_present_def page_number_def sample_pde present_def)
qed

theorem UnmapVirtual_translates_witness:
  "\<exists>t. UnmapVirtual sample_vmm 0xC0401000 3 = Inr (3, t) \<and> translate t 0xC0402000 = None"
proof -
  from UnmapVirtual_translates [OF sample_vmm_wf _ _ sample_directories]
  obtain t where t: "UnmapVirtual sample_vmm 0xC0401000 3 = Inr (3, t)"
    "\<forall>v. page_number v < 1047552 \<longrightarrow> translate t v =
      (if page_number 0xC0401000 \<le> page_number v \<and> page_number v < page_number 0xC0401000 + unat (3 :: u32)
       then None else translate sample_vmm v)"
    by (auto simp: page_number_def)
  then have "translate t 0xC0402000 = None"
    using t(2) [rule_format, of "0xC0402000"] by (simp add: page_number_def)
  with t(1) show ?thesis by blast
qed


section \<open>Allocating virtual pages\<close>

text \<open>
  What an allocation needs: room in the virtual zone, physical pages, and directories for the
  virtual run, or a page for the first of them.
\<close>

definition can_allocate_virtual :: "VMM \<Rightarrow> u32 \<Rightarrow> u32 \<Rightarrow> VMMZone \<Rightarrow> bool" where
  "can_allocate_virtual s pzone n z \<longleftrightarrow> n \<noteq> 0 \<and>
     unat (last_vaddr (vzones s z)) + 4096 * unat n \<le> unat (addr_end (vzones s z)) \<and>
     can_allocate (vmm_pmm s) n pzone \<and>
     (\<forall>p pmm. AllocatePhysical (vmm_pmm s) n pzone = Inr (p, pmm) \<longrightarrow>
        can_map (s\<lparr>vmm_pmm := pmm\<rparr>) (page_number (last_vaddr (vzones s z))) (unat n))"

text \<open>
  C10. \<open>AllocateVirtualPhysical\<close> returns the next address of the zone and moves it on by the
  run; the pages translate to physical pages none of which was in use, which are now in use, and
  no other translation below the window of the page tables changes.
\<close>

theorem AllocateVirtualPhysical_correct:
  assumes wf: "vmm_wf s" and can: "can_allocate_virtual s pzone n z" and flags: "bit flags 0"
  defines "v \<equiv> last_vaddr (vzones s z)"
  shows "\<exists>p t. AllocateVirtualPhysical s pzone n flags z = Inr (v, p, t) \<and> vmm_wf t \<and>
    vzones t = (vzones s)(z := (vzones s z)\<lparr>last_vaddr := v + 4096 * n\<rparr>) \<and>
    frames (unat p) (unat n) \<inter> used_frames (vmm_pmm s) = {} \<and>
    used_frames (vmm_pmm s) \<union> frames (unat p) (unat n) \<subseteq> used_frames (vmm_pmm t) \<and>
    (\<forall>w. page_number w < 1047552 \<longrightarrow> translate t w =
      (if page_number v \<le> page_number w \<and> page_number w < page_number v + unat n
       then Some (p + 4096 * of_nat (page_number w - page_number v) + (w AND 0xfff))
       else translate s w))"
proof -
  have pcan: "can_allocate (vmm_pmm s) n pzone" using can by (simp add: can_allocate_virtual_def)
  obtain p pmm where a: "AllocatePhysical (vmm_pmm s) n pzone = Inr (p, pmm)"
    using pmm.alloc_ok [OF vmm_wfD(1) [OF wf] pcan] by blast
  note r = vmm_wf_allocate [OF wf pcan a]
  let ?s = "s\<lparr>vmm_pmm := pmm\<rparr>"
  have map: "can_map ?s (page_number v) (unat n)"
    using can a by (simp add: can_allocate_virtual_def v_def)
  from MapPhysicalToVirtual_run [OF r(1) map r(4) flags] obtain t where t:
    "MapPhysicalToVirtual ?s p n v flags = Inr (n, t)" "vmm_wf t" "vzones t = vzones ?s"
    "used_frames (vmm_pmm ?s) \<subseteq> used_frames (vmm_pmm t)"
    "\<forall>w. page_number w < 1047552 \<longrightarrow> translate t w =
      (if page_number v \<le> page_number w \<and> page_number w < page_number v + unat n
       then Some (p + 4096 * of_nat (page_number w - page_number v) + (w AND 0xfff))
       else translate ?s w)"
    "writes_tables ?s t" .
  let ?t = "t\<lparr>vzones := (vzones s)(z := (vzones s z)\<lparr>last_vaddr := v + 4096 * n\<rparr>)\<rparr>"
  have fits: "\<not> v + 4096 * n - 1 \<ge> addr_end (vzones s z)"
    using can zone_room [where v = v and n = n and e = "addr_end (vzones s z)"]
    by (simp add: can_allocate_virtual_def v_def not_le)
  have "p \<noteq> 0xffffffff" using r(4) by auto
  then have res: "AllocateVirtualPhysical s pzone n flags z = Inr (v, p, ?t)"
    using fits by (simp add: AllocateVirtualPhysical_def v_def [symmetric] a t(1,3) Let_def)
  have "vmm_wf ?t" using t(2) by (rule vmm_wf_vzones)
  then show ?thesis
    using res r(2,3) t(4,5) by (intro exI [of _ p] exI [of _ ?t]) simp
qed

lemma sample_can_allocate_virtual: "can_allocate_virtual sample_vmm Normal 2 ZKernel"
proof -
  have "p div 1024 = 769" if "787456 \<le> p" "p \<le> 787458" for p :: nat using that by auto
  then show ?thesis
    using table_pmm_can
    by (auto simp: can_allocate_virtual_def can_map_def page_number_def sample_vmm_zones sample_pde present_def)
qed

theorem AllocateVirtualPhysical_correct_witness:
  "\<exists>p t. AllocateVirtualPhysical sample_vmm Normal 2 3 ZKernel = Inr (0xC0400000, p, t) \<and>
    translate t 0xC0401008 = Some (p + 0x1008) \<and> last_vaddr (vzones t ZKernel) = 0xC0402000"
proof -
  from AllocateVirtualPhysical_correct [OF sample_vmm_wf sample_can_allocate_virtual, of 3]
  obtain p t where t: "AllocateVirtualPhysical sample_vmm Normal 2 3 ZKernel = Inr (0xC0400000, p, t)"
    "last_vaddr (vzones t ZKernel) = 0xC0402000"
    "\<forall>w. page_number w < 1047552 \<longrightarrow> translate t w =
      (if 787456 \<le> page_number w \<and> page_number w < 787458
       then Some (p + 4096 * of_nat (page_number w - 787456) + (w AND 0xfff))
       else translate sample_vmm w)"
    by (auto simp: sample_vmm_zones page_number_def bit_simps)
  then have "translate t 0xC0401008 = Some (p + 0x1008)"
    using t(3) [rule_format, of "0xC0401008"] by (simp add: page_number_def add.assoc)
  with t show ?thesis by blast
qed

section \<open>A directory that is not cleared\<close>

definition dirty_vmm :: VMM where
  "dirty_vmm = sample_vmm\<lparr>pmem := (pmem sample_vmm)(0x100000 := 0x200003)\<rparr>"

definition mapped_last_page :: "VMM result" where
  "mapped_last_page = and_then (MapPhysicalToVirtual dirty_vmm 0x300000 1 0xC07FF000 3) (\<lambda>(_, t). Inr t)"

text \<open>
  Only the first directory of a run is cleared. When the run ends at the end of a directory,
  the next one is added with whatever its frame held before: here the frame holds the word
  0x200003, and mapping one page at 0xC07FF000 makes the address 0xC0800000, which was never
  mapped, translate to 0x200000.
\<close>

lemma MapPhysicalToVirtual_leaves_garbage:
  "translate dirty_vmm 0xC0800000 = None \<and>
   (case mapped_last_page of Inl _ \<Rightarrow> False | Inr t \<Rightarrow>
      translate t 0xC07FF000 = Some 0x300000 \<and> translate t 0xC0800000 = Some 0x200000)"
proof -
  have alloc: "AllocatePhysical table_pmm 1 Normal = Inr (0x100000, take_pages table_pmm 0 0 1)"
    by (simp add: table_pmm_def AllocatePhysical_def search_free.simps CheckIfPagesFree_iff
        page_used_def take_pages_def Let_def)
  then show ?thesis
    by (simp add: mapped_last_page_def MapPhysicalToVirtual_def dirty_vmm_def sample_vmm_def vread_def
        vwrite_def translate_def frame_def present_def dirindex_of_def tableindex_of_def pdir_at_def
        ptbl_at_def add_directory_def MapPageDirectoryIndex_def Let_def)
qed

section \<open>Initialisation\<close>

lemma Init_translates:
  assumes "boot_tables s pmm"
  shows "\<exists>t. Init s pmm (cr3 s) = Inr t \<and> vmm_wf t \<and> vmm_pmm t = pmm \<and>
    (\<forall>v. page_number v < 1047552 \<longrightarrow> translate t v =
      (if page_number v = 0 \<or> 0xf0 \<le> page_number v \<and> page_number v < 0x3f0 then None
       else translate s v)) \<and>
    (\<forall>a. frame a \<notin> insert (cr3 s) (tables s) \<longrightarrow> pmem t a = pmem s a)"
proof -
  from Init_char [OF assms] obtain t where t: "Init s pmm (cr3 s) = Inr t" "vmm_wf t" "vmm_pmm t = pmm"
    "\<forall>r<1047552. entry t r = (if r = 0 \<or> 0xf0 \<le> r \<and> r < 0x3f0
       then map_option (\<lambda>e. if r = 0 then 0 else e AND NOT 1) (entry s r) else entry s r)"
    "\<forall>a. frame a \<notin> insert (cr3 s) (tables s) \<longrightarrow> pmem t a = pmem s a" .
  have zero: "\<not> present 0" by (simp add: present_def)
  have "translate t v = (if page_number v = 0 \<or> 0xf0 \<le> page_number v \<and> page_number v < 0x3f0 then None
       else translate s v)" if "page_number v < 1047552" for v
  proof (cases "page_number v = 0 \<or> 0xf0 \<le> page_number v \<and> page_number v < 0x3f0")
    case True
    then have "entry t (page_number v) =
        map_option (\<lambda>e. if page_number v = 0 then 0 else e AND NOT 1) (entry s (page_number v))"
      using t(4) that by metis
    moreover have "\<not> present (if page_number v = 0 then 0 else e AND NOT 1)" for e
      using zero present_and_not_1 by metis
    ultimately show ?thesis unfolding translate_entry using True
      by (cases "entry s (page_number v)") (simp_all only: option.map option.case if_False if_True)
  next
    case False
    then have "entry t (page_number v) = entry s (page_number v)" using t(4) that by metis
    then show ?thesis unfolding translate_entry using False by (simp only: if_False)
  qed
  then show ?thesis using t by blast
qed

text \<open>
  C13. \<open>Init\<close> on the tables of the boot code installs the recursive mapping, so that the invariant
  of the manager holds, and unmaps page 0 and the pages 0xf0 to 0x3ef of the identity mapping; all
  other translations below the window of the page tables stay. Nothing but the directory and its
  tables is written.
\<close>

theorem VMM_Init_correct:
  assumes "boot_tables s pmm"
  shows "\<exists>t. Init s pmm (cr3 s) = Inr t \<and> vmm_wf t \<and> vmm_pmm t = pmm \<and>
    (\<forall>v. page_number v < 1047552 \<longrightarrow> translate t v =
      (if page_number v = 0 \<or> 0xf0 \<le> page_number v \<and> page_number v < 0x3f0 then None
       else translate s v)) \<and>
    (\<forall>a. frame a \<notin> insert (cr3 s) (tables s) \<longrightarrow> pmem t a = pmem s a)"
  using Init_translates [OF assms] .

text \<open>The boot tables at 0x110000, 0x111000 and 0x112000.\<close>

definition boot_pmm :: PMM where
  "boot_pmm = table_pmm\<lparr>bitmap_mem := (\<lambda>_. 0)(0x1002 := 7)\<rparr>"

definition boot_vmm :: VMM where
  "boot_vmm = \<lparr>vmm_pmm = table_pmm,
     pmem = (\<lambda>a. if a = 0x110000 then 0x111003 else if a = 0x110c00 then 0x112003
                 else if 0x111000 \<le> a \<and> a < 0x113000 then (a AND 0xfff) * 1024 OR 3 else 0),
     cr3 = 0x110000, vzones = initial_vzones\<rparr>"

lemma boot_pde:
  assumes "d < 1024"
  shows "pde boot_vmm d = (if d = 0 then 0x111003 else if d = 768 then 0x112003 else 0)"
proof -
  have "0x110000 + 4 * of_nat d = (0x110000 :: u32) \<longleftrightarrow> d = 0"
    "0x110000 + 4 * of_nat d = (0x110c00 :: u32) \<longleftrightarrow> d = 768"
    using slot_eq_iff [of "0x110000" "0x110000" d 0] slot_eq_iff [of "0x110000" "0x110000" d 768] assms
    by simp_all
  moreover have "unat (0x110000 + 4 * of_nat d :: u32) = 0x110000 + 4 * d"
    using assms by (subst unat_slot) simp_all
  then have "\<not> 0x111000 \<le> (0x110000 + 4 * of_nat d :: u32)"
    using assms by (simp add: word_le_nat_alt)
  ultimately show ?thesis by (auto simp: pde_def boot_vmm_def frame_def)
qed

lemma boot_pte:
  assumes "d \<in> {0, 768}" "q < 1024"
  shows "pte boot_vmm d q = of_nat (4096 * q) OR 3"
proof -
  obtain c where c: "unat (frame (pde boot_vmm d)) = 4096 * c" "c \<in> {0x111, 0x112}"
    using assms(1) by (auto simp: boot_pde frame_def)
  let ?a = "frame (pde boot_vmm d) + 4 * of_nat q :: u32"
  have u: "unat ?a = 4096 * c + 4 * q" using c assms(2) by (subst unat_slot) simp_all
  then have "0x111000 \<le> ?a" "?a < 0x113000"
    using assms(2) c(2) by (auto simp: word_le_nat_alt word_less_nat_alt)
  moreover have "unat ?a \<noteq> unat (0x110000 :: u32)" "unat ?a \<noteq> unat (0x110c00 :: u32)"
    using c(2) unfolding u by auto
  then have "?a \<noteq> 0x110000" "?a \<noteq> 0x110c00" by metis+
  moreover have "?a AND 0xfff = 4 * of_nat q"
    by (rule unat_inj) (use assms(2) in \<open>simp only: unat_and_0xfff u unat_4_mult, simp\<close>)
  ultimately show ?thesis unfolding pte_def by (simp add: boot_vmm_def)
qed

lemma boot_pmm_wf: "pmm_wf boot_pmm" "aligned_zones boot_pmm"
  by (simp_all add: pmm_wf_def aligned_zones_def boot_pmm_def table_pmm_def zone_end_def)

lemma boot_pmm_used:
  "0x110000 \<in> used_frames boot_pmm" "0x111000 \<in> used_frames boot_pmm" "0x112000 \<in> used_frames boot_pmm"
  using used_frames_page [OF boot_pmm_wf(1), of 0 16] used_frames_page [OF boot_pmm_wf(1), of 0 17]
    used_frames_page [OF boot_pmm_wf(1), of 0 18]
  by (simp_all add: boot_pmm_def table_pmm_def zone_used_def page_used_def bit_simps)

lemma boot_vmm_tables: "boot_tables boot_vmm boot_pmm"
proof -
  have cr: "cr3 boot_vmm = 0x110000" by (simp add: boot_vmm_def)
  have present: "present (pde boot_vmm d) \<longleftrightarrow> d = 0 \<or> d = 768" if "d < 1023" for d
    using that by (simp add: boot_pde present_def)
  have frames: "frame (pde boot_vmm 0) = 0x111000" "frame (pde boot_vmm 768) = 0x112000"
    by (simp_all add: boot_pde frame_def)
  have "pde boot_vmm 0 AND NOT 0x3ff = frame (pde boot_vmm 0)" by (simp add: boot_pde frame_def)
  then show ?thesis
    using boot_pmm_wf boot_pmm_used boot_pte
    by (auto simp: boot_tables_def cr present frames page_number_def)
qed

theorem VMM_Init_correct_witness:
  "\<exists>t. Init boot_vmm boot_pmm 0x110000 = Inr t \<and> vmm_wf t \<and>
    translate t 0x100000 = None \<and> translate boot_vmm 0x100000 \<noteq> None"
proof -
  have cr: "cr3 boot_vmm = 0x110000" by (simp add: boot_vmm_def)
  from VMM_Init_correct [OF boot_vmm_tables, unfolded cr]
  obtain t where t: "Init boot_vmm boot_pmm 0x110000 = Inr t" "vmm_wf t"
    "\<forall>v. page_number v < 1047552 \<longrightarrow> translate t v =
      (if page_number v = 0 \<or> 0xf0 \<le> page_number v \<and> page_number v < 0x3f0 then None
       else translate boot_vmm v)"
    by blast
  have "translate t 0x100000 = None"
    using t(3) [rule_format, of "0x100000"] by (simp add: page_number_def)
  moreover have "translate boot_vmm 0x100000 \<noteq> None"
    using identity_before [OF boot_vmm_tables, of "0x100000"] by (simp add: page_number_def)
  ultimately show ?thesis using t by blast
qed

end
