(* ===== verification/VMM_Pages.thy ===== *)
theory VMM_Pages
  imports VMM_Properties PMM_Properties
begin

text \<open>
  The loops over the pages of a run against page-by-page references: mapping and unmapping a run
  in one call is the same as one call for each of its pages, each of which computes its
  directory and table from the address anew.
\<close>

unbundle bit_operations_syntax

section \<open>Page by page\<close>

fun map_pages :: "nat \<Rightarrow> u32 \<Rightarrow> u32 \<Rightarrow> u8 \<Rightarrow> VMM \<Rightarrow> VMM result" where
  "map_pages 0 phys virt flags s = Inr s"
| "map_pages (Suc k) phys virt flags s =
     and_then (MapPhysicalToVirtual s phys 1 virt flags) (\<lambda>(_, s). map_pages k (phys + 4096) (virt + 4096) flags s)"

fun unmap_pages :: "nat \<Rightarrow> u32 \<Rightarrow> VMM \<Rightarrow> VMM result" where
  "unmap_pages 0 virt s = Inr s"
| "unmap_pages (Suc k) virt s =
     and_then (UnmapVirtual s virt 1) (\<lambda>(_, s). unmap_pages k (virt + 4096) s)"

lemma page_number_Suc:
  assumes "page_number virt + 1 < 1048576"
  shows "page_number (virt + 4096) = Suc (page_number virt)"
proof -
  have "unat virt + 4096 < 2 ^ 32" using assms by (simp add: page_number_def)
  then have "unat (virt + 4096) = unat virt + 4096" by (subst unat_add_small) simp_all
  then show ?thesis by (simp add: page_number_def)
qed

section \<open>Mapping\<close>

text \<open>
  The directories that are missing for the pages \<open>q\<close> to \<open>q + k\<close>: the loop also looks at the one of
  the page behind a run of \<open>k\<close>. \<open>pages_for\<close>: the allocator can hand out that many single pages.
\<close>

definition missing :: "VMM \<Rightarrow> nat \<Rightarrow> nat \<Rightarrow> nat" where
  "missing s q k = length (filter (\<lambda>d. \<not> present (pde s d)) [q div 1024..<Suc ((q + k) div 1024)])"

definition pages_for :: "nat \<Rightarrow> VMM \<Rightarrow> bool" where
  "pages_for n s \<longleftrightarrow> can_allocate_each Normal (vmm_pmm s) (replicate n 1)"

lemma pages_for_Suc:
  "pages_for (Suc n) s \<Longrightarrow> can_allocate (vmm_pmm s) 1 Normal"
  "pages_for (Suc n) s \<Longrightarrow> AllocatePhysical (vmm_pmm s) 1 Normal = Inr (p, vmm_pmm t) \<Longrightarrow> pages_for n t"
  by (simp_all add: pages_for_def)

lemma missing_cong:
  assumes "\<And>d. d \<le> (q + k) div 1024 \<Longrightarrow> present (pde t d) = present (pde s d)"
  shows "missing t q k = missing s q k"
proof -
  have "filter (\<lambda>d. \<not> present (pde t d)) [q div 1024..<Suc ((q + k) div 1024)] =
      filter (\<lambda>d. \<not> present (pde s d)) [q div 1024..<Suc ((q + k) div 1024)]"
    using assms by (intro filter_cong) auto
  then show ?thesis by (simp only: missing_def)
qed

lemma missing_head:
  "missing s q k = (if present (pde s (q div 1024)) then 0 else 1) +
     length (filter (\<lambda>d. \<not> present (pde s d)) [Suc (q div 1024)..<Suc ((q + k) div 1024)])"
proof -
  have "q div 1024 < Suc ((q + k) div 1024)" by (simp add: div_le_mono less_Suc_eq_le)
  then show ?thesis by (simp add: missing_def upt_conv_Cons del: upt_Suc)
qed

text \<open>Once the first directory is there, one less is missing.\<close>

lemma missing_added:
  assumes "\<not> present (pde s (q div 1024))" "present (pde t (q div 1024))"
    and "\<And>d. d \<le> (q + k) div 1024 \<Longrightarrow> d \<noteq> q div 1024 \<Longrightarrow> present (pde t d) = present (pde s d)"
  shows "missing s q k = Suc (missing t q k)"
proof -
  have "filter (\<lambda>d. \<not> present (pde t d)) [Suc (q div 1024)..<Suc ((q + k) div 1024)] =
      filter (\<lambda>d. \<not> present (pde s d)) [Suc (q div 1024)..<Suc ((q + k) div 1024)]"
    using assms(3) by (intro filter_cong) auto
  then show ?thesis using assms(1,2) by (simp add: missing_head)
qed

lemma missing_Suc:
  assumes "present (pde s (q div 1024))"
  shows "missing s (Suc q) k = missing s q (Suc k)"
proof (cases "Suc (q mod 1024) = 1024")
  case True
  then have "Suc q div 1024 = Suc (q div 1024)" using Suc_mod_div(1) [of 1024 q] by simp
  moreover have "missing s q (Suc k) = length (filter (\<lambda>d. \<not> present (pde s d)) [Suc (q div 1024)..<Suc ((q + Suc k) div 1024)])"
    using missing_head [of s q "Suc k"] assms by simp
  ultimately show ?thesis by (simp only: missing_def add_Suc add_Suc_right)
next
  case False
  then have "Suc q div 1024 = q div 1024" using Suc_mod_div(2) [of 1024 q] by simp
  then show ?thesis by (simp only: missing_def add_Suc add_Suc_right)
qed

lemma vwrite_pmm: "vwrite s a x = Inr t \<Longrightarrow> vmm_pmm t = vmm_pmm s"
  by (auto simp: vwrite_def split: option.splits)

lemma vclear_pmm: "vclear k a s = Inr t \<Longrightarrow> vmm_pmm t = vmm_pmm s"
  by (induction k arbitrary: a s) (auto elim!: and_then_InrE dest: vwrite_pmm)

lemma add_directory_pmm:
  "add_directory s d = Inr t \<Longrightarrow> \<exists>p. AllocatePhysical (vmm_pmm s) 1 Normal = Inr (p, vmm_pmm t)"
  by (auto simp: add_directory_def MapPageDirectoryIndex_def elim!: and_then_InrE dest: vwrite_pmm split: if_splits)

text \<open>
  One page: its entry is stored and the directory of the next page is added if need be. A call for
  one page comes to the same state as one step of the loop.
\<close>

lemma one_page:
  fixes phys :: u32 and flags :: u8
  assumes wf: "vmm_wf s" and q: "q + Suc k \<le> 1047552" "present (pde s (q div 1024))"
    and room: "pages_for (missing s q (Suc k)) s"
  obtains t where
    "\<forall>j. map_loop (Suc j) (of_nat q) phys (of_nat (q mod 1024)) (of_nat (q div 1024)) flags s =
      map_loop j (of_nat (Suc q)) (phys + 4096) (of_nat (Suc q mod 1024)) (of_nat (Suc q div 1024)) flags t"
    "vmm_wf t" "present (pde t (Suc q div 1024))" "pages_for (missing t (Suc q) k) t"
    "\<forall>d<1024. present (pde s d) \<longrightarrow> pde t d = pde s d"
    "\<forall>r<1047552. present (pde s (r div 1024)) \<longrightarrow> entry t r = (if r = q then Some (phys OR (ucast flags AND 0x7f)) else entry s r)"
proof -
  let ?s = "set_entry q (phys OR (ucast flags AND 0x7f)) s" and ?d = "Suc q div 1024"
  have q': "q < 1047552" and d: "?d < 1024" and below: "(Suc q + k) div 1024 < 1024" using q(1) by auto
  note one = set_entry_page [OF wf q' q(2), where x = "phys OR (ucast flags AND 0x7f)"]
  note loop = map_loop_Suc [OF wf q' q(2), of _ phys flags]
  have "missing ?s (Suc q) k = missing s (Suc q) k" by (rule missing_cong) (use one(2) below in simp)
  then have room': "pages_for (missing ?s (Suc q) k) ?s" using room missing_Suc [OF q(2), of k] by (simp add: pages_for_def)
  show ?thesis
  proof (cases "present (pde s ?d)")
    case True
    then show ?thesis using that [of ?s] loop one d room' by simp
  next
    case False
    then have "?d \<noteq> 1023" using vmm_wfD(3) [OF wf] by metis
    then have new: "?d < 1023" "\<not> present (pde ?s ?d)" using False one(2) [OF d] d by simp_all
    have "missing ?s (Suc q) k = Suc (missing ?s (Suc q) k - 1)" using missing_head [of ?s "Suc q" k] new(2) by simp
    then have "pages_for (Suc (missing ?s (Suc q) k - 1)) ?s" using room' by simp
    note can = pages_for_Suc(1) [OF this]
    obtain t p where t: "add_directory ?s (of_nat ?d) = Inr t" "vmm_wf t"
      "\<forall>d<1024. pde t d = (if d = ?d then p OR 3 else pde ?s d)"
      "\<forall>r<1047552. r div 1024 \<noteq> ?d \<longrightarrow> entry t r = entry ?s r"
      by (rule add_directory [OF one(1) new can]) (rule that)
    have "missing ?s (Suc q) k = Suc (missing t (Suc q) k)"
      by (rule missing_added) (use new(2) t(3) d below in \<open>auto simp: present_or\<close>)
    then have "pages_for (Suc (missing t (Suc q) k)) ?s" using room' by simp
    then have "pages_for (missing t (Suc q) k) t" using add_directory_pmm [OF t(1)] pages_for_Suc(2) by blast
    moreover have "entry t r = (if r = q then Some (phys OR (ucast flags AND 0x7f)) else entry s r)"
      if "r < 1047552" "present (pde s (r div 1024))" for r
    proof -
      have "r div 1024 \<noteq> ?d" using that(2) False by metis
      then show ?thesis using t(4) one(3) that(1) by simp
    qed
    moreover have "pde t c = pde s c" if "c < 1024" "present (pde s c)" for c
      using t(3) one(2) that False by metis
    ultimately show ?thesis
      using that [of t] loop t False d by simp
  qed
qed

text \<open>A run of pages whose first directory is there, in one loop and in one call for each page.\<close>

lemma MapPhysicalToVirtual_loop:
  fixes virt
  defines "q \<equiv> page_number virt"
  assumes "vmm_wf s" "q < 1047552" "present (pde s (q div 1024))"
  shows "MapPhysicalToVirtual s phys n virt flags =
    and_then (map_loop (unat n) (of_nat q) phys (of_nat (q mod 1024)) (of_nat (q div 1024)) flags s) (\<lambda>t. Inr (n, t))"
proof -
  obtain e where e: "vread s (ptbl_at (of_nat q)) = Inr e" using run_reads(2) [OF assms(2-4)] by blast
  show ?thesis
    using assms(4) by (simp only: MapPhysicalToVirtual_def Let_def run_indexes [of virt, folded q_def]
        run_reads(1) [OF assms(2,3)] e and_then.simps if_True)
qed

lemma map_loop_pages:
  assumes "vmm_wf s" "page_number virt + k \<le> 1047552" "present (pde s (page_number virt div 1024))"
    "pages_for (missing s (page_number virt) k) s"
  defines "q \<equiv> page_number virt"
  shows "\<exists>t. map_loop k (of_nat q) phys (of_nat (q mod 1024)) (of_nat (q div 1024)) flags s = Inr t \<and>
    map_pages k phys virt flags s = Inr t \<and> vmm_wf t \<and> (\<forall>d<1024. present (pde s d) \<longrightarrow> pde t d = pde s d) \<and>
    (\<forall>r<1047552. (q \<le> r \<and> r < q + k \<longrightarrow> entry t r = Some ((phys + 4096 * of_nat (r - q)) OR (ucast flags AND 0x7f))) \<and>
       (\<not> (q \<le> r \<and> r < q + k) \<and> present (pde s (r div 1024)) \<longrightarrow> entry t r = entry s r))"
  using assms(1-4) unfolding q_def
proof (induction k arbitrary: s phys virt)
  case (Suc k)
  let ?q = "page_number virt"
  have q: "?q < 1047552" "Suc ?q + k \<le> 1047552" using Suc.prems(2) by auto
  obtain t where t: "\<forall>j. map_loop (Suc j) (of_nat ?q) phys (of_nat (?q mod 1024)) (of_nat (?q div 1024)) flags s =
      map_loop j (of_nat (Suc ?q)) (phys + 4096) (of_nat (Suc ?q mod 1024)) (of_nat (Suc ?q div 1024)) flags t"
    "vmm_wf t" "present (pde t (Suc ?q div 1024))" "pages_for (missing t (Suc ?q) k) t"
    "\<forall>d<1024. present (pde s d) \<longrightarrow> pde t d = pde s d"
    "\<forall>r<1047552. present (pde s (r div 1024)) \<longrightarrow> entry t r = (if r = ?q then Some (phys OR (ucast flags AND 0x7f)) else entry s r)"
    by (rule one_page [OF Suc.prems, of phys flags]) (rule that)
  have nxt: "page_number (virt + 4096) = Suc ?q" using q(2) by (intro page_number_Suc) simp
  have single: "MapPhysicalToVirtual s phys 1 virt flags = Inr (1, t)"
    using MapPhysicalToVirtual_loop [OF Suc.prems(1) q(1) Suc.prems(3), of phys 1 flags] t(1) by simp
  obtain u where u: "map_loop k (of_nat (Suc ?q)) (phys + 4096) (of_nat (Suc ?q mod 1024)) (of_nat (Suc ?q div 1024)) flags t = Inr u"
    "map_pages k (phys + 4096) (virt + 4096) flags t = Inr u" "vmm_wf u" "\<forall>d<1024. present (pde t d) \<longrightarrow> pde u d = pde t d"
    "\<forall>r<1047552. (Suc ?q \<le> r \<and> r < Suc ?q + k \<longrightarrow> entry u r = Some ((phys + 4096 + 4096 * of_nat (r - Suc ?q)) OR (ucast flags AND 0x7f))) \<and>
       (\<not> (Suc ?q \<le> r \<and> r < Suc ?q + k) \<and> present (pde t (r div 1024)) \<longrightarrow> entry u r = entry t r)"
    using Suc.IH [of t "virt + 4096" "phys + 4096", unfolded nxt, OF t(2) q(2) t(3,4)] by (elim exE conjE) (rule that)
  have shift: "phys + 4096 + 4096 * of_nat (r - Suc ?q) = phys + 4096 * of_nat (r - ?q)" if "Suc ?q \<le> r" for r
  proof -
    have "r - ?q = Suc (r - Suc ?q)" using that by simp
    then show ?thesis by (simp add: algebra_simps)
  qed
  have kept: "present (pde t (r div 1024))" if "r < 1047552" "present (pde s (r div 1024))" for r
  proof -
    have "r div 1024 < 1024" using that(1) by auto
    then show ?thesis using t(5) that(2) by simp
  qed
  have "entry u r = Some ((phys + 4096 * of_nat (r - ?q)) OR (ucast flags AND 0x7f))" if r: "r < 1047552" "?q \<le> r" "r < ?q + Suc k" for r
  proof (cases "r = ?q")
    case True
    then show ?thesis using u(5) [rule_format, OF r(1)] kept [OF r(1)] Suc.prems(3) t(6) r(1) by simp
  next
    case False
    then show ?thesis using u(5) [rule_format, OF r(1)] r shift [of r] by simp
  qed
  moreover have "entry u r = entry s r" if r: "r < 1047552" "\<not> (?q \<le> r \<and> r < ?q + Suc k)" "present (pde s (r div 1024))" for r
    using u(5) [rule_format, OF r(1)] kept [OF r(1,3)] t(6) r by auto
  moreover have "\<forall>d<1024. present (pde s d) \<longrightarrow> pde u d = pde s d" using t(5) u(4) by simp
  ultimately show ?case using t(1) u(1-3) single by (intro exI [of _ u]) simp
qed (auto intro: exI [of _ s])

text \<open>If the first directory is missing, the call adds it and clears its table; the rest is as if it had been there.\<close>

lemma first_page:
  fixes virt
  defines "q \<equiv> page_number virt"
  assumes "vmm_wf s" "q + Suc k \<le> 1047552" "pages_for (missing s q (Suc k)) s"
  obtains t where "vmm_wf t" "present (pde t (q div 1024))" "pages_for (missing t q (Suc k)) t"
    "\<And>n phys. MapPhysicalToVirtual s phys n virt flags = MapPhysicalToVirtual t phys n virt flags"
    "\<forall>r<1047552. present (pde s (r div 1024)) \<longrightarrow> present (pde t (r div 1024)) \<and> entry t r = entry s r"
proof (cases "present (pde s (q div 1024))")
  case True
  then show ?thesis using that [of s] assms by simp
next
  case False
  have q: "q < 1047552" and below: "(q + Suc k) div 1024 < 1024" using assms(3) by auto
  have "missing s q (Suc k) = Suc (missing s q (Suc k) - 1)" using missing_head [of s q "Suc k"] False by simp
  then have "pages_for (Suc (missing s q (Suc k) - 1)) s" using assms(4) by simp
  note can = pages_for_Suc(1) [OF this]
  have "can_map s q 0" using q can by (auto simp: can_map_def)
  note dir = first_directory [OF assms(2) this, unfolded if_not_P [OF False]]
  obtain t where t:
    "and_then (add_directory s (of_nat (q div 1024))) (vclear 1024 (kernel_virt_first_table + of_nat (q div 1024) * 4096)) = Inr t"
    "vmm_wf t" "directories_present t q (Suc 0)"
    "\<forall>r<1047552. entry t r = (if present (pde s (q div 1024)) \<or> r div 1024 \<noteq> q div 1024 then entry s r else Some 0)"
    by (rule dir) (rule that)
  have here: "present (pde t (q div 1024))" using t(3) by (simp add: directories_present_def)
  have others: "present (pde t d) = present (pde s d)" if "d < 1024" "d \<noteq> q div 1024" for d
  proof (cases "d = 1023")
    case False
    then have "1024 * d < 1047552" "1024 * d div 1024 = d" using that(1) by auto
    then have "entry t (1024 * d) = entry s (1024 * d)" using t(4) that(2) by simp
    then show ?thesis using \<open>1024 * d div 1024 = d\<close> by (simp add: entry_def split: if_splits)
  qed (use vmm_wfD(3) [OF t(2)] vmm_wfD(3) [OF assms(2)] in simp)
  obtain u where u: "add_directory s (of_nat (q div 1024)) = Inr u"
    "vclear 1024 (kernel_virt_first_table + of_nat (q div 1024) * 4096) u = Inr t"
    using t(1) by (elim and_then_InrE)
  have "missing s q (Suc k) = Suc (missing t q (Suc k))"
    by (rule missing_added) (use False here others below in simp_all)
  then have "pages_for (Suc (missing t q (Suc k))) s" using assms(4) by simp
  then have "pages_for (missing t q (Suc k)) t"
    using add_directory_pmm [OF u(1)] vclear_pmm [OF u(2)] pages_for_Suc(2) by metis
  moreover have "MapPhysicalToVirtual s phys n virt flags = MapPhysicalToVirtual t phys n virt flags" for n phys
    using False here t(1) run_reads(1) [OF assms(2) q] run_reads(1) [OF t(2) q]
    by (simp only: MapPhysicalToVirtual_def Let_def run_indexes [of virt, folded q_def] and_then.simps if_True if_False)
  moreover have "present (pde t (r div 1024)) \<and> entry t r = entry s r" if "r < 1047552" "present (pde s (r div 1024))" for r
  proof -
    have "r div 1024 < 1024" "r div 1024 \<noteq> q div 1024" using that False by auto
    then show ?thesis using others t(4) that by simp
  qed
  ultimately show ?thesis using that [of t] t(2) here by simp
qed

section \<open>Unmapping\<close>

text \<open>Unlike mapping it stops with a page fault where there is no table, in either way at the same page.\<close>

lemma vread_absent:
  assumes "vmm_wf s" "q < 1047552" "\<not> present (pde s (q div 1024))"
  shows "vread s (ptbl_at (of_nat q)) = Inl (PageFault (ptbl_at (of_nat q)))"
proof -
  have "q < 1048576" using assms(2) by simp
  then show ?thesis using assms(1,3) by (simp add: vread_def translate_ptbl)
qed

lemma UnmapVirtual_loop:
  fixes virt
  defines "q \<equiv> page_number virt"
  assumes "vmm_wf s" "q < 1047552" "0 < unat n"
  shows "UnmapVirtual s virt n = and_then (unmap_loop (unat n) (of_nat q) (of_nat (q mod 1024)) (of_nat (q div 1024)) s) (\<lambda>t. Inr (n, t))"
proof -
  obtain k where k: "unat n = Suc k" using assms(4) gr0_conv_Suc by blast
  note call = UnmapVirtual_def Let_def run_indexes [of virt, folded q_def] run_reads(1) [OF assms(2,3)] and_then.simps
  show ?thesis
  proof (cases "present (pde s (q div 1024))")
    case True
    then obtain e where "vread s (ptbl_at (of_nat q)) = Inr e" using run_reads(2) [OF assms(2,3)] by blast
    then show ?thesis by (simp only: call)
  next
    case False
    from vread_absent [OF assms(2,3) this] show ?thesis by (simp only: call k unmap_loop.simps)
  qed
qed

lemma unmap_loop_pages:
  "vmm_wf s \<Longrightarrow> page_number virt + k \<le> 1047552 \<Longrightarrow>
    unmap_pages k virt s = unmap_loop k (of_nat (page_number virt)) (of_nat (page_number virt mod 1024)) (of_nat (page_number virt div 1024)) s"
proof (induction k arbitrary: s virt)
  case (Suc k)
  let ?q = "page_number virt"
  have q: "?q < 1047552" "Suc ?q + k \<le> 1047552" using Suc.prems(2) by auto
  have nxt: "page_number (virt + 4096) = Suc ?q" using q(2) by (intro page_number_Suc) simp
  note call = UnmapVirtual_loop [OF Suc.prems(1) q(1), of 1]
  show ?case
  proof (cases "entry s ?q")
    case None
    then have "vread s (ptbl_at (of_nat ?q)) = Inl (PageFault (ptbl_at (of_nat ?q)))"
      by (intro vread_absent [OF Suc.prems(1) q(1)]) (simp add: entry_def split: if_splits)
    then show ?thesis using call by simp
  next
    case (Some e)
    then have dir: "present (pde s (?q div 1024))" by (simp add: entry_def split: if_splits)
    note step = unmap_loop_Suc [OF Suc.prems(1) q(1) Some] and wf = set_entry_page(1) [OF Suc.prems(1) q(1) dir]
    have "UnmapVirtual s virt 1 = Inr (1, set_entry ?q (e AND NOT 1) s)" using call step [of 0] by simp
    then show ?thesis using Suc.IH [OF wf, of "virt + 4096", unfolded nxt, OF q(2)] step [of k]
      by (simp del: unmap_loop.simps(2))
  qed
qed simp

section \<open>The property\<close>

text \<open>
  C12. A run is mapped and unmapped exactly as its pages one by one, in one call for each, which
  computes directory and table from the address of its page: the index arithmetic of the loops, with
  the carry into the next table and the directories added there, comes to the same state, to the
  last word of memory. The directories of the run may be missing, all or some, as long as
  there are pages for them; the run is then mapped and nothing that had a table has changed.
  Unmapping where there is no table stops with a page fault either way.
\<close>

theorem runs_page_by_page:
  fixes virt n :: u32
  defines "q \<equiv> page_number virt"
  assumes "vmm_wf s" "n \<noteq> 0" "q + unat n \<le> 1047552" "pages_for (missing s q (unat n)) s"
  shows "(\<exists>t. MapPhysicalToVirtual s phys n virt flags = Inr (n, t) \<and> map_pages (unat n) phys virt flags s = Inr t \<and> vmm_wf t \<and>
      (\<forall>r<1047552. if q \<le> r \<and> r < q + unat n
         then entry t r = Some ((phys + 4096 * of_nat (r - q)) OR (ucast flags AND 0x7f))
         else present (pde s (r div 1024)) \<longrightarrow> entry t r = entry s r)) \<and>
    UnmapVirtual s virt n = and_then (unmap_pages (unat n) virt s) (\<lambda>t. Inr (n, t))"
proof -
  have n: "0 < unat n" using assms(3) by (simp add: unat_gt_0)
  then obtain k where k: "unat n = Suc k" using gr0_conv_Suc by blast
  have q: "q < 1047552" using assms(4) n by simp
  obtain t where t: "vmm_wf t" "present (pde t (q div 1024))" "pages_for (missing t q (Suc k)) t"
    "\<And>n phys. MapPhysicalToVirtual s phys n virt flags = MapPhysicalToVirtual t phys n virt flags"
    "\<forall>r<1047552. present (pde s (r div 1024)) \<longrightarrow> present (pde t (r div 1024)) \<and> entry t r = entry s r"
    using first_page [OF assms(2), of virt k flags] assms(4,5) unfolding k q_def by metis
  obtain u where u: "map_loop (Suc k) (of_nat q) phys (of_nat (q mod 1024)) (of_nat (q div 1024)) flags t = Inr u"
    "map_pages (Suc k) phys virt flags t = Inr u" "vmm_wf u"
    "\<forall>r<1047552. (q \<le> r \<and> r < q + Suc k \<longrightarrow> entry u r = Some ((phys + 4096 * of_nat (r - q)) OR (ucast flags AND 0x7f))) \<and>
       (\<not> (q \<le> r \<and> r < q + Suc k) \<and> present (pde t (r div 1024)) \<longrightarrow> entry u r = entry t r)"
    using map_loop_pages [OF t(1), of virt "Suc k" phys flags] t(2,3) assms(4) unfolding k q_def by metis
  have "MapPhysicalToVirtual s phys n virt flags = Inr (n, u)"
    using MapPhysicalToVirtual_loop [OF t(1), of virt phys n flags] q t(2) u(1) by (simp add: q_def k t(4))
  moreover have "map_pages (Suc k) phys virt flags s = map_pages (Suc k) phys virt flags t" by (simp add: t(4))
  moreover have "UnmapVirtual s virt n = and_then (unmap_pages (unat n) virt s) (\<lambda>t. Inr (n, t))"
    using UnmapVirtual_loop [OF assms(2), of virt n] unmap_loop_pages [OF assms(2), of virt "unat n"] q n assms(4) by (simp add: q_def)
  ultimately show ?thesis using u(2-4) t(5) unfolding k by (intro conjI exI [of _ u]) auto
qed

theorem runs_page_by_page_witness:
  "\<exists>t. MapPhysicalToVirtual sample_vmm 0x800000 2 0xC07FF000 3 = Inr (2, t) \<and> map_pages 2 0x800000 0xC07FF000 3 sample_vmm = Inr t \<and>
    entry t 0xC0800 = Some 0x801003 \<and> entry sample_vmm 0xC0800 = None"
proof -
  have q: "page_number 0xC07FF000 = 788479" by (simp add: page_number_def)
  have "present (pde sample_vmm 769)" "\<not> present (pde sample_vmm 770)" by (simp_all add: sample_pde present_def)
  then have room: "pages_for (missing sample_vmm (page_number 0xC07FF000) (unat (2 :: u32))) sample_vmm" and none: "entry sample_vmm 0xC0800 = None"
    using table_pmm_can by (simp_all add: q missing_def pages_for_def entry_def upt_rec sample_vmm_def split: sum.splits)
  have "(2 :: u32) \<noteq> 0" "page_number 0xC07FF000 + unat (2 :: u32) \<le> 1047552" by (simp_all add: q)
  from runs_page_by_page [OF sample_vmm_wf this room, of "0x800000" 3] obtain t where
    t: "MapPhysicalToVirtual sample_vmm 0x800000 2 0xC07FF000 3 = Inr (2, t)" "map_pages 2 0x800000 0xC07FF000 3 sample_vmm = Inr t"
    "\<forall>r<1047552. if page_number 0xC07FF000 \<le> r \<and> r < page_number 0xC07FF000 + unat (2 :: u32)
       then entry t r = Some ((0x800000 + 4096 * of_nat (r - page_number 0xC07FF000)) OR (ucast (3 :: u8) AND 0x7f))
       else present (pde sample_vmm (r div 1024)) \<longrightarrow> entry t r = entry sample_vmm r" by auto
  have "entry t 0xC0800 = Some 0x801003" using t(3) [rule_format, of "0xC0800"] by (simp add: q)
  then show ?thesis using t(1,2) none by blast
qed

section \<open>Flags\<close>

datatype VMMFlags = ReadOnly | ReadWrite | WriteThrough | NonCached | NoExecute

fun flag_bits :: "VMMFlags \<Rightarrow> u8" where
  "flag_bits ReadOnly = 0x1"
| "flag_bits ReadWrite = 0x3"
| "flag_bits WriteThrough = 0x8"
| "flag_bits NonCached = 0x10"
| "flag_bits NoExecute = 0x80"

text \<open>\<open>NoExecute\<close> is masked off, so a page with it is executable as any other.\<close>

lemma NoExecute_ignored: "map_loop k idx phys ti di (flags OR flag_bits NoExecute) s = map_loop k idx phys ti di flags s"
proof (induction k arbitrary: idx phys ti di s)
  case (Suc k)
  have "ucast (flags OR flag_bits NoExecute) AND 0x7f = (ucast flags AND 0x7f :: u32)"
    by (simp add: unsigned_or_eq bit.conj_disj_distrib2)
  moreover have "map_loop k i p t d (flags OR flag_bits NoExecute) = map_loop k i p t d flags" for i p t d
    using Suc by (intro ext)
  ultimately show ?case by (simp only: map_loop.simps)
qed simp

text \<open>Of the flags only the first two make a page present.\<close>

lemma flag_bits_present: "bit (flag_bits f) 0 \<longleftrightarrow> f = ReadOnly \<or> f = ReadWrite"
  by (cases f) (simp_all add: bit_simps)

end
