(* ===== verification/PortIO.thy ===== *)
theory PortIO
  imports Kernel_Prelude
begin

text \<open>
  Port input and output (arch/x86/IO.cpp, whose functions are one \<open>in\<close> or \<open>out\<close> instruction
  each). What the devices answer is not part of the kernel: the machine carries a function
  for each width from the history of all port accesses, the newest first, to the value a read
  returns. A
  statement that holds for every such function holds for every behaviour of the hardware.
\<close>

unbundle bit_operations_syntax

datatype io_event =
    Out8 u16 u8
  | Out16 u16 u16
  | Out32 u16 u32
  | In8 u16 u8
  | In16 u16 u16
  | In32 u16 u32

type_synonym io_history = "io_event list"

record machine =
  history :: io_history
  answer8 :: "io_history \<Rightarrow> u16 \<Rightarrow> u8"
  answer16 :: "io_history \<Rightarrow> u16 \<Rightarrow> u16"
  answer32 :: "io_history \<Rightarrow> u16 \<Rightarrow> u32"

definition out8 :: "u16 \<Rightarrow> u8 \<Rightarrow> 'a machine_scheme \<Rightarrow> 'a machine_scheme" where
  "out8 port val s = s\<lparr>history := Out8 port val # history s\<rparr>"

definition out16 :: "u16 \<Rightarrow> u16 \<Rightarrow> 'a machine_scheme \<Rightarrow> 'a machine_scheme" where
  "out16 port val s = s\<lparr>history := Out16 port val # history s\<rparr>"

definition out32 :: "u16 \<Rightarrow> u32 \<Rightarrow> 'a machine_scheme \<Rightarrow> 'a machine_scheme" where
  "out32 port val s = s\<lparr>history := Out32 port val # history s\<rparr>"

definition in8 :: "u16 \<Rightarrow> 'a machine_scheme \<Rightarrow> u8 \<times> 'a machine_scheme" where
  "in8 port s =
     (let val = answer8 s (history s) port in (val, s\<lparr>history := In8 port val # history s\<rparr>))"

definition in16 :: "u16 \<Rightarrow> 'a machine_scheme \<Rightarrow> u16 \<times> 'a machine_scheme" where
  "in16 port s =
     (let val = answer16 s (history s) port in (val, s\<lparr>history := In16 port val # history s\<rparr>))"

definition in32 :: "u16 \<Rightarrow> 'a machine_scheme \<Rightarrow> u32 \<times> 'a machine_scheme" where
  "in32 port s =
     (let val = answer32 s (history s) port in (val, s\<lparr>history := In32 port val # history s\<rparr>))"

lemmas port_io = out8_def out16_def out32_def in8_def in16_def in32_def Let_def

lemma out8_fields [simp]:
  "history (out8 p v s) = Out8 p v # history s" "answer8 (out8 p v s) = answer8 s"
  "answer16 (out8 p v s) = answer16 s" "answer32 (out8 p v s) = answer32 s" "machine.more (out8 p v s) = machine.more s"
  by (simp_all add: out8_def)

lemma out16_fields [simp]:
  "history (out16 p v s) = Out16 p v # history s" "answer8 (out16 p v s) = answer8 s"
  "answer16 (out16 p v s) = answer16 s" "answer32 (out16 p v s) = answer32 s" "machine.more (out16 p v s) = machine.more s"
  by (simp_all add: out16_def)

lemma out32_fields [simp]:
  "history (out32 p v s) = Out32 p v # history s" "answer8 (out32 p v s) = answer8 s"
  "answer16 (out32 p v s) = answer16 s" "answer32 (out32 p v s) = answer32 s" "machine.more (out32 p v s) = machine.more s"
  by (simp_all add: out32_def)

lemma in8_fields [simp]:
  "fst (in8 p s) = answer8 s (history s) p"
  "history (snd (in8 p s)) = In8 p (answer8 s (history s) p) # history s"
  "answer8 (snd (in8 p s)) = answer8 s" "answer16 (snd (in8 p s)) = answer16 s"
  "answer32 (snd (in8 p s)) = answer32 s"
  "machine.more (snd (in8 p s)) = machine.more s"
  by (simp_all add: in8_def Let_def)

lemma in16_fields [simp]:
  "fst (in16 p s) = answer16 s (history s) p"
  "history (snd (in16 p s)) = In16 p (answer16 s (history s) p) # history s"
  "answer8 (snd (in16 p s)) = answer8 s" "answer16 (snd (in16 p s)) = answer16 s"
  "answer32 (snd (in16 p s)) = answer32 s"
  "machine.more (snd (in16 p s)) = machine.more s"
  by (simp_all add: in16_def Let_def)

lemma in32_fields [simp]:
  "fst (in32 p s) = answer32 s (history s) p"
  "history (snd (in32 p s)) = In32 p (answer32 s (history s) p) # history s"
  "answer8 (snd (in32 p s)) = answer8 s" "answer16 (snd (in32 p s)) = answer16 s"
  "answer32 (snd (in32 p s)) = answer32 s"
  "machine.more (snd (in32 p s)) = machine.more s"
  by (simp_all add: in32_def Let_def)

text \<open>A delay loop touches no port.\<close>

definition iodelay :: "nat \<Rightarrow> 'a machine_scheme \<Rightarrow> 'a machine_scheme" where
  "iodelay n s = s"

section \<open>Accesses to some ports only\<close>

fun event_port :: "io_event \<Rightarrow> u16" where
  "event_port (Out8 p v) = p"
| "event_port (Out16 p v) = p"
| "event_port (Out32 p v) = p"
| "event_port (In8 p v) = p"
| "event_port (In16 p v) = p"
| "event_port (In32 p v) = p"

text \<open>Between two states only ports of \<open>P\<close> were accessed, and the devices answer as before.\<close>

definition only_ports :: "u16 set \<Rightarrow> 'a machine_scheme \<Rightarrow> 'b machine_scheme \<Rightarrow> bool" where
  "only_ports P s t \<longleftrightarrow> answer8 t = answer8 s \<and> answer16 t = answer16 s \<and> answer32 t = answer32 s \<and>
     (\<exists>l. history t = l @ history s \<and> (\<forall>e\<in>set l. event_port e \<in> P))"

lemma only_ports_refl: "answer8 t = answer8 s \<Longrightarrow> answer16 t = answer16 s \<Longrightarrow> answer32 t = answer32 s \<Longrightarrow> history t = history s \<Longrightarrow> only_ports P s t"
  by (simp add: only_ports_def)

lemma only_ports_trans [trans]: "only_ports P s t \<Longrightarrow> only_ports P t u \<Longrightarrow> only_ports P s u"
  by (force simp: only_ports_def)

lemma only_ports_io:
  "p \<in> P \<Longrightarrow> only_ports P s t \<Longrightarrow> only_ports P s (out8 p v t)"
  "p \<in> P \<Longrightarrow> only_ports P s t \<Longrightarrow> only_ports P s (out16 p x t)"
  "p \<in> P \<Longrightarrow> only_ports P s t \<Longrightarrow> only_ports P s (out32 p w t)"
  "p \<in> P \<Longrightarrow> only_ports P s t \<Longrightarrow> only_ports P s (snd (in8 p t))"
  "p \<in> P \<Longrightarrow> only_ports P s t \<Longrightarrow> only_ports P s (snd (in16 p t))"
  "p \<in> P \<Longrightarrow> only_ports P s t \<Longrightarrow> only_ports P s (snd (in32 p t))"
  by (auto simp: only_ports_def)

lemma only_ports_iodelay [simp]: "only_ports P s (iodelay n t) = only_ports P s t"
  by (simp add: iodelay_def)

end
