(* ===== verification/I8259.thy ===== *)
theory I8259
  imports PortIO
begin

text \<open>
  The driver of the two 8259 interrupt controllers (arch/x86/i8259.cpp): the operations as the
  code has them, then a specification of what the chip does with the bytes written to it, against
  which the driver is verified.
\<close>

unbundle bit_operations_syntax

section \<open>The driver\<close>

abbreviation (input) "MasterPIC_command \<equiv> 0x20 :: u16"
abbreviation (input) "MasterPIC_data \<equiv> 0x21 :: u16"
abbreviation (input) "SlavePIC_command \<equiv> 0xa0 :: u16"
abbreviation (input) "SlavePIC_data \<equiv> 0xa1 :: u16"

definition ClearAllIRQs :: "'a machine_scheme \<Rightarrow> 'a machine_scheme" where
  "ClearAllIRQs s = out8 SlavePIC_data 0xff (out8 MasterPIC_data (0xff XOR 0x4) s)"

text \<open>The writes of \<open>Initialize\<close> in their order; the busy waits between them touch no state.\<close>

definition Initialize :: "'a machine_scheme \<Rightarrow> 'a machine_scheme" where
  "Initialize s =
     (let s = out8 MasterPIC_command 0x11 s;
          s = out8 SlavePIC_command 0x11 s;
          s = out8 MasterPIC_data (0x20 + 0) s;
          s = out8 SlavePIC_data (0x20 + 8) s;
          s = out8 MasterPIC_data (push_bit 2 1) s;
          s = out8 SlavePIC_data 2 s;
          s = out8 MasterPIC_data 1 s;
          s = out8 SlavePIC_data 1 s
      in ClearAllIRQs s)"

definition Reset :: "'a machine_scheme \<Rightarrow> 'a machine_scheme" where
  "Reset s =
     (let (pic1m, s) = in8 MasterPIC_data s;
          (pic2m, s) = in8 SlavePIC_data s;
          s = Initialize s;
          s = out8 MasterPIC_data pic1m s
      in out8 SlavePIC_data pic2m s)"

definition SetIRQMask :: "u32 \<Rightarrow> bool \<Rightarrow> 'a machine_scheme \<Rightarrow> 'a machine_scheme result" where
  "SetIRQMask irqno status s =
     (if irqno \<ge> 16 then Inl (Panic ''the 8259 controller only support 15 IRQs'')
      else let port = (if irqno \<ge> 8 then SlavePIC_data else MasterPIC_data);
               irqline = unat (irqno mod 8);
               (val, s) = in8 port s;
               val = (if status then val OR push_bit irqline 1 else val AND NOT (push_bit irqline 1))
           in Inr (out8 port val s))"

text \<open>\<open>GetIRQMask\<close> is a stub in the source.\<close>

definition GetIRQMask :: "u32 \<Rightarrow> bool" where
  "GetIRQMask irqno = False"

text \<open>
  \<open>ReadISR\<close>. C++ leaves the order of the two reads in its return expression open; the master's
  is done second here.
\<close>

definition ReadISR :: "'a machine_scheme \<Rightarrow> u16 \<times> 'a machine_scheme" where
  "ReadISR s =
     (let s = out8 MasterPIC_command 0x0b s;
          s = out8 SlavePIC_command 0x0b s;
          (slave, s) = in8 SlavePIC_command s;
          (master, s) = in8 MasterPIC_command s
      in (push_bit 8 (ucast slave) OR ucast master, s))"

definition SendEOI :: "u32 \<Rightarrow> 'a machine_scheme \<Rightarrow> 'a machine_scheme" where
  "SendEOI irqno s =
     (let (isr, s) = ReadISR s
      in if irqno \<ge> 8
         then out8 MasterPIC_command 0x20
                (if bit isr (unat irqno) then out8 SlavePIC_command 0x20 s else s)
         else if \<not> bit isr (unat irqno) then s
         else out8 MasterPIC_command 0x20 s)"

section \<open>The chip\<close>

text \<open>
  The programming model of one 8259, from its data sheet: a command byte with bit 4 set (ICW1)
  starts the initialisation and clears the mask; the next data bytes are ICW2 (vector base), ICW3
  (cascade) and, if ICW1 asked for it, ICW4 (bit 0: 8086 mode). After that a data byte is the
  interrupt mask. A command byte 0x20 is a non-specific end of interrupt.
\<close>

datatype pic_phase = Ready | NeedICW2 bool | NeedICW3 bool | NeedICW4

record pic_chip =
  phase :: pic_phase
  vector_base :: u8
  cascade :: u8
  mode8086 :: bool
  irq_mask :: u8

fun pic_data :: "u8 \<Rightarrow> pic_chip \<Rightarrow> pic_chip" where
  "pic_data v c =
     (case phase c of
        Ready \<Rightarrow> c\<lparr>irq_mask := v\<rparr>
      | NeedICW2 icw4 \<Rightarrow> c\<lparr>vector_base := v AND 0xf8, phase := NeedICW3 icw4\<rparr>
      | NeedICW3 icw4 \<Rightarrow> c\<lparr>cascade := v, phase := (if icw4 then NeedICW4 else Ready)\<rparr>
      | NeedICW4 \<Rightarrow> c\<lparr>mode8086 := bit v 0, phase := Ready\<rparr>)"

definition pic_command :: "u8 \<Rightarrow> pic_chip \<Rightarrow> pic_chip" where
  "pic_command v c =
     (if bit v 4 then c\<lparr>phase := NeedICW2 (bit v 0), irq_mask := 0, mode8086 := False\<rparr> else c)"

text \<open>The chip at a pair of ports after a history of accesses.\<close>

fun pic_after :: "u16 \<Rightarrow> u16 \<Rightarrow> pic_chip \<Rightarrow> io_history \<Rightarrow> pic_chip" where
  "pic_after cmd dat c [] = c"
| "pic_after cmd dat c (Out8 p v # h) =
     (let c' = pic_after cmd dat c h
      in if p = cmd then pic_command v c' else if p = dat then pic_data v c' else c')"
| "pic_after cmd dat c (Out16 _ _ # h) = pic_after cmd dat c h"
| "pic_after cmd dat c (Out32 _ _ # h) = pic_after cmd dat c h"
| "pic_after cmd dat c (In8 _ _ # h) = pic_after cmd dat c h"
| "pic_after cmd dat c (In16 _ _ # h) = pic_after cmd dat c h"
| "pic_after cmd dat c (In32 _ _ # h) = pic_after cmd dat c h"

text \<open>
  The two chips of a machine. \<open>reset_chip\<close> stands for whatever state the firmware left; every
  field the driver relies on is set by \<open>Initialize\<close>.
\<close>

definition reset_chip :: pic_chip where
  "reset_chip = \<lparr>phase = Ready, vector_base = 0, cascade = 0, mode8086 = False, irq_mask = 0\<rparr>"

definition master :: "'a machine_scheme \<Rightarrow> pic_chip" where
  "master s = pic_after MasterPIC_command MasterPIC_data reset_chip (history s)"

definition slave :: "'a machine_scheme \<Rightarrow> pic_chip" where
  "slave s = pic_after SlavePIC_command SlavePIC_data reset_chip (history s)"

text \<open>A mask bit per interrupt line, 0 to 7 on the master and 8 to 15 on the slave.\<close>

definition masked :: "'a machine_scheme \<Rightarrow> nat \<Rightarrow> bool" where
  "masked s i = (if i < 8 then bit (irq_mask (master s)) i else bit (irq_mask (slave s)) (i - 8))"

text \<open>
  The documented behaviour of the hardware the driver relies on: outside an initialisation a
  read of a data port returns the mask.
\<close>

definition mask_readable :: "(io_history \<Rightarrow> u16 \<Rightarrow> u8) \<Rightarrow> bool" where
  "mask_readable ans \<longleftrightarrow> (\<forall>h.
     (phase (pic_after MasterPIC_command MasterPIC_data reset_chip h) = Ready \<longrightarrow>
        ans h MasterPIC_data = irq_mask (pic_after MasterPIC_command MasterPIC_data reset_chip h)) \<and>
     (phase (pic_after SlavePIC_command SlavePIC_data reset_chip h) = Ready \<longrightarrow>
        ans h SlavePIC_data = irq_mask (pic_after SlavePIC_command SlavePIC_data reset_chip h)))"

definition pic_ready :: "'a machine_scheme \<Rightarrow> bool" where
  "pic_ready s \<longleftrightarrow> mask_readable (answer8 s) \<and> phase (master s) = Ready \<and> phase (slave s) = Ready"

end
