(* ===== verification/I8259_Correct.thy ===== *)
theory I8259_Correct
  imports I8259
begin

text \<open>
  The driver against the chip: how each port access changes the two chips, the contract of an
  interrupt controller as a locale, and its interpretation on the driver.
\<close>

unbundle bit_operations_syntax

section \<open>Port accesses\<close>

lemma pic_after_out8:
  "master (out8 p v s) = (if p = 0x20 then pic_command v (master s)
     else if p = 0x21 then pic_data v (master s) else master s)"
  "slave (out8 p v s) = (if p = 0xa0 then pic_command v (slave s)
     else if p = 0xa1 then pic_data v (slave s) else slave s)"
  by (simp_all add: master_def slave_def Let_def)

lemma pic_after_in8 [simp]: "master (snd (in8 p s)) = master s" "slave (snd (in8 p s)) = slave s"
  by (simp_all add: master_def slave_def)

lemma Initialize_chips:
  "master (I8259.Initialize s) =
     \<lparr>phase = Ready, vector_base = 0x20, cascade = 0x04, mode8086 = True, irq_mask = 0xfb\<rparr>"
  "slave (I8259.Initialize s) =
     \<lparr>phase = Ready, vector_base = 0x28, cascade = 2, mode8086 = True, irq_mask = 0xff\<rparr>"
  by (simp_all add: I8259.Initialize_def ClearAllIRQs_def pic_after_out8 Let_def pic_command_def bit_simps)

section \<open>Masks\<close>

text \<open>What the rest of the kernel relies on: setting a mask changes that line and no other.\<close>

locale irq_controller =
  fixes inv :: "'s \<Rightarrow> bool"
    and is_masked :: "'s \<Rightarrow> nat \<Rightarrow> bool"
    and set_mask :: "u32 \<Rightarrow> bool \<Rightarrow> 's \<Rightarrow> 's result"
  assumes set_mask: "inv s \<Longrightarrow> irq < 16 \<Longrightarrow>
    \<exists>s'. set_mask irq status s = Inr s' \<and> inv s' \<and>
      (\<forall>j<16. is_masked s' j = (if j = unat irq then status else is_masked s j))"
begin

fun set_masks :: "(u32 \<times> bool) list \<Rightarrow> 's \<Rightarrow> 's result" where
  "set_masks [] s = Inr s"
| "set_masks ((irq, status) # xs) s = and_then (set_mask irq status s) (set_masks xs)"

text \<open>The last request for a line decides.\<close>

definition last_request :: "(u32 \<times> bool) list \<Rightarrow> nat \<Rightarrow> bool option" where
  "last_request xs j = map_of (rev (map (\<lambda>(irq, status). (unat irq, status)) xs)) j"

lemma set_masks_ok:
  assumes "inv s" "\<forall>(irq, status)\<in>set xs. irq < 16"
  shows "\<exists>s'. set_masks xs s = Inr s' \<and> inv s' \<and>
    (\<forall>j<16. is_masked s' j = (case last_request xs j of None \<Rightarrow> is_masked s j | Some b \<Rightarrow> b))"
  using assms
proof (induction xs arbitrary: s)
  case Nil
  then show ?case by (simp add: last_request_def)
next
  case (Cons x xs)
  obtain irq status where x: "x = (irq, status)" by (cases x)
  then have "irq < 16" using Cons.prems(2) by simp
  from set_mask [OF Cons.prems(1) this, of status] obtain s1 where s1: "set_mask irq status s = Inr s1"
    "inv s1" "\<forall>j<16. is_masked s1 j = (if j = unat irq then status else is_masked s j)" by blast
  have rest: "\<forall>(irq, status)\<in>set xs. irq < 16" using Cons.prems(2) by simp
  from Cons.IH [OF s1(2) rest] obtain s' where s': "set_masks xs s1 = Inr s'" "inv s'"
    "\<forall>j<16. is_masked s' j = (case last_request xs j of None \<Rightarrow> is_masked s1 j | Some b \<Rightarrow> b)" by blast
  have "last_request (x # xs) j = (case last_request xs j of
      None \<Rightarrow> if j = unat irq then Some status else None | Some b \<Rightarrow> Some b)" for j
    by (auto simp: last_request_def x map_add_def split: option.splits)
  then show ?case using s1 s' by (auto simp: x split: option.splits)
qed

end

lemma bit_mask_update:
  fixes v :: u8
  assumes "k < 8" "j < 8"
  shows "bit (v OR push_bit k 1) j \<longleftrightarrow> j = k \<or> bit v j"
    and "bit (v AND NOT (push_bit k 1)) j \<longleftrightarrow> j \<noteq> k \<and> bit v j"
  using assms by (auto simp: bit_simps)

lemma SetIRQMask_char:
  assumes ready: "pic_ready s" and irq: "irq < 16"
  shows "\<exists>s'. SetIRQMask irq status s = Inr s' \<and> pic_ready s' \<and>
    (\<forall>j<16. masked s' j = (if j = unat irq then status else masked s j))"
proof -
  define k where "k = unat (irq mod 8)"
  have u: "unat irq < 16" using irq by (simp add: word_less_nat_alt)
  have k: "k < 8" "k = unat irq mod 8" by (simp_all add: k_def unat_mod_distrib)
  have ge: "8 \<le> irq \<longleftrightarrow> 8 \<le> unat irq" by (simp add: word_le_nat_alt)
  have range: "\<not> 16 \<le> irq" using irq by simp
  have fields: "mask_readable (answer8 s)" "phase (master s) = Ready" "phase (slave s) = Ready"
    using ready by (simp_all add: pic_ready_def)
  have reads: "answer8 s (history s) 0x21 = irq_mask (master s)"
    "answer8 s (history s) 0xa1 = irq_mask (slave s)"
    using fields by (simp_all add: mask_readable_def master_def slave_def)
  define upd where "upd v = (if status then v OR push_bit k 1 else v AND NOT (push_bit k 1))" for v :: u8
  have upd: "bit (upd v) j = (if j = k then status else bit v j)" if "j < 8" for v j
    using bit_mask_update [OF k(1) that, of v] by (auto simp: upd_def)
  show ?thesis
  proof (cases "8 \<le> unat irq")
    case True
    then have "k = unat irq - 8" using u k(2) by (simp add: mod_if)
    moreover have "SetIRQMask irq status s = Inr (out8 0xa1 (upd (irq_mask (slave s))) (snd (in8 0xa1 s)))"
      using range True ge reads by (simp add: SetIRQMask_def Let_def upd_def k_def case_prod_unfold)
    ultimately show ?thesis
      using fields upd True u by (auto simp: pic_ready_def masked_def pic_after_out8 Let_def)
  next
    case False
    then have "k = unat irq" using k(2) by simp
    moreover have "SetIRQMask irq status s = Inr (out8 0x21 (upd (irq_mask (master s))) (snd (in8 0x21 s)))"
      using range False ge reads by (simp add: SetIRQMask_def Let_def upd_def k_def case_prod_unfold)
    ultimately show ?thesis
      using fields upd False by (auto simp: pic_ready_def masked_def pic_after_out8 Let_def)
  qed
qed

interpretation pic: irq_controller pic_ready masked SetIRQMask
  by unfold_locales (rule SetIRQMask_char)

end
