(* ===== verification/IDT.thy ===== *)
theory IDT
  imports Kernel_Prelude
begin

text \<open>
  The interrupt descriptor table (arch/x86/IDT.cpp) and the registration of the processor's
  exceptions in it (arch/x86/FaultHandler.cpp).
\<close>

unbundle bit_operations_syntax

section \<open>Descriptors\<close>

datatype InterruptType = Interrupt | Trap

fun type_code :: "InterruptType \<Rightarrow> u8" where
  "type_code Interrupt = 0xE"
| "type_code Trap = 0xF"

record IDTDescriptor =
  offset_low :: u16
  selector :: u16
  zero :: u8
  type_attr :: u8
  offset_high :: u16

record IDTPointer =
  size :: u16
  addr :: u32

record IDT =
  ptr :: IDTPointer
  desc :: "IDTDescriptor list"

text \<open>
  \<open>Set\<close> writes the fields of an entry one by one. An \<open>IDT\<close> on the stack starts with whatever is
  there, apart from \<open>zero\<close>, which has an initialiser.
\<close>

definition Set :: "u32 \<Rightarrow> u32 \<Rightarrow> u16 \<Rightarrow> InterruptType \<Rightarrow> IDT \<Rightarrow> IDT result" where
  "Set intno address sel type idt =
     (if intno \<ge> 256 then Inl (Panic ''interrupt is bigger than 256'')
      else Inr (idt\<lparr>desc := (desc idt)[unat intno := (desc idt ! unat intno)
        \<lparr>offset_low := ucast (address AND 0xffff), offset_high := ucast (drop_bit 16 address),
         selector := sel, type_attr := type_code type OR 0x80\<rparr>]\<rparr>))"

abbreviation (input) "sizeof_IDTDescriptor \<equiv> 8 :: u16"

text \<open>\<open>Register\<close> fills the pointer that \<open>lidt\<close> loads; \<open>base\<close> is the address of \<open>desc\<close>.\<close>

definition Register :: "u32 \<Rightarrow> IDT \<Rightarrow> IDT" where
  "Register base idt = idt\<lparr>ptr := \<lparr>size = sizeof_IDTDescriptor * 0x80 - 1, addr = base\<rparr>\<rparr>"

section \<open>What the processor does with the table\<close>

text \<open>
  The processor's view of a vector: the entry is used only if all of its eight bytes lie within
  the limit, and it is a present 32-bit interrupt or trap gate.
\<close>

definition gate_address :: "IDTDescriptor \<Rightarrow> u32" where
  "gate_address d = ucast (offset_low d) OR push_bit 16 (ucast (offset_high d))"

definition gate :: "IDT \<Rightarrow> nat \<Rightarrow> (u32 \<times> u16 \<times> bool) option" where
  "gate idt v =
     (if 8 * v + 7 \<le> unat (size (ptr idt)) \<and> v < length (desc idt)
      then let d = desc idt ! v
           in if type_attr d = 0x8E then Some (gate_address d, selector d, True)
              else if type_attr d = 0x8F then Some (gate_address d, selector d, False)
              else None
      else None)"


end
