(* ===== verification/FaultHandler.thy ===== *)
theory FaultHandler
  imports IDT
begin

text \<open>
  The processor exceptions (arch/x86/FaultHandler.cpp): the vectors, the table of handlers, the
  page fault handler and the dispatcher. What they print is modelled as the report they end in:
  after it both execute \<open>cli; hlt\<close> and do not come back.
\<close>

unbundle bit_operations_syntax

section \<open>Codes and registers\<close>

datatype FaultCode =
    DivideByZero | DebugFault | NMI | Breakpoint | Overflow | BoundRange | InvalidOpcode
  | DeviceNotAvailable | DoubleFault | RSVD1 | InvalidTSS | SegmentNotPresent
  | StackSegmentFault | GPF | PageFaultCode | RSVD2 | FPE | AlignmentCheck | MachineCheck | SIMDFPE

fun fault_number :: "FaultCode \<Rightarrow> u32" where
  "fault_number DivideByZero = 0" | "fault_number DebugFault = 1" | "fault_number NMI = 2"
| "fault_number Breakpoint = 3" | "fault_number Overflow = 4" | "fault_number BoundRange = 5"
| "fault_number InvalidOpcode = 6" | "fault_number DeviceNotAvailable = 7"
| "fault_number DoubleFault = 8" | "fault_number RSVD1 = 9" | "fault_number InvalidTSS = 10"
| "fault_number SegmentNotPresent = 11" | "fault_number StackSegmentFault = 12"
| "fault_number GPF = 13" | "fault_number PageFaultCode = 14" | "fault_number RSVD2 = 15"
| "fault_number FPE = 16" | "fault_number AlignmentCheck = 17" | "fault_number MachineCheck = 18"
| "fault_number SIMDFPE = 19"

abbreviation (input) "FaultNum \<equiv> 20 :: nat"

record FaultRegs =
  gs :: u32
  fs :: u32
  es :: u32
  ds :: u32
  edi :: u32
  esi :: u32
  ebp :: u32
  old_esp :: u32
  ebx :: u32
  edx :: u32
  ecx :: u32
  eax :: u32
  int_no :: u32
  error_code :: u32
  eip :: u32
  cs :: u32
  eflags :: u32
  esp :: u32
  ss :: u32

definition exceptionStr :: "string list" where
  "exceptionStr =
     [''Division by Zero'', ''Debug'', ''NMI'', ''Breakpoint'', ''Overflow'', ''Bound Range Exceeded'',
      ''Invalid Opcode'', ''Device Not Available'', ''Double Fault'', '''', ''Invalid TSS'',
      ''Segment Not Present'', ''Stack Segment Fault'', ''General Protection Fault'', ''Page Fault'',
      '''', ''Floating Point Error'', ''Alignment Check'', ''Machine Check'',
      ''SIMD Floating Point Error'']"

text \<open>
  The text for \<open>eflags\<close>, which starts with a space and to which one \<open>strcat\<close> per set flag
  appends its name. The buffer has 64 bytes.
\<close>

definition flag_names :: "(u32 \<times> string) list" where
  "flag_names =
     [(0x1, ''CF ''), (0x4, ''PF ''), (0x10, ''AF ''), (0x40, ''ZF ''), (0x80, ''SF ''),
      (0x100, ''TF ''), (0x200, ''IF ''), (0x400, ''DF ''), (0x800, ''OF ''), (0x4000, ''NT ''),
      (0x10000, ''RF ''), (0x20000, ''VM '')]"

definition append_flag :: "u32 \<Rightarrow> u32 \<times> string \<Rightarrow> string \<Rightarrow> string" where
  "append_flag flags = (\<lambda>(mask, name) str. if flags AND mask \<noteq> 0 then str @ name else str)"

definition strflags :: "u32 \<Rightarrow> string" where
  "strflags flags = fold (append_flag flags) flag_names '' ''"

section \<open>Handlers\<close>

text \<open>What a fault ends in: the interrupted code goes on, or the machine stops with a report.\<close>

datatype fault_outcome =
    Resumed
  | PageFaultReport bool bool bool bool string
      \<comment> \<open>null pointer, protection, write, user, eflags\<close>
  | FatalException u32 string u32 string
      \<comment> \<open>number, name, error code, eflags\<close>
  | OutOfTable

text \<open>
  A handler returns whether it solved the fault, or does not return (\<open>Inl\<close> its report). \<open>cr2\<close> is
  the faulting address.
\<close>

type_synonym fault_handler = "u32 \<Rightarrow> FaultRegs \<Rightarrow> fault_outcome + bool"

definition fnPageFaultHandler :: fault_handler where
  "fnPageFaultHandler cr2 regs =
     Inl (PageFaultReport (cr2 \<ge> 0x0 \<and> cr2 < 0x1000)
       (error_code regs AND 0x1 \<noteq> 0) (error_code regs AND 0x2 \<noteq> 0) (error_code regs AND 0x4 \<noteq> 0)
       (strflags (eflags regs)))"

record fault_state =
  fault_idt :: IDT
  fhandlers :: "fault_handler option list"

definition FaultDispatcher :: "fault_state \<Rightarrow> u32 \<Rightarrow> FaultRegs \<Rightarrow> fault_outcome" where
  "FaultDispatcher s cr2 regs =
     (let n = unat (int_no regs)
      in if n \<ge> FaultNum then OutOfTable
         else let r = (case fhandlers s ! n of None \<Rightarrow> Inr False | Some h \<Rightarrow> h cr2 regs)
              in case r of
                   Inl report \<Rightarrow> report
                 | Inr True \<Rightarrow> Resumed
                 | Inr False \<Rightarrow> FatalException (int_no regs) (exceptionStr ! n) (error_code regs)
                                  (strflags (eflags regs)))"

definition SetFaultHandler :: "u32 \<Rightarrow> fault_handler \<Rightarrow> fault_state \<Rightarrow> fault_state result" where
  "SetFaultHandler faultno h s =
     (if unat faultno \<ge> FaultNum then Inl (Undefined ''fhandlers: index out of bounds'')
      else Inr (s\<lparr>fhandlers := (fhandlers s)[unat faultno := Some h]\<rparr>))"

text \<open>The vectors \<open>Init\<close> sets, in order: code, number of the assembly stub, gate type.\<close>

definition fault_vectors :: "(FaultCode \<times> nat \<times> InterruptType) list" where
  "fault_vectors =
     [(DivideByZero, 0, Interrupt), (DebugFault, 1, Interrupt), (NMI, 2, Interrupt),
      (Breakpoint, 3, Trap), (Overflow, 4, Trap), (BoundRange, 5, Interrupt),
      (InvalidOpcode, 6, Interrupt), (DeviceNotAvailable, 7, Interrupt), (DoubleFault, 8, Interrupt),
      (InvalidTSS, 10, Interrupt), (SegmentNotPresent, 11, Interrupt),
      (StackSegmentFault, 12, Interrupt), (GPF, 13, Interrupt), (PageFaultCode, 14, Interrupt)]"

fun set_faults :: "(nat \<Rightarrow> u32) \<Rightarrow> (FaultCode \<times> nat \<times> InterruptType) list \<Rightarrow> IDT \<Rightarrow> IDT result" where
  "set_faults stub [] idt = Inr idt"
| "set_faults stub ((code, k, type) # vs) idt =
     and_then (Set (fault_number code) (stub k) 0x08 type idt) (set_faults stub vs)"

definition FaultHandler_Init :: "(nat \<Rightarrow> u32) \<Rightarrow> IDT \<Rightarrow> fault_handler option list \<Rightarrow> fault_state result" where
  "FaultHandler_Init stub idt handlers =
     and_then (set_faults stub fault_vectors idt) (\<lambda>idt.
       SetFaultHandler (fault_number PageFaultCode) fnPageFaultHandler
         \<lparr>fault_idt = idt, fhandlers = handlers\<rparr>)"

section \<open>Descriptors written by Set\<close>

lemma gate_address_split:
  "ucast (ucast (a AND 0xffff :: u32) :: u16) OR push_bit 16 (ucast (ucast (drop_bit 16 a) :: u16)) = a"
proof (rule bit_word_eqI)
  fix n assume "n < LENGTH(32)"
  then have n: "n < 32" by simp
  have mask: "bit (0xffff :: u32) n \<longleftrightarrow> n < 16"
    using bit_mask_iff [where 'a = "32 word", of 16 n] n by (simp add: mask_eq_exp_minus_1)
  show "bit (ucast (ucast (a AND 0xffff :: u32) :: u16) OR
      push_bit 16 (ucast (ucast (drop_bit 16 a) :: u16)) :: u32) n = bit a n"
    using n mask by (auto simp: bit_simps)
qed

lemma Set_result:
  assumes "intno < 256" "length (desc idt) = 256"
  obtains idt' where "Set intno a sel type idt = Inr idt'" "ptr idt' = ptr idt"
    "length (desc idt') = 256"
    "\<forall>v<256. v \<noteq> unat intno \<longrightarrow> desc idt' ! v = desc idt ! v"
    "gate_address (desc idt' ! unat intno) = a" "selector (desc idt' ! unat intno) = sel"
    "type_attr (desc idt' ! unat intno) = type_code type OR 0x80"
proof -
  have "unat intno < 256" using assms(1) by (simp add: word_less_nat_alt)
  moreover have "\<not> 256 \<le> intno" using assms(1) by simp
  ultimately show ?thesis
    using that assms(2) gate_address_split [of a]
    by (simp add: Set_def gate_address_def)
qed

lemma type_code_present: "type_code type OR 0x80 = (if type = Interrupt then 0x8E else 0x8F)"
  by (cases type) simp_all

definition fault_vector :: "FaultCode \<times> nat \<times> InterruptType \<Rightarrow> nat" where
  "fault_vector = (\<lambda>(code, k, type). unat (fault_number code))"

definition is_gate :: "IDTDescriptor \<Rightarrow> u32 \<Rightarrow> InterruptType \<Rightarrow> bool" where
  "is_gate d a type \<longleftrightarrow> gate_address d = a \<and> selector d = 8 \<and> type_attr d = type_code type OR 0x80"

lemma set_faults_ok:
  assumes "length (desc idt) = 256" "distinct (map fault_vector vs)"
  shows "\<exists>idt'. set_faults stub vs idt = Inr idt' \<and> ptr idt' = ptr idt \<and> length (desc idt') = 256 \<and>
    (\<forall>(code, k, type)\<in>set vs. is_gate (desc idt' ! unat (fault_number code)) (stub k) type) \<and>
    (\<forall>v<256. v \<notin> set (map fault_vector vs) \<longrightarrow> desc idt' ! v = desc idt ! v)"
  using assms
proof (induction vs arbitrary: idt)
  case (Cons x vs)
  obtain code k type where x: "x = (code, k, type)" by (cases x)
  have less: "fault_number code < 256" by (cases code) simp_all
  then have v: "fault_vector x < 256" by (simp add: x fault_vector_def word_less_nat_alt)
  from Set_result [OF less Cons.prems(1), of "stub k" 8 type] obtain i1 where i1:
    "Set (fault_number code) (stub k) 8 type idt = Inr i1" "ptr i1 = ptr idt" "length (desc i1) = 256"
    "\<forall>v<256. v \<noteq> unat (fault_number code) \<longrightarrow> desc i1 ! v = desc idt ! v"
    "is_gate (desc i1 ! unat (fault_number code)) (stub k) type"
    unfolding is_gate_def by metis
  from Cons.IH [OF i1(3)] Cons.prems(2) obtain i2 where i2: "set_faults stub vs i1 = Inr i2" "ptr i2 = ptr i1"
    "length (desc i2) = 256"
    "\<forall>(code, k, type)\<in>set vs. is_gate (desc i2 ! unat (fault_number code)) (stub k) type"
    "\<forall>v<256. v \<notin> set (map fault_vector vs) \<longrightarrow> desc i2 ! v = desc i1 ! v"
    by auto
  have "desc i2 ! fault_vector x = desc i1 ! fault_vector x" using i2(5) v Cons.prems(2) by simp
  then have "is_gate (desc i2 ! unat (fault_number code)) (stub k) type"
    using i1(5) by (simp add: x fault_vector_def)
  moreover have "desc i2 ! v = desc idt ! v" if "v < 256" "v \<notin> set (map fault_vector (x # vs))" for v
    using that i2(5) i1(4) by (auto simp: x fault_vector_def)
  ultimately show ?case using i1 i2 by (auto simp: x)
qed simp

lemma fault_vectors_distinct: "distinct (map fault_vector fault_vectors)"
  by (simp add: fault_vectors_def fault_vector_def)

lemma fault_vectors_below: "v \<in> set (map fault_vector fault_vectors) \<Longrightarrow> v < 32"
  by (auto simp: fault_vectors_def fault_vector_def)

end
