(* ===== verification/IRQHandler.thy ===== *)
theory IRQHandler
  imports I8259 FaultHandler
begin

text \<open>
  The interrupt request handlers (arch/x86/IRQHandler.cpp): the table of up to 16 devices for each
  of the 16 lines, the registration of handlers, which drives the interrupt controller, and the
  dispatcher.
\<close>

unbundle bit_operations_syntax

abbreviation (input) "MAX_IRQ_HANDLERS \<equiv> 16 :: nat"

text \<open>
  The table holds pointers to devices, 0 for NULL. \<open>OnIRQ\<close> is a virtual function, so the
  dispatcher takes the behaviour of the devices as a parameter.
\<close>

record irq_machine = machine +
  irqHandlers :: "u32 list list"

definition initial_handlers :: "u32 list list" where
  "initial_handlers = replicate 16 (replicate MAX_IRQ_HANDLERS 0)"

text \<open>\<open>Init\<close>: the vectors 0x20 to 0x2f, given the addresses of the sixteen assembly stubs.\<close>

fun set_vectors :: "u32 \<Rightarrow> u32 list \<Rightarrow> IDT \<Rightarrow> IDT result" where
  "set_vectors intno [] idt = Inr idt"
| "set_vectors intno (stub # stubs) idt =
     and_then (Set intno stub 0x08 Interrupt idt) (set_vectors (intno + 1) stubs)"

definition IRQHandler_Init :: "u32 list \<Rightarrow> IDT \<Rightarrow> IDT result" where
  "IRQHandler_Init irqs idt = set_vectors 0x20 irqs idt"

text \<open>The loop that counts the handlers of a line: up to the first NULL or the end of the row.\<close>

fun handler_count :: "u32 list \<Rightarrow> nat" where
  "handler_count [] = 0"
| "handler_count (h # hs) = (if h \<noteq> 0 then Suc (handler_count hs) else 0)"

text \<open>The dispatcher's loop at position \<open>pos\<close>; it reads the table anew for each handler.\<close>

fun dispatch_loop :: "(u32 \<Rightarrow> u32 \<Rightarrow> 'a irq_machine_scheme \<Rightarrow> 'a irq_machine_scheme result) \<Rightarrow>
    nat \<Rightarrow> u32 \<Rightarrow> nat \<Rightarrow> 'a irq_machine_scheme \<Rightarrow> 'a irq_machine_scheme result" where
  "dispatch_loop on_irq 0 irq_no pos s = Inr s"
| "dispatch_loop on_irq (Suc k) irq_no pos s =
     (let h = irqHandlers s ! unat irq_no ! pos
      in if h = 0 then Inr s
         else and_then (on_irq h irq_no s) (dispatch_loop on_irq k irq_no (pos + 1)))"

definition IRQDispatcher :: "(u32 \<Rightarrow> u32 \<Rightarrow> 'a irq_machine_scheme \<Rightarrow> 'a irq_machine_scheme result) \<Rightarrow>
    u32 \<Rightarrow> 'a irq_machine_scheme \<Rightarrow> 'a irq_machine_scheme result" where
  "IRQDispatcher on_irq irq_no s =
     (if unat irq_no \<ge> 16 then Inl (Undefined ''irqHandlers: index out of bounds'')
      else and_then (dispatch_loop on_irq MAX_IRQ_HANDLERS irq_no 0 s) (\<lambda>s. Inr (SendEOI irq_no s)))"

definition SetHandler :: "u32 \<Rightarrow> u32 \<Rightarrow> 'a irq_machine_scheme \<Rightarrow> (nat \<times> 'a irq_machine_scheme) result" where
  "SetHandler irqno h s =
     (if irqno \<ge> 16 then Inl (Panic ''the IRQHandler only supports IRQ numbers 0 to 15'')
      else let i = unat irqno; len = handler_count (irqHandlers s ! i)
           in and_then (if len = 0 then SetIRQMask irqno False s else Inr s) (\<lambda>s.
                if len \<ge> 16 then Inl (Panic ''handler list is full'')
                else Inr (len, s\<lparr>irqHandlers := (irqHandlers s)[i := (irqHandlers s ! i)[len := h]]\<rparr>)))"

definition RemoveHandler :: "u32 \<Rightarrow> int \<Rightarrow> 'a irq_machine_scheme \<Rightarrow> 'a irq_machine_scheme result" where
  "RemoveHandler irqno index s =
     (if irqno \<ge> 16 \<or> index < 0 \<or> index \<ge> int MAX_IRQ_HANDLERS
      then Inl (Undefined ''irqHandlers: index out of bounds'')
      else let i = unat irqno;
               s = s\<lparr>irqHandlers := (irqHandlers s)[i := (irqHandlers s ! i)[nat index := 0]]\<rparr>
           in if handler_count (irqHandlers s ! i) \<ge> MAX_IRQ_HANDLERS then SetIRQMask irqno True s
              else Inr s)"

section \<open>The table\<close>

definition table_ok :: "u32 list list \<Rightarrow> bool" where
  "table_ok t \<longleftrightarrow> length t = 16 \<and> (\<forall>row\<in>set t. length row = MAX_IRQ_HANDLERS)"

lemma table_ok_initial: "table_ok initial_handlers"
  by (simp add: table_ok_def initial_handlers_def)

lemma table_ok_row: "table_ok t \<Longrightarrow> i < 16 \<Longrightarrow> length (t ! i) = 16"
  by (simp add: table_ok_def)

text \<open>The handlers the dispatcher runs for a line, in order.\<close>

definition active :: "'a irq_machine_scheme \<Rightarrow> nat \<Rightarrow> u32 list" where
  "active s i = takeWhile (\<lambda>h. h \<noteq> 0) (irqHandlers s ! i)"

lemma handler_count_takeWhile: "handler_count row = length (takeWhile (\<lambda>h. h \<noteq> 0) row)"
  by (induction row) auto

text \<open>A handler stored behind the active ones joins them, together with those after a gap.\<close>

lemma takeWhile_set_next:
  fixes h :: u32
  assumes "h \<noteq> 0" "length (takeWhile (\<lambda>h. h \<noteq> 0) row) < length row"
  shows "takeWhile (\<lambda>h. h \<noteq> 0) (row[length (takeWhile (\<lambda>h. h \<noteq> 0) row) := h]) =
    takeWhile (\<lambda>h. h \<noteq> 0) row @ h # takeWhile (\<lambda>h. h \<noteq> 0) (drop (Suc (length (takeWhile (\<lambda>h. h \<noteq> 0) row))) row)"
  using assms by (induction row) auto

lemma takeWhile_clear:
  assumes "k < length row"
  shows "takeWhile (\<lambda>h. h \<noteq> 0) (row[k := (0 :: u32)]) = takeWhile (\<lambda>h. h \<noteq> 0) (take k row)"
  using assms by (induction row arbitrary: k) (auto split: nat.splits)

lemma handler_count_cleared:
  assumes "k < length row"
  shows "handler_count (row[k := 0]) \<le> k"
proof -
  have "length (takeWhile (\<lambda>h. h \<noteq> 0) (take k row)) \<le> length (take k row)" by (rule length_takeWhile_le)
  then show ?thesis using assms by (simp add: handler_count_takeWhile takeWhile_clear)
qed

text \<open>The dispatcher's loop runs the active handlers, if these leave the table alone.\<close>

fun run_handlers :: "(u32 \<Rightarrow> u32 \<Rightarrow> 's \<Rightarrow> 's result) \<Rightarrow> u32 \<Rightarrow> u32 list \<Rightarrow> 's \<Rightarrow> 's result" where
  "run_handlers on_irq irq_no [] s = Inr s"
| "run_handlers on_irq irq_no (h # hs) s = and_then (on_irq h irq_no s) (run_handlers on_irq irq_no hs)"

lemma dispatch_loop_run:
  assumes keep: "\<And>h s s'. on_irq h irq_no s = Inr s' \<Longrightarrow> irqHandlers s' = irqHandlers s"
    and "irqHandlers s = t" "pos + k = length (t ! unat irq_no)"
  shows "dispatch_loop on_irq k irq_no pos s =
    run_handlers on_irq irq_no (takeWhile (\<lambda>h. h \<noteq> 0) (drop pos (t ! unat irq_no))) s"
  using assms(2,3)
proof (induction k arbitrary: pos s)
  case (Suc k)
  then have "drop pos (t ! unat irq_no) = t ! unat irq_no ! pos # drop (Suc pos) (t ! unat irq_no)"
    by (simp add: Cons_nth_drop_Suc)
  moreover have "dispatch_loop on_irq k irq_no (Suc pos) s' =
      run_handlers on_irq irq_no (takeWhile (\<lambda>h. h \<noteq> 0) (drop (Suc pos) (t ! unat irq_no))) s'"
    if "on_irq h irq_no s = Inr s'" for h s'
    using Suc keep [OF that] by simp
  ultimately show ?case
    using Suc.prems by (cases "on_irq (t ! unat irq_no ! pos) irq_no s") (auto simp: Let_def)
qed simp

section \<open>The vectors\<close>

text \<open>The stubs of the lines end up in consecutive vectors, as interrupt gates.\<close>

lemma set_vectors_ok:
  assumes "length (desc idt) = 256" "unat n + length stubs \<le> 256"
  shows "\<exists>idt'. set_vectors n stubs idt = Inr idt' \<and> ptr idt' = ptr idt \<and> length (desc idt') = 256 \<and>
    (\<forall>v<256. if unat n \<le> v \<and> v < unat n + length stubs
       then gate_address (desc idt' ! v) = stubs ! (v - unat n) \<and> selector (desc idt' ! v) = 8 \<and>
            type_attr (desc idt' ! v) = 0x8E
       else desc idt' ! v = desc idt ! v)"
  using assms
proof (induction stubs arbitrary: n idt)
  case (Cons stub stubs)
  have n: "n < 256" using Cons.prems(2) by (simp add: word_less_nat_alt)
  from Set_result [OF this Cons.prems(1), of stub 8 Interrupt] obtain i1 where i1:
    "Set n stub 8 Interrupt idt = Inr i1" "ptr i1 = ptr idt" "length (desc i1) = 256"
    "\<forall>v<256. v \<noteq> unat n \<longrightarrow> desc i1 ! v = desc idt ! v"
    "gate_address (desc i1 ! unat n) = stub" "selector (desc i1 ! unat n) = 8"
    "type_attr (desc i1 ! unat n) = type_code Interrupt OR 0x80" .
  have Suc: "unat (n + 1) = unat n + 1" using Cons.prems(2) by (subst unat_add_small) simp_all
  from Cons.IH [OF i1(3), of "n + 1"] Cons.prems(2) Suc obtain i2 where i2:
    "set_vectors (n + 1) stubs i1 = Inr i2" "ptr i2 = ptr i1" "length (desc i2) = 256"
    "\<forall>v<256. if unat n + 1 \<le> v \<and> v < unat n + 1 + length stubs
       then gate_address (desc i2 ! v) = stubs ! (v - (unat n + 1)) \<and> selector (desc i2 ! v) = 8 \<and>
            type_attr (desc i2 ! v) = 0x8E
       else desc i2 ! v = desc i1 ! v"
    by auto
  have "if unat n \<le> v \<and> v < unat n + length (stub # stubs)
       then gate_address (desc i2 ! v) = (stub # stubs) ! (v - unat n) \<and> selector (desc i2 ! v) = 8 \<and>
            type_attr (desc i2 ! v) = 0x8E
       else desc i2 ! v = desc idt ! v" if v: "v < 256" for v
  proof (cases "v = unat n")
    case True
    have "\<not> (unat n + 1 \<le> v \<and> v < unat n + 1 + length stubs)" using True by simp
    then have "desc i2 ! v = desc i1 ! v" using i2(4) v by metis
    then show ?thesis using True i1(5-7) by simp
  next
    case False
    have "unat n + 1 \<le> v \<and> v < unat n + 1 + length stubs \<longleftrightarrow>
        unat n \<le> v \<and> v < unat n + length (stub # stubs)" using False by auto
    moreover have "unat n \<le> v \<Longrightarrow> (stub # stubs) ! (v - unat n) = stubs ! (v - (unat n + 1))"
      using False by (simp add: nth_Cons')
    ultimately show ?thesis using i2(4) i1(4) v False by metis
  qed
  then show ?case using i1(1,2) i2(1-3) by auto
qed auto

end
