(* ===== verification/Timer.thy ===== *)
theory Timer
  imports PortIO
begin

text \<open>
  The kernel's clock (Timer.cpp) and the 8253 timer that drives it (arch/x86/PIT.cpp).
\<close>

unbundle bit_operations_syntax

section \<open>The clock\<close>

text \<open>The 64-bit count of milliseconds, and the seconds printed so far, the newest first.\<close>

record timer =
  ticks :: u64
  printed :: "u32 list"

definition Timer_Init :: "timer \<Rightarrow> timer" where
  "Timer_Init t = t\<lparr>ticks := 0\<rparr>"

definition Tick :: "timer \<Rightarrow> timer" where
  "Tick t =
     (let v = ticks t + 1; t = t\<lparr>ticks := v\<rparr>
      in if v mod 1000 = 0 then t\<lparr>printed := ucast v div 1000 # printed t\<rparr> else t)"

definition Timer_Get :: "timer \<Rightarrow> u64" where
  "Timer_Get t = ticks t"

section \<open>The 8253\<close>

definition SetTimer :: "u16 \<Rightarrow> 'a machine_scheme \<Rightarrow> 'a machine_scheme result" where
  "SetTimer hz s =
     (if hz = 0 then Inl DivideError
      else let divisor = (ucast ((1193182 :: u32) div ucast hz) :: u16);
               s = out8 0x43 0x36 s;
               s = out8 0x40 (ucast (divisor AND 0xff)) s
           in Inr (out8 0x40 (ucast (drop_bit 8 divisor)) s))"

definition PIT_Initialize :: "'a machine_scheme \<Rightarrow> timer \<Rightarrow> ('a machine_scheme \<times> timer) result" where
  "PIT_Initialize s t = and_then (SetTimer 1000 s) (\<lambda>s. Inr (s, Timer_Init t))"

definition PIT_OnIRQ :: "timer \<Rightarrow> timer" where
  "PIT_OnIRQ t = Tick t"

definition PIT_Reset :: "'a result" where
  "PIT_Reset = Inl (Panic ''pit doesn't support reset now'')"

text \<open>
  The programming model of the counter: after the mode byte 0x36 (channel 0, low byte then high
  byte, square wave) the two data bytes are the divisor, 0 standing for 65536.
\<close>

fun pit_divisor :: "io_history \<Rightarrow> nat option" where
  "pit_divisor (Out8 p2 hi # Out8 p1 lo # Out8 p0 mode # h) =
     (if p0 = 0x43 \<and> mode = 0x36 \<and> p1 = 0x40 \<and> p2 = 0x40
      then let d = 256 * unat hi + unat lo in Some (if d = 0 then 65536 else d)
      else None)"
| "pit_divisor h = None"

end
