(* ===== verification/IRQ_Properties.thy ===== *)
theory IRQ_Properties
  imports I8259_Correct IRQHandler FaultHandler Timer
begin

text \<open>
  The properties of interrupts: the programming of the two 8259 chips, the handler table and the
  dispatcher, the descriptor table, the exceptions and the timer.
\<close>

unbundle bit_operations_syntax

section \<open>The interrupt controller\<close>

text \<open>
  C16. \<open>Initialize\<close> programs both chips completely, whatever state they were in: the master at
  vector 0x20 with its slave on line 2, the slave at vector 0x28 with the identity 2, both in
  8086 mode, and all lines masked except the cascade.
\<close>

theorem Initialize_programs_pics:
  "master (I8259.Initialize s) =
     \<lparr>phase = Ready, vector_base = 0x20, cascade = 0x04, mode8086 = True, irq_mask = 0xfb\<rparr> \<and>
   slave (I8259.Initialize s) =
     \<lparr>phase = Ready, vector_base = 0x28, cascade = 2, mode8086 = True, irq_mask = 0xff\<rparr>"
  by (simp add: Initialize_chips)

text \<open>Mask requests one after the other.\<close>

fun SetIRQMasks :: "(u32 \<times> bool) list \<Rightarrow> 'a machine_scheme \<Rightarrow> 'a machine_scheme result" where
  "SetIRQMasks [] s = Inr s"
| "SetIRQMasks ((irq, status) # xs) s = and_then (SetIRQMask irq status s) (SetIRQMasks xs)"

lemma SetIRQMasks_set_masks: "pic.set_masks xs s = SetIRQMasks xs s"
proof (induction xs arbitrary: s)
  case (Cons x xs)
  then have "pic.set_masks xs = (SetIRQMasks xs :: 'a machine_scheme \<Rightarrow> _)" by (intro ext)
  then show ?case by (cases x) simp
qed simp

text \<open>
  C17. After any sequence of mask requests for lines 0 to 15 a line is masked exactly if the last
  request for it said so, and if there was none, if it was masked before.
\<close>

theorem SetIRQMask_sequence:
  assumes "pic_ready s" "\<forall>(irq, status)\<in>set xs. irq < 16"
  shows "\<exists>s'. SetIRQMasks xs s = Inr s' \<and> pic_ready s' \<and> (\<forall>j<16. masked s' j =
    (case map_of (rev (map (\<lambda>(irq, status). (unat irq, status)) xs)) j of
       None \<Rightarrow> masked s j | Some b \<Rightarrow> b))"
  using pic.set_masks_ok [OF assms] unfolding SetIRQMasks_set_masks pic.last_request_def .

text \<open>A machine whose controllers answer reads of their data ports with their masks.\<close>

definition pic_answer :: "io_history \<Rightarrow> u16 \<Rightarrow> u8" where
  "pic_answer h p = (if p = 0x21 then irq_mask (pic_after 0x20 0x21 reset_chip h)
     else if p = 0xa1 then irq_mask (pic_after 0xa0 0xa1 reset_chip h) else 0)"

definition sample_machine :: machine where
  "sample_machine = I8259.Initialize
     \<lparr>history = [], answer8 = pic_answer, answer16 = (\<lambda>_ _. 0), answer32 = (\<lambda>_ _. 0)\<rparr>"

lemma sample_machine_ready: "pic_ready sample_machine"
proof -
  have "answer8 sample_machine = pic_answer"
    by (simp add: sample_machine_def I8259.Initialize_def ClearAllIRQs_def Let_def)
  then show ?thesis
    by (simp add: pic_ready_def sample_machine_def mask_readable_def pic_answer_def Initialize_chips)
qed

theorem SetIRQMask_sequence_witness:
  "\<exists>s'. SetIRQMasks [(1, False), (12, False), (1, True)] sample_machine = Inr s' \<and>
     masked s' 1 \<and> \<not> masked s' 12"
  using SetIRQMask_sequence [OF sample_machine_ready, of "[(1, False), (12, False), (1, True)]"]
  by (auto dest: spec [of _ 1] spec [of _ 12])

text \<open>
  The in-service bit of a line, as the controllers answer the read command that \<open>SendEOI\<close> sends.
\<close>

definition in_service :: "'a machine_scheme \<Rightarrow> nat \<Rightarrow> bool" where
  "in_service s i =
     (let h = Out8 0xa0 0x0b # Out8 0x20 0x0b # history s; slave = answer8 s h 0xa0
      in if i < 8 then bit (answer8 s (In8 0xa0 slave # h) 0x20) i else bit slave (i - 8))"

definition eoi_count :: "u16 \<Rightarrow> io_history \<Rightarrow> nat" where
  "eoi_count port h = length (filter (\<lambda>e. e = Out8 port 0x20) h)"

text \<open>
  C18. \<open>SendEOI\<close> acknowledges what is in service and nothing else: the slave gets an end of
  interrupt exactly for a line of its own in service, the master for every line of the slave
  (its cascade is in service even when the slave's interrupt is spurious) and for a line of its own
  in service.
\<close>

theorem SendEOI_acknowledges:
  "eoi_count 0xa0 (history (SendEOI irq s)) =
     eoi_count 0xa0 (history s) + of_bool (8 \<le> unat irq \<and> unat irq < 16 \<and> in_service s (unat irq)) \<and>
   eoi_count 0x20 (history (SendEOI irq s)) =
     eoi_count 0x20 (history s) + of_bool (8 \<le> unat irq \<or> in_service s (unat irq))"
proof -
  have ge: "8 \<le> irq \<longleftrightarrow> 8 \<le> unat irq" by (simp add: word_le_nat_alt)
  have isr: "bit (fst (ReadISR s)) (unat irq) \<longleftrightarrow> unat irq < 16 \<and> in_service s (unat irq)"
    by (auto simp: ReadISR_def Let_def case_prod_unfold in_service_def bit_simps dest: bit_imp_le_length)
  have small: "unat irq < 8 \<Longrightarrow> unat irq < 16" by simp
  have hist: "filter (\<lambda>e. e = Out8 p 0x20) (history (snd (ReadISR s))) = filter (\<lambda>e. e = Out8 p 0x20) (history s)"
    for p by (simp add: ReadISR_def Let_def case_prod_unfold)
  show ?thesis
    using isr small
    by (auto simp: SendEOI_def case_prod_unfold Let_def eoi_count_def hist ge not_le)
qed

section \<open>Handlers\<close>

lemma irqHandlers_ports [simp]:
  "irqHandlers (out8 p v s) = irqHandlers s" "irqHandlers (snd (in8 p s)) = irqHandlers s"
  by (simp_all add: port_io)

lemma SetIRQMask_handlers: "SetIRQMask irq b s = Inr s' \<Longrightarrow> irqHandlers s' = irqHandlers s"
  by (auto simp: SetIRQMask_def Let_def case_prod_unfold split: if_splits)

lemma pic_ready_handlers [simp]:
  "pic_ready (s\<lparr>irqHandlers := t\<rparr>) = pic_ready s" "masked (s\<lparr>irqHandlers := t\<rparr>) = masked s"
  by (auto simp: pic_ready_def master_def slave_def masked_def fun_eq_iff)

lemma SetHandler_char:
  assumes ready: "pic_ready s" and table: "table_ok (irqHandlers s)" and irq: "irq < 16" and h: "h \<noteq> 0"
    and room: "length (active s (unat irq)) < 16"
  shows "\<exists>s'. SetHandler irq h s = Inr (length (active s (unat irq)), s') \<and>
    pic_ready s' \<and> table_ok (irqHandlers s') \<and>
    active s' (unat irq) = active s (unat irq) @ h #
      takeWhile (\<lambda>h. h \<noteq> 0) (drop (Suc (length (active s (unat irq)))) (irqHandlers s ! unat irq)) \<and>
    (\<forall>j. j \<noteq> unat irq \<longrightarrow> active s' j = active s j) \<and>
    (\<forall>j<16. masked s' j = (if j = unat irq \<and> active s (unat irq) = [] then False else masked s j))"
proof -
  define i where "i = unat irq"
  define len where "len = length (active s i)"
  have i: "i < 16" "i < length (irqHandlers s)" "length (irqHandlers s ! i) = 16"
    using irq table by (simp_all add: i_def word_less_nat_alt table_ok_def)
  have count: "handler_count (irqHandlers s ! i) = len"
    by (simp add: len_def active_def handler_count_takeWhile)
  have range: "\<not> 16 \<le> irq" "\<not> 16 \<le> len" using irq room by (simp_all add: len_def i_def)
  obtain s1 where s1: "(if len = 0 then SetIRQMask irq False s else Inr s) = Inr s1"
    "pic_ready s1" "irqHandlers s1 = irqHandlers s"
    "\<forall>j<16. masked s1 j = (if j = i \<and> len = 0 then False else masked s j)"
  proof (cases "len = 0")
    case True
    then show ?thesis
      using that SetIRQMask_char [OF ready irq, of False] SetIRQMask_handlers by (fastforce simp: i_def)
  qed (use that ready in auto)
  let ?t = "(irqHandlers s)[i := (irqHandlers s ! i)[len := h]]"
  have "SetHandler irq h s = Inr (len, s1\<lparr>irqHandlers := ?t\<rparr>)"
    using range s1 count by (simp add: SetHandler_def i_def [symmetric] Let_def)
  moreover have "table_ok ?t"
    using table i by (auto simp: table_ok_def dest!: set_update_subset_insert [THEN subsetD])
  moreover have "active (s1\<lparr>irqHandlers := ?t\<rparr>) i = active s i @ h #
      takeWhile (\<lambda>h. h \<noteq> 0) (drop (Suc len) (irqHandlers s ! i))"
    using takeWhile_set_next [OF h, of "irqHandlers s ! i"] room i
    by (simp add: active_def len_def i_def)
  moreover have "active (s1\<lparr>irqHandlers := ?t\<rparr>) j = active s j" if "j \<noteq> i" for j
    using that by (simp add: active_def)
  ultimately show ?thesis
    using s1 unfolding i_def [symmetric] len_def [symmetric]
    by (intro exI [of _ "s1\<lparr>irqHandlers := ?t\<rparr>"]) (simp add: len_def)
qed

lemma SetHandler_answers:
  "SetHandler irq h s = Inr (k, s') \<Longrightarrow> answer8 s' = answer8 s \<and> answer32 s' = answer32 s"
  by (auto simp: SetHandler_def SetIRQMask_def Let_def case_prod_unfold split: if_splits elim!: and_then_InrE)

text \<open>
  C19. \<open>SetHandler\<close> puts the device behind the active ones of its line (and makes those active again
  that a removal had cut off), leaves the other lines alone, and unmasks the line if the device is
  its first.
\<close>

theorem SetHandler_registers:
  assumes ready: "pic_ready s" and table: "table_ok (irqHandlers s)" and irq: "irq < 16" and h: "h \<noteq> 0"
    and room: "length (active s (unat irq)) < 16"
  shows "\<exists>s'. SetHandler irq h s = Inr (length (active s (unat irq)), s') \<and>
    pic_ready s' \<and> table_ok (irqHandlers s') \<and>
    active s' (unat irq) = active s (unat irq) @ h #
      takeWhile (\<lambda>h. h \<noteq> 0) (drop (Suc (length (active s (unat irq)))) (irqHandlers s ! unat irq)) \<and>
    (\<forall>j. j \<noteq> unat irq \<longrightarrow> active s' j = active s j) \<and>
    (\<forall>j<16. masked s' j = (if j = unat irq \<and> active s (unat irq) = [] then False else masked s j))"
  by (rule SetHandler_char [OF assms])

definition sample_irq :: irq_machine where
  "sample_irq = machine.extend sample_machine \<lparr>irqHandlers = initial_handlers\<rparr>"

lemma sample_irq: "pic_ready sample_irq" "table_ok (irqHandlers sample_irq)"
  "active sample_irq (unat (1 :: u32)) = []"
proof -
  have "history sample_irq = history sample_machine" "answer8 sample_irq = answer8 sample_machine"
    "irqHandlers sample_irq = initial_handlers"
    by (simp_all add: sample_irq_def machine.extend_def)
  then show "pic_ready sample_irq" "table_ok (irqHandlers sample_irq)"
    "active sample_irq (unat (1 :: u32)) = []"
    using sample_machine_ready table_ok_initial
    by (simp_all add: pic_ready_def master_def slave_def active_def initial_handlers_def)
qed

theorem SetHandler_registers_witness:
  "\<exists>s'. SetHandler 1 0xc0200000 sample_irq = Inr (0, s') \<and> active s' 1 = [0xc0200000] \<and> \<not> masked s' 1"
proof -
  have rest: "drop (Suc 0) (irqHandlers sample_irq ! 1) = replicate 15 0"
    by (simp add: sample_irq_def machine.extend_def initial_handlers_def)
  from SetHandler_registers [OF sample_irq(1,2), where irq = 1 and h = "0xc0200000"]
  obtain s' where "SetHandler 1 0xc0200000 sample_irq = Inr (0, s')"
    "active s' 1 = 0xc0200000 # takeWhile (\<lambda>h. h \<noteq> 0) (drop (Suc 0) (irqHandlers sample_irq ! 1))"
    "\<forall>j<16. masked s' j = (if j = 1 then False else masked sample_irq j)"
    using sample_irq(3) by auto
  then show ?thesis unfolding rest by auto
qed

lemma IRQDispatcher_char:
  assumes "\<And>h s s'. on_irq h irq s = Inr s' \<Longrightarrow> irqHandlers s' = irqHandlers s"
    and "table_ok (irqHandlers s)" "irq < 16"
  shows "IRQDispatcher on_irq irq s =
    and_then (run_handlers on_irq irq (active s (unat irq)) s) (\<lambda>s. Inr (SendEOI irq s))"
proof -
  have i: "unat irq < 16" using assms(3) by (simp add: word_less_nat_alt)
  have "dispatch_loop on_irq 16 irq 0 s = run_handlers on_irq irq (active s (unat irq)) s"
    using dispatch_loop_run [where on_irq = on_irq and s = s and t = "irqHandlers s" and pos = 0 and k = 16, OF assms(1)] table_ok_row [OF assms(2) i]
    by (simp add: active_def)
  then show ?thesis using i by (simp add: IRQDispatcher_def)
qed

text \<open>
  C20. The dispatcher runs the active handlers of the line in the order of their registration and
  then acknowledges the interrupt, if no handler changes the table.
\<close>

theorem IRQDispatcher_runs_handlers:
  assumes "\<And>h s s'. on_irq h irq s = Inr s' \<Longrightarrow> irqHandlers s' = irqHandlers s"
    and "table_ok (irqHandlers s)" "irq < 16"
  shows "IRQDispatcher on_irq irq s =
    and_then (run_handlers on_irq irq (active s (unat irq)) s) (\<lambda>s. Inr (SendEOI irq s))"
  using IRQDispatcher_char [OF assms] .

definition log_device :: "u32 \<Rightarrow> u32 \<Rightarrow> irq_machine \<Rightarrow> irq_machine result" where
  "log_device h irq s = Inr (out8 0x3f8 (ucast h) s)"

text \<open>A line with two handlers.\<close>

definition shared_irq :: irq_machine where
  "shared_irq = sample_irq\<lparr>irqHandlers := initial_handlers[1 := [0xc0200010, 0xc0200011] @ replicate 14 0]\<rparr>"

lemma shared_irq: "table_ok (irqHandlers shared_irq)" "irqHandlers shared_irq ! 1 = [0xc0200010, 0xc0200011] @ replicate 14 0"
  "active shared_irq 1 = [0xc0200010, 0xc0200011]"
proof -
  show row: "irqHandlers shared_irq ! 1 = [0xc0200010, 0xc0200011] @ replicate 14 0"
    by (simp add: shared_irq_def initial_handlers_def)
  then show "active shared_irq 1 = [0xc0200010, 0xc0200011]" by (simp add: active_def)
  have "\<forall>r\<in>set (initial_handlers[1 := [0xc0200010, 0xc0200011] @ replicate 14 0]). length r = 16"
    using set_update_subset_insert [of initial_handlers 1] by (fastforce simp: initial_handlers_def)
  then show "table_ok (irqHandlers shared_irq)" by (simp add: shared_irq_def table_ok_def initial_handlers_def)
qed

theorem IRQDispatcher_runs_handlers_witness:
  "IRQDispatcher log_device 1 shared_irq = Inr (SendEOI 1 (out8 0x3f8 (ucast (0xc0200011 :: u32)) (out8 0x3f8 (ucast (0xc0200010 :: u32)) shared_irq))) \<and>
    IRQDispatcher log_device 2 shared_irq = Inr (SendEOI 2 shared_irq)"
proof -
  have keeps: "log_device h irq s = Inr s' \<Longrightarrow> irqHandlers s' = irqHandlers s" for h irq s s'
    by (auto simp: log_device_def)
  have "(1 :: u32) < 16" "(2 :: u32) < 16" "active shared_irq 2 = []"
    by (simp_all add: active_def shared_irq_def initial_handlers_def)
  then show ?thesis
    using IRQDispatcher_runs_handlers [where on_irq = log_device and irq = 1, OF keeps shared_irq(1)]
      IRQDispatcher_runs_handlers [where on_irq = log_device and irq = 2, OF keeps shared_irq(1)] shared_irq(3)
    by (simp add: log_device_def)
qed

text \<open>
  C21. \<open>RemoveHandler\<close> never masks the line: it does not touch a port, whatever the index, also when
  the last handler of the line goes. And it cuts off the handlers registered after the removed one.
\<close>

theorem RemoveHandler_never_masks:
  assumes "table_ok (irqHandlers s)" "irq < 16" "k < 16"
  shows "\<exists>s'. RemoveHandler irq (int k) s = Inr s' \<and> history s' = history s \<and>
    active s' (unat irq) = takeWhile (\<lambda>h. h \<noteq> 0) (take k (irqHandlers s ! unat irq))"
proof -
  define i where "i = unat irq"
  have i: "i < 16" "i < length (irqHandlers s)" "length (irqHandlers s ! i) = 16"
    using assms by (simp_all add: i_def word_less_nat_alt table_ok_def)
  let ?s = "s\<lparr>irqHandlers := (irqHandlers s)[i := (irqHandlers s ! i)[k := 0]]\<rparr>"
  have "handler_count ((irqHandlers s ! i)[k := 0]) \<le> k"
    by (rule handler_count_cleared) (use i assms(3) in simp)
  then have "RemoveHandler irq (int k) s = Inr ?s"
    using assms i by (simp add: RemoveHandler_def i_def [symmetric] Let_def)
  moreover have "active ?s i = takeWhile (\<lambda>h. h \<noteq> 0) (take k (irqHandlers s ! i))"
    using i assms(3) by (simp add: active_def takeWhile_clear)
  ultimately show ?thesis by (simp add: i_def)
qed

theorem RemoveHandler_never_masks_witness:
  "\<exists>s' t'. RemoveHandler 1 0 shared_irq = Inr s' \<and> history s' = history shared_irq \<and> active s' 1 = [] \<and>
    RemoveHandler 1 1 shared_irq = Inr t' \<and> history t' = history shared_irq \<and> active t' 1 = [0xc0200010]"
proof -
  have irq: "(1 :: u32) < 16" "unat (1 :: u32) = 1" and row: "take 0 (irqHandlers shared_irq ! 1) = []" "take 1 (irqHandlers shared_irq ! 1) = [0xc0200010]"
    using shared_irq(2) by simp_all
  show ?thesis
    using RemoveHandler_never_masks [OF shared_irq(1) irq(1), of 0] RemoveHandler_never_masks [OF shared_irq(1) irq(1), of 1]
    unfolding irq(2) row by auto
qed

section \<open>The descriptor table\<close>

lemma IDT_vectors_char:
  assumes "length (desc idt) = 256" "length irqs = 16" "length hs = 20"
  shows "\<exists>f idt'. FaultHandler_Init stub (Register base idt) hs = Inr f \<and>
    IRQHandler_Init irqs (fault_idt f) = Inr idt' \<and>
    (\<forall>i<16. gate idt' (32 + i) = Some (irqs ! i, 8, True)) \<and>
    (\<forall>(code, k, type)\<in>set fault_vectors.
       gate idt' (unat (fault_number code)) = Some (stub k, 8, type = Interrupt))"
proof -
  have reg: "length (desc (Register base idt)) = 256" "size (ptr (Register base idt)) = 1023"
    using assms(1) by (simp_all add: Register_def)
  from set_faults_ok [OF reg(1) fault_vectors_distinct, of stub] obtain i1 where i1:
    "set_faults stub fault_vectors (Register base idt) = Inr i1" "ptr i1 = ptr (Register base idt)"
    "length (desc i1) = 256"
    "\<forall>(code, k, type)\<in>set fault_vectors. is_gate (desc i1 ! unat (fault_number code)) (stub k) type"
    by auto
  have u: "unat (0x20 :: u32) = 32" by simp
  have room: "unat (0x20 :: u32) + length irqs \<le> 256" using assms(2) by simp
  from set_vectors_ok [OF i1(3) room, unfolded u assms(2)] obtain i2 where i2:
    "set_vectors 0x20 irqs i1 = Inr i2" "ptr i2 = ptr i1" "length (desc i2) = 256"
    "\<forall>v<256. if 32 \<le> v \<and> v < 32 + 16
       then gate_address (desc i2 ! v) = irqs ! (v - 32) \<and> selector (desc i2 ! v) = 8 \<and>
            type_attr (desc i2 ! v) = 0x8E
       else desc i2 ! v = desc i1 ! v"
    by (elim exE conjE) (rule that)
  have "\<exists>f. FaultHandler_Init stub (Register base idt) hs = Inr f \<and> fault_idt f = i1"
    using i1(1) assms(3) by (simp add: FaultHandler_Init_def SetFaultHandler_def)
  then obtain f where f: "FaultHandler_Init stub (Register base idt) hs = Inr f" "fault_idt f = i1" by blast
  have "gate i2 (32 + i) = Some (irqs ! i, 8, True)" if "i < 16" for i
  proof -
    have "gate_address (desc i2 ! (32 + i)) = irqs ! i \<and> selector (desc i2 ! (32 + i)) = 8 \<and>
        type_attr (desc i2 ! (32 + i)) = 0x8E"
      using i2(4) [rule_format, of "32 + i"] that by simp
    then show ?thesis using that i2(2,3) i1(2) reg(2) by (simp add: gate_def Let_def)
  qed
  moreover have "gate i2 (unat (fault_number code)) = Some (stub k, 8, type = Interrupt)"
    if "(code, k, type) \<in> set fault_vectors" for code k type
  proof -
    have less: "unat (fault_number code) < 32"
      using fault_vectors_below that by (force simp: fault_vector_def)
    then have "desc i2 ! unat (fault_number code) = desc i1 ! unat (fault_number code)"
      using i2(4) [rule_format, of "unat (fault_number code)"] by simp
    then have "is_gate (desc i2 ! unat (fault_number code)) (stub k) type" using i1(4) that by fastforce
    then show ?thesis
      using less i2(2,3) i1(2) reg(2)
      by (cases type) (simp_all add: gate_def is_gate_def Let_def)
  qed
  ultimately show ?thesis using f i2(1) by (auto simp: IRQHandler_Init_def)
qed

text \<open>
  C22. After \<open>Register\<close> and both \<open>Init\<close> functions the processor finds the stub of each exception and
  of each of the 16 lines at its vector, as a present gate of the kernel's code segment: trap
  gates for breakpoint and overflow, interrupt gates for all others.
\<close>

theorem IDT_vectors:
  assumes "length (desc idt) = 256" "length irqs = 16" "length hs = 20"
  shows "\<exists>f idt'. FaultHandler_Init stub (Register base idt) hs = Inr f \<and>
    IRQHandler_Init irqs (fault_idt f) = Inr idt' \<and>
    (\<forall>i<16. gate idt' (32 + i) = Some (irqs ! i, 8, True)) \<and>
    (\<forall>(code, k, type)\<in>set fault_vectors.
       gate idt' (unat (fault_number code)) = Some (stub k, 8, type = Interrupt))"
  using IDT_vectors_char [OF assms] .

definition empty_idt :: IDT where
  "empty_idt = \<lparr>ptr = \<lparr>size = 0, addr = 0\<rparr>,
     desc = replicate 256 \<lparr>offset_low = 0, selector = 0, zero = 0, type_attr = 0, offset_high = 0\<rparr>\<rparr>"

theorem IDT_vectors_witness:
  "\<exists>f idt'. FaultHandler_Init (\<lambda>k. 0xc0100000 + of_nat k) (Register 0xc0120000 empty_idt) (replicate 20 None) = Inr f \<and>
    IRQHandler_Init (map (\<lambda>k. 0xc0101000 + of_nat k) [0..<16]) (fault_idt f) = Inr idt' \<and>
    gate idt' 33 = Some (0xc0101001, 8, True) \<and> gate idt' 3 = Some (0xc0100003, 8, False)"
proof -
  have len: "length (desc empty_idt) = 256" by (simp add: empty_idt_def)
  have bp: "(Breakpoint, 3, Trap) \<in> set fault_vectors" by (simp add: fault_vectors_def)
  from IDT_vectors [OF len, of "map (\<lambda>k. 0xc0101000 + of_nat k) [0..<16]" "replicate 20 None"
      "\<lambda>k. 0xc0100000 + of_nat k" "0xc0120000"]
  obtain f idt' where r:
    "FaultHandler_Init (\<lambda>k. 0xc0100000 + of_nat k) (Register 0xc0120000 empty_idt) (replicate 20 None) = Inr f"
    "IRQHandler_Init (map (\<lambda>k. 0xc0101000 + of_nat k) [0..<16]) (fault_idt f) = Inr idt'"
    "\<forall>i<16. gate idt' (32 + i) = Some (map (\<lambda>k. 0xc0101000 + of_nat k) [0..<16] ! i, 8, True)"
    "\<forall>(code, k, type)\<in>set fault_vectors.
       gate idt' (unat (fault_number code)) = Some (0xc0100000 + of_nat k, 8, type = Interrupt)"
    by auto
  have "gate idt' 33 = Some (0xc0101001, 8, True)" using r(3) [rule_format, of 1] by simp
  moreover have "gate idt' 3 = Some (0xc0100003, 8, False)" using r(4) bp by fastforce
  ultimately show ?thesis using r by blast
qed

text \<open>
  \<open>Register\<close> gives the processor a limit of 128 entries: a vector from 128 on, which \<open>Set\<close>
  accepts, is never delivered.
\<close>

lemma IDT_upper_vectors_dead:
  "case Set (of_nat v) a sel type (Register base idt) of
     Inl e \<Rightarrow> v mod 2 ^ 32 \<ge> 256 \<and> e = Panic ''interrupt is bigger than 256''
   | Inr idt' \<Rightarrow> v mod 2 ^ 32 < 256 \<and> (\<forall>u. gate idt' (128 + u) = None)"
  by (auto simp: Set_def Register_def gate_def word_le_nat_alt unat_of_nat)

section \<open>Exceptions\<close>

lemma strflags_concat:
  "strflags f = '' '' @ concat (map (\<lambda>(mask, name). if f AND mask \<noteq> 0 then name else []) flag_names)"
proof -
  have "fold (append_flag f) fs str = str @ concat (map (\<lambda>(mask, name). if f AND mask \<noteq> 0 then name else []) fs)"
    for fs str
    by (induction fs arbitrary: str) (auto simp: append_flag_def)
  then show ?thesis by (simp add: strflags_def)
qed

text \<open>
  The text of the flags fits its buffer of 64 bytes for every value of \<open>eflags\<close>, with its NUL,
  and contains exactly the names of the set flags in order.
\<close>

lemma strflags_fits:
  "strflags f = '' '' @ concat (map snd (filter (\<lambda>(mask, name). f AND mask \<noteq> 0) flag_names)) \<and>
   length (strflags f) + 1 \<le> 38"
proof -
  have "concat (map (\<lambda>(mask, name). if f AND mask \<noteq> 0 then name else []) fs) =
      concat (map snd (filter (\<lambda>(mask, name). f AND mask \<noteq> 0) fs))" for fs :: "(u32 \<times> string) list"
    by (induction fs) auto
  moreover have "length (strflags f) \<le> 37"
    unfolding strflags_concat by (simp add: flag_names_def)
  ultimately show ?thesis by (simp add: strflags_concat)
qed

section \<open>The timer\<close>

lemma bytes_of_u16:
  fixes d :: u16
  shows "256 * unat (ucast (drop_bit 8 d) :: u8) + unat (ucast (d AND 0xff) :: u8) = unat d"
proof -
  have "d AND 0xff = d AND mask 8" by (simp add: mask_eq_exp_minus_1)
  then have lo: "unat (ucast (d AND 0xff) :: u8) = unat d mod 256"
    using unat_and_mask [of d 8] by (simp add: unat_ucast_mod)
  have "unat d < 65536" using unsigned_less [of d] by simp
  then have "unat (drop_bit 8 d) < 256" by (simp add: unat_drop_bit)
  then have "unat (ucast (drop_bit 8 d) :: u8) = unat d div 256" by (simp add: unat_ucast_mod unat_drop_bit)
  with lo show ?thesis by simp
qed

text \<open>
  C25. \<open>SetTimer\<close> programs the counter with 1193182 divided by the frequency, for all frequencies
  from 19 Hz on. Below that the quotient does not fit 16 bits and is truncated.
\<close>

theorem SetTimer_divisor:
  assumes "19 \<le> hz"
  shows "\<exists>s'. SetTimer hz s = Inr s' \<and> pit_divisor (history s') = Some (1193182 div unat hz)"
proof -
  define d where "d = (ucast ((1193182 :: u32) div ucast hz) :: u16)"
  have hz: "19 \<le> unat hz" "unat hz < 65536" using assms unsigned_less [of hz] by (auto simp: word_le_nat_alt)
  have "unat ((1193182 :: u32) div ucast hz) = 1193182 div unat hz"
    using hz by (simp add: unat_div_distrib unat_ucast_mod)
  moreover have bounds: "1193182 div unat hz < 65536" "0 < 1193182 div unat hz"
    using hz div_le_mono2 [of 19 "unat hz" 1193182] by (auto simp: div_greater_zero_iff)
  ultimately have d: "unat d = 1193182 div unat hz" by (simp add: d_def unat_ucast_mod)
  have "hz \<noteq> 0" using hz by auto
  then have "SetTimer hz s = Inr (out8 0x40 (ucast (drop_bit 8 d)) (out8 0x40 (ucast (d AND 0xff)) (out8 0x43 0x36 s)))"
    by (simp add: SetTimer_def d_def Let_def)
  then show ?thesis using bytes_of_u16 [of d] d bounds by (simp add: Let_def)
qed

theorem SetTimer_divisor_witness:
  "\<exists>s'. SetTimer 1000 sample_machine = Inr s' \<and> pit_divisor (history s') = Some 1193"
  using SetTimer_divisor [of 1000 sample_machine] by simp

lemma Tick_seconds:
  assumes "Suc n < 2 ^ 32"
  shows "rev [1..<Suc (Suc n div 1000)] =
    (if Suc n mod 1000 = 0 then Suc n div 1000 # rev [1..<Suc (n div 1000)] else rev [1..<Suc (n div 1000)])"
  by (simp add: div_Suc)

lemma Tick_fields:
  "ticks (Tick s) = ticks s + 1"
  "printed (Tick s) = (if (ticks s + 1) mod 1000 = 0 then ucast (ticks s + 1) div 1000 # printed s
     else printed s)"
  by (simp_all add: Tick_def Let_def)

text \<open>
  After \<open>n\<close> interrupts of the timer the clock shows \<open>n\<close> milliseconds, modulo 2^64, and up to
  2^32 every full second was printed once, in order.
\<close>

lemma Timer_counts:
  "unat (ticks ((Tick ^^ n) (Timer_Init t))) = n mod 2 ^ 64 \<and>
   (n < 2 ^ 32 \<longrightarrow> map unat (printed ((Tick ^^ n) (Timer_Init t))) =
      rev [1..<Suc (n div 1000)] @ map unat (printed t))"
proof (induction n)
  case 0
  then show ?case by (simp add: Timer_Init_def)
next
  case (Suc n)
  define s where "s = (Tick ^^ n) (Timer_Init t)"
  have v: "unat (ticks s + 1) = Suc n mod 2 ^ 64"
    using Suc by (simp add: s_def unat_word_ariths mod_simps)
  moreover have "map unat (printed (Tick s)) = rev [1..<Suc (Suc n div 1000)] @ map unat (printed t)"
    if n: "Suc n < 2 ^ 32"
  proof -
    have w: "unat (ticks s + 1) = Suc n" using v n by simp
    then have "(ticks s + 1) mod 1000 = 0 \<longleftrightarrow> Suc n mod 1000 = 0"
      by (simp add: word_unat_eq_iff unat_mod_distrib)
    moreover have "unat ((ucast (ticks s + 1) :: u32) div 1000) = Suc n div 1000"
      using n w by (simp add: unat_div_distrib unat_ucast_mod)
    ultimately show ?thesis
      using Suc n unfolding Tick_seconds [OF n] by (simp add: Tick_fields s_def [symmetric])
  qed
  ultimately show ?case by (simp add: s_def [symmetric] Tick_fields)
qed

lemma Timer_counts_example:
  "map unat (printed ((Tick ^^ 2500) (Timer_Init \<lparr>ticks = 7, printed = []\<rparr>))) = [2, 1]"
  using Timer_counts [of 2500 "\<lparr>ticks = 7, printed = []\<rparr>"] by (simp add: upt_rec)

end
