(* ===== verification/Libk_Stdio.thy ===== *)
theory Libk_Stdio
  imports Libk_Stdlib
begin

text \<open>
  The string routines of libk/stdio.cpp: C strings in memory, the conversions between numbers
  and strings, and the formatter behind \<open>kprintf\<close> and the log. Arrays on the stack of a routine
  are lists here, and a store behind their end is \<open>Undefined\<close>; a loop that may run forever is a
  \<open>partial_function\<close>.
\<close>

unbundle bit_operations_syntax

section \<open>C strings\<close>

partial_function (option) strlen_from :: "mem \<Rightarrow> u32 \<Rightarrow> u32 \<Rightarrow> u32 option" where
  "strlen_from m str i = (if m (str + i) \<noteq> 0 then strlen_from m str (i + 1) else Some i)"

definition strlen :: "mem \<Rightarrow> u32 \<Rightarrow> u32 result" where
  "strlen m str = returns (strlen_from m str 0)"

definition strrev :: "u32 \<Rightarrow> u32 \<Rightarrow> mem \<Rightarrow> (u32 \<times> mem) result" where
  "strrev dest src m =
     and_then (strlen m src) (\<lambda>srclen.
       let m = for_upto (\<lambda>i m. m(dest + of_nat i := m (src + (srclen - of_nat i - 1)))) (unat srclen) m
       in Inr (dest, m(dest + srclen := 0)))"

definition strncmp :: "mem \<Rightarrow> u32 \<Rightarrow> u32 \<Rightarrow> u32 \<Rightarrow> int" where
  "strncmp m str1 str2 len = memcmp m str1 str2 len"

definition strncpy :: "u32 \<Rightarrow> u32 \<Rightarrow> u32 \<Rightarrow> mem \<Rightarrow> u32 \<times> mem" where
  "strncpy dest src len m = (dest, memcpy dest src len m)"

text \<open>\<open>strcat\<close> returns a pointer to the last character it wrote.\<close>

partial_function (option) strcat_from :: "mem \<Rightarrow> u32 \<Rightarrow> u32 \<Rightarrow> (u32 \<times> mem) option" where
  "strcat_from m cstart str =
     (if m str \<noteq> 0 then strcat_from (m(cstart := m str)) (cstart + 1) (str + 1)
      else Some (cstart, m(cstart := 0)))"

definition strcat :: "u32 \<Rightarrow> u32 \<Rightarrow> mem \<Rightarrow> (u32 \<times> mem) result" where
  "strcat dst str m =
     and_then (strlen m dst) (\<lambda>len.
     and_then (returns (strcat_from m (dst + len) str)) (\<lambda>(cstart, m). Inr (cstart - 1, m)))"

section \<open>Numbers\<close>

fun ipow_loop :: "nat \<Rightarrow> u32 \<Rightarrow> u32" where
  "ipow_loop 0 base = base"
| "ipow_loop (Suc k) base = ipow_loop k (base * base)"

definition ipow :: "u32 \<Rightarrow> u32 \<Rightarrow> u32" where
  "ipow base exp = (if exp = 0 then 1 else if exp = 1 then base else ipow_loop (unat exp - 1) base)"

definition digit_table :: "u8 list" where
  "digit_table = map of_nat ([48..<58] @ [97..<123])"

text \<open>
  The loop of \<open>_inttostr\<close>; \<open>str\<close> holds the characters stored so far, of an array of 64. The base
  is an \<open>int\<close>, positive in every call, so it stands here as the unsigned value it converts to.
\<close>

abbreviation (input) "STR_SIZE \<equiv> 64 :: nat"

definition put :: "u8 \<Rightarrow> u8 list \<Rightarrow> u8 list result" where
  "put c str = (if length str < STR_SIZE then Inr (str @ [c]) else Inl (Undefined ''_inttostr: str overflows''))"

fun digits_loop :: "nat \<Rightarrow> u64 \<Rightarrow> u64 \<Rightarrow> u8 list \<Rightarrow> (u64 \<times> u8 list) result" where
  "digits_loop 0 num base str = Inl (Undefined ''_inttostr: str overflows'')"
| "digits_loop (Suc room) num base str =
     (if num \<ge> base
      then if base = 0 then Inl DivideError
           else let idx = num mod base in
                if unat idx \<ge> 36 then Inl (Undefined ''_inttostr: table index'')
                else and_then (put (digit_table ! unat idx) str) (digits_loop room (num div base) base)
      else Inr (num, str))"

definition inttostr :: "u64 \<Rightarrow> u64 \<Rightarrow> nat \<Rightarrow> u8 \<Rightarrow> u8 list result" where
  "inttostr num base padding padchar =
     and_then (digits_loop (Suc STR_SIZE) num base []) (\<lambda>(num, str).
     if unat num \<ge> 36 then Inl (Undefined ''_inttostr: table index'')
     else and_then (put (digit_table ! unat num) str) (\<lambda>str.
     let str = str @ replicate (padding - length str) padchar
     in if length str \<ge> STR_SIZE then Inl (Undefined ''_inttostr: str overflows'')
        else Inr (rev (takeWhile (\<lambda>c. c \<noteq> 0) str))))"

text \<open>The result is copied to \<open>retchar\<close>, with its NUL.\<close>

fun store_bytes :: "u32 \<Rightarrow> u8 list \<Rightarrow> mem \<Rightarrow> mem" where
  "store_bytes p [] m = m"
| "store_bytes p (c # cs) m = store_bytes (p + 1) cs (m(p := c))"

definition itoa :: "u32 \<Rightarrow> u32 \<Rightarrow> mem \<Rightarrow> mem result" where
  "itoa num str m =
     and_then (inttostr (scast num) 10 0 32) (\<lambda>s. Inr (store_bytes str (s @ [0]) m))"

definition digit_value :: "u8 \<Rightarrow> u64" where
  "digit_value c =
     (let snum = 0;
          snum = (if 48 \<le> c \<and> c \<le> 57 then ucast (c - 48) else snum);
          snum = (if 65 \<le> c \<and> c \<le> 90 then ucast (c - 65) + 10 else snum);
          snum = (if 97 \<le> c \<and> c \<le> 122 then ucast (c - 97) + 10 else snum)
      in snum)"

text \<open>
  \<open>_strtoint\<close> on the characters of the string, the last one first. The product is computed in 32
  bits: \<open>snum\<close> is an \<open>int\<close> and \<open>ipow\<close> returns a \<open>uint32_t\<close>.
\<close>

fun strtoint_loop :: "u8 list \<Rightarrow> u32 \<Rightarrow> u32 \<Rightarrow> u64 \<Rightarrow> u64 result" where
  "strtoint_loop [] base n num = Inr num"
| "strtoint_loop (c # cs) base n num =
     (if \<not> num < ucast base then Inl AssertFailed
      else strtoint_loop cs base (n + 1) (num + ucast (ucast (digit_value c) * ipow base n)))"

definition strtoint :: "u8 list \<Rightarrow> u32 \<Rightarrow> u64 result" where
  "strtoint s base = strtoint_loop (rev s) base 0 0"

definition atoi :: "u8 list \<Rightarrow> u32 result" where
  "atoi s = and_then (strtoint s 10) (\<lambda>v. Inr (ucast v))"

text \<open>\<open>long\<close> has 32 bits on the target.\<close>

definition atol :: "u8 list \<Rightarrow> u32 result" where
  "atol s = and_then (strtoint s 10) (\<lambda>v. Inr (ucast v))"

section \<open>The formatter\<close>

text \<open>
  The format is the list of its characters up to the NUL; the arguments are 32-bit words. The
  characters of a conversion's padding are collected in an array of 8.
\<close>

fun parse_padding :: "u8 list \<Rightarrow> u8 \<Rightarrow> u8 list \<Rightarrow> (u8 list \<times> u8 \<times> u8 list) result" where
  "parse_padding [] padchar padstr = Inr ([], padchar, padstr)"
| "parse_padding (c # fmt) padchar padstr =
     (if 48 \<le> c \<and> c \<le> 57
      then if padstr = [] \<and> c = 48 then parse_padding fmt 48 padstr
           else if length padstr \<ge> 8 then Inl (Undefined ''vsprintf: padstr overflows'')
           else parse_padding fmt padchar (padstr @ [c])
      else Inr (c # fmt, padchar, padstr))"

definition padding_value :: "u8 list \<Rightarrow> u32 result" where
  "padding_value padstr =
     (if padstr = [] then Inr 0
      else if length padstr \<ge> 8 then Inl (Undefined ''vsprintf: padstr overflows'')
      else atoi padstr)"

text \<open>A number goes through a local array of \<open>size\<close> characters, which must hold it and its NUL.\<close>

definition number :: "u64 \<Rightarrow> u64 \<Rightarrow> u32 \<Rightarrow> u8 \<Rightarrow> nat \<Rightarrow> u8 list result" where
  "number num base padding padchar array_size =
     and_then (if padding > 0 then inttostr num base (unat padding) padchar else inttostr num base 0 32)
       (\<lambda>s. if length s + 1 > array_size then Inl (Undefined ''vsprintf: num overflows'') else Inr s)"

text \<open>
  \<open>*str = 0; str = strcat(str, s); str++\<close> stores the characters of \<open>s\<close> and a NUL from \<open>str\<close> on and
  moves \<open>str\<close> to the NUL.
\<close>

definition append :: "u8 list \<Rightarrow> u32 \<times> mem \<Rightarrow> u32 \<times> mem" where
  "append s = (\<lambda>(str, m). (str + of_nat (length s), store_bytes str (s @ [0]) m))"

text \<open>The same for a string in memory: \<open>strcat\<close> itself.\<close>

definition append_string :: "u32 \<Rightarrow> u32 \<times> mem \<Rightarrow> (u32 \<times> mem) result" where
  "append_string s = (\<lambda>(str, m). and_then (strcat str s (m(str := 0))) (\<lambda>(str, m). Inr (str, m)))"

text \<open>The loop that pads a string on the right, with \<open>str\<close> at its last character.\<close>

definition pad_string :: "u32 \<Rightarrow> u32 \<times> mem \<Rightarrow> u32 \<times> mem" where
  "pad_string truepad = (\<lambda>(str, m).
     if 0 <s truepad
     then let (str, m) = for_upto (\<lambda>_ (str, m). (str + 1, m(str + 1 := 32))) (unat truepad) (str, m)
          in (str, m(str + 1 := 0))
     else (str, m))"

text \<open>One conversion: the character behind the padding, with the arguments that are left.\<close>

definition conversion :: "u8 \<Rightarrow> u32 \<Rightarrow> u8 \<Rightarrow> u32 list \<Rightarrow> u32 \<times> mem \<Rightarrow> (u32 list \<times> u32 \<times> mem) result" where
  "conversion c padding padchar args = (\<lambda>(str, m).
     if c = 37 then Inr (args, str, m(str := 37))
     else if c = 100 then
       (case args of [] \<Rightarrow> Inl (Undefined ''va_arg'') | i # args \<Rightarrow>
          and_then (number (scast i) 10 padding padchar 16) (\<lambda>num. Inr (args, append num (str, m))))
     else if c = 117 then
       (case args of [] \<Rightarrow> Inl (Undefined ''va_arg'') | i # args \<Rightarrow>
          and_then (number (ucast (i AND 0x7fffffff)) 10 padding padchar 16) (\<lambda>num.
            Inr (args, append ((if i <s 0 then [45] else []) @ num) (str, m))))
     else if c = 120 then
       (case args of [] \<Rightarrow> Inl (Undefined ''va_arg'') | i # args \<Rightarrow>
          and_then (number (ucast i) 16 padding padchar 8) (\<lambda>num. Inr (args, append num (str, m))))
     else if c = 115 then
       (case args of [] \<Rightarrow> Inl (Undefined ''va_arg'') | s # args \<Rightarrow>
          and_then (append_string s (str, m)) (\<lambda>(str, m).
          and_then (strlen m s) (\<lambda>len.
            let (str, m) = pad_string (padding - len) (str, m) in Inr (args, str + 1, m))))
     else if c = 99 then
       (case args of [] \<Rightarrow> Inl (Undefined ''va_arg'') | i # args \<Rightarrow>
          Inr (args, str + 1, m(str + 1 := ucast i)))
     else Inr (args, str, m))"

function (sequential) vsprintf_loop :: "u8 list \<Rightarrow> u32 list \<Rightarrow> u32 \<times> mem \<Rightarrow> (u32 \<times> mem) result" where
  "vsprintf_loop [] args out = Inr out"
| "vsprintf_loop (c # fmt) args out =
     (if c = 37
      then case parse_padding fmt 32 [] of
             Inl e \<Rightarrow> Inl e
           | Inr (fmt', padchar, padstr) \<Rightarrow>
               (case padding_value padstr of
                  Inl e \<Rightarrow> Inl e
                | Inr padding \<Rightarrow>
                    (case fmt' of
                       [] \<Rightarrow> Inl (Undefined ''vsprintf: fmt runs over its end'')
                     | d # fmt'' \<Rightarrow>
                         (case conversion d padding padchar args out of
                            Inl e \<Rightarrow> Inl e
                          | Inr (args', out') \<Rightarrow> vsprintf_loop fmt'' args' out')))
      else let (str, m) = out in vsprintf_loop fmt args (str + 1, m(str := c)))"
  by pat_completeness auto

lemma parse_padding_length: "parse_padding fmt p s = Inr (fmt', q, t) \<Longrightarrow> length fmt' \<le> length fmt"
  by (induction fmt p s rule: parse_padding.induct) (fastforce split: if_splits)+

termination vsprintf_loop
  by (relation "measure (\<lambda>(fmt, _, _). length fmt)") (auto dest: parse_padding_length)

definition vsprintf :: "u32 \<Rightarrow> u8 list \<Rightarrow> u32 list \<Rightarrow> mem \<Rightarrow> mem result" where
  "vsprintf str fmt args m =
     and_then (vsprintf_loop fmt args (str, m)) (\<lambda>(str, m). Inr (m(str := 0, str + 1 := 0)))"

end
