(* ===== verification/Libk_Strings.thy ===== *)
theory Libk_Strings
  imports Libk_Stdio
begin

text \<open>
  What the string routines do to C strings in memory, and the digits of a number in a base.
\<close>

unbundle bit_operations_syntax

section \<open>Stores of strings\<close>

lemma store_bytes_at:
  "length cs \<le> 2 ^ 32 \<Longrightarrow> store_bytes p cs m a = (if in_region p (length cs) a then cs ! unat (a - p) else m a)"
proof (induction cs arbitrary: p m)
  case Nil
  then show ?case by simp
next
  case (Cons c cs)
  show ?case
  proof (cases "a = p")
    case True
    have "\<not> in_region (p + 1) (length cs) p"
    proof -
      have "unat (p - (p + 1)) = 2 ^ 32 - 1" by (simp add: unsigned_minus_1_eq_mask mask_eq_exp_minus_1)
      then show ?thesis using Cons.prems by (simp add: in_region_def)
    qed
    then show ?thesis using Cons True by (simp add: in_region_def)
  next
    case False
    then have pos: "0 < unat (a - p)" by (simp add: unat_gt_0)
    then have "1 \<le> a - p" by (simp add: word_le_nat_alt)
    then have "unat (a - p - 1) = unat (a - p) - 1" by (simp add: unat_sub_le)
    moreover have "a - (p + 1) = a - p - 1" by simp
    ultimately have "unat (a - (p + 1)) = unat (a - p) - 1" by metis
    then show ?thesis using Cons False pos by (auto simp: in_region_def nth_Cons')
  qed
qed

lemma store_bytes_append: "store_bytes p (xs @ ys) m = store_bytes (p + of_nat (length xs)) ys (store_bytes p xs m)"
  by (induction xs arbitrary: p m) (simp_all add: add.assoc)

lemma cstr_store_bytes:
  assumes "0 \<notin> set s" "length s < 2 ^ 32"
  shows "cstr (store_bytes p (s @ [0]) m) p s"
proof -
  have at: "store_bytes p (s @ [0]) m (p + of_nat i) = (s @ [0]) ! i" if "i \<le> length s" for i
  proof -
    have "unat (of_nat i :: u32) = i" using that assms(2) by (intro unat_of_nat_small) simp
    then show ?thesis using that assms(2) by (simp add: store_bytes_at in_region_def)
  qed
  have "m' (p + of_nat i) = s ! i \<and> s ! i \<noteq> 0" if "i < length s" "m' = store_bytes p (s @ [0]) m" for i m'
    using that at [of i] assms(1) nth_mem [of i s] by (metis less_imp_le nth_append)
  then show ?thesis unfolding cstr_nth using at [of "length s"] by (simp add: nth_append)
qed

lemma cstr_region_cong:
  assumes "cstr m p s" "\<And>a. in_region p (Suc (length s)) a \<Longrightarrow> m' a = m a" "length s < 2 ^ 32"
  shows "cstr m' p s"
  using assms unfolding cstr_nth by (simp add: in_regionI)

section \<open>Characters in memory\<close>

fun chars :: "mem \<Rightarrow> u32 \<Rightarrow> u8 list \<Rightarrow> bool" where
  "chars m p [] \<longleftrightarrow> True"
| "chars m p (c # cs) \<longleftrightarrow> m p = c \<and> chars m (p + 1) cs"

lemma chars_append [simp]: "chars m p (xs @ ys) \<longleftrightarrow> chars m p xs \<and> chars m (p + of_nat (length xs)) ys"
  by (induction xs arbitrary: p) (simp_all add: add.assoc)

lemma cstr_chars: "cstr m p s \<longleftrightarrow> chars m p s \<and> 0 \<notin> set s \<and> m (p + of_nat (length s)) = 0"
  by (induction s arbitrary: p) (auto simp: add.assoc)

lemma chars_cong: "(\<And>k. k < length s \<Longrightarrow> m' (p + of_nat k) = m (p + of_nat k)) \<Longrightarrow> chars m' p s \<longleftrightarrow> chars m p s"
proof (induction s arbitrary: p)
  case (Cons c s)
  have "m' (p + 1 + of_nat k) = m (p + 1 + of_nat k)" if "k < length s" for k
    using Cons.prems [of "Suc k"] that by (simp add: add.assoc)
  then show ?case using Cons.IH [of "p + 1"] Cons.prems [of 0] by simp
qed simp

section \<open>strlen and strcat\<close>

lemma strlen_from_cstr:
  assumes "cstr m p s" "i \<le> length s"
  shows "strlen_from m p (of_nat i) = Some (of_nat (length s))"
  using assms(2)
proof (induction "length s - i" arbitrary: i)
  case 0
  then have "i = length s" by simp
  then show ?case using assms(1) by (subst strlen_from.simps) (simp add: cstr_nth)
next
  case (Suc d)
  then have i: "i < length s" by simp
  have "strlen_from m p (of_nat i) = strlen_from m p (of_nat i + 1)"
    using assms(1) i by (subst strlen_from.simps) (simp add: cstr_nth)
  also have "of_nat i + 1 = (of_nat (Suc i) :: u32)" by simp
  finally show ?case using Suc.hyps(1) [of "Suc i"] Suc.hyps(2) i by (simp add: add.commute)
qed

lemma strlen_cstr: "cstr m p s \<Longrightarrow> strlen m p = Inr (of_nat (length s))"
  using strlen_from_cstr [of m p s 0] by (simp add: strlen_def)

lemma strcat_from_cstr:
  assumes "cstr m src s" "disjoint_regions c (Suc (length s)) src (Suc (length s))" "length s < 2 ^ 32 - 1"
  shows "strcat_from m c src = Some (c + of_nat (length s), store_bytes c (s @ [0]) m)"
  using assms
proof (induction s arbitrary: m c src)
  case Nil
  then show ?case by (subst strcat_from.simps) simp
next
  case (Cons x s)
  have x: "m src = x" "x \<noteq> 0" "cstr m (src + 1) s" using Cons.prems(1) by auto
  have "m' a = m a" if inr: "in_region (src + 1) (Suc (length s)) a" and m': "m' = m(c := x)" for a m'
  proof -
    have "in_region c (Suc (length (x # s))) c" by (simp add: in_region_def)
    then have "\<not> in_region src (Suc (length (x # s))) c"
      using disjoint_regionsD [OF Cons.prems(2)] by blast
    moreover obtain i where "i < Suc (length s)" "a = src + 1 + of_nat i"
      by (rule in_regionE [OF inr])
    then have "in_region src (Suc (length (x # s))) a"
      using Cons.prems(3) in_regionI [of "Suc i" "Suc (length (x # s))" src] by (simp add: add.assoc)
    ultimately show ?thesis using m' by auto
  qed
  then have "cstr (m(c := x)) (src + 1) s"
    using Cons.prems(3) by (intro cstr_region_cong [OF x(3)]) auto
  moreover have "disjoint_regions (c + 1) (Suc (length s)) (src + 1) (Suc (length s))"
    using Cons.prems(2) by (auto simp: disjoint_regions_def)
  ultimately have "strcat_from (m(c := x)) (c + 1) (src + 1) =
      Some (c + 1 + of_nat (length s), store_bytes (c + 1) (s @ [0]) (m(c := x)))"
    using Cons.IH Cons.prems(3) by simp
  then show ?case using x by (subst strcat_from.simps) (simp add: add.assoc)
qed

section \<open>Digits\<close>

function digits :: "nat \<Rightarrow> nat \<Rightarrow> nat list" where
  "digits b n = (if b < 2 \<or> n < b then [n] else n mod b # digits b (n div b))"
  by auto

termination
  by (relation "measure snd") auto

declare digits.simps [simp del]

lemma digits_value: "foldr (\<lambda>d v. d + b * v) (digits b n) 0 = n"
proof (induction b n rule: digits.induct)
  case (1 b n)
  then show ?case by (subst digits.simps) (auto simp: add.commute)
qed

lemma digits_less: "2 \<le> b \<Longrightarrow> d \<in> set (digits b n) \<Longrightarrow> d < b"
proof (induction b n rule: digits.induct)
  case (1 b n)
  from 1(3) show ?case by (subst (asm) digits.simps) (use 1 in \<open>auto split: if_splits\<close>)
qed

lemma digits_not_Nil [simp]: "digits b n \<noteq> []"
  by (subst digits.simps) simp

lemma digits_length: "2 \<le> b \<Longrightarrow> n < b ^ k \<Longrightarrow> 0 < k \<Longrightarrow> length (digits b n) \<le> k"
proof (induction b n arbitrary: k rule: digits.induct)
  case (1 b n)
  show ?case
  proof (cases "n < b")
    case True
    then show ?thesis using 1(4) by (subst digits.simps) simp
  next
    case False
    then obtain j where k: "k = Suc j" "0 < j" using 1(3,4) by (cases k; cases "k - 1") auto
    then have "n div b < b ^ j" using 1(2,3) by (simp add: less_mult_imp_div_less mult.commute)
    then have "length (digits b (n div b)) \<le> j" using 1(1) 1(2) False k by simp
    then show ?thesis using False k by (subst digits.simps) (auto simp: 1(2))
  qed
qed

text \<open>No leading zero, unless the number is 0.\<close>

lemma digits_last: "2 \<le> b \<Longrightarrow> n \<noteq> 0 \<Longrightarrow> last (digits b n) \<noteq> 0"
proof (induction b n rule: digits.induct)
  case (1 b n)
  then show ?case by (subst digits.simps) (auto simp: div_eq_0_iff)
qed

definition digit_char :: "nat \<Rightarrow> u8" where
  "digit_char d = digit_table ! d"

lemma digit_char: "d < 36 \<Longrightarrow> digit_char d = (if d < 10 then of_nat (48 + d) else of_nat (87 + d))"
  unfolding digit_char_def digit_table_def
  by (subst nth_map) (auto simp: nth_append simp del: upt_rec_numeral)

lemma digit_char_nonzero: "d < 36 \<Longrightarrow> digit_char d \<noteq> 0"
proof -
  assume d: "d < 36"
  have "unat (of_nat (if d < 10 then 48 + d else 87 + d) :: u8) = (if d < 10 then 48 + d else 87 + d)"
    using d by (intro unat_of_nat_small) simp
  then show ?thesis using d by (auto simp: digit_char simp del: of_nat_add)
qed

lemma digits_loop_char:
  assumes "2 \<le> unat base" "unat base \<le> 36"
    and "length str + length (digits (unat base) (unat num)) \<le> 64"
    and "length (digits (unat base) (unat num)) \<le> room"
  shows "digits_loop room num base str =
    Inr (of_nat (last (digits (unat base) (unat num))),
         str @ map digit_char (butlast (digits (unat base) (unat num))))"
  using assms(3,4)
proof (induction room arbitrary: num str)
  case (Suc room)
  have base: "base \<noteq> 0" using assms(1) by auto
  show ?case
  proof (cases "num < base")
    case True
    then have "digits (unat base) (unat num) = [unat num]" by (subst digits.simps) (simp add: word_less_nat_alt)
    then show ?thesis using True by (simp add: not_le [symmetric])
  next
    case False
    then have ge: "unat base \<le> unat num" by (simp add: word_less_nat_alt)
    have u: "unat (num mod base) = unat num mod unat base" "unat (num div base) = unat num div unat base"
      by (simp_all add: unat_mod_distrib unat_div_distrib)
    have split: "digits (unat base) (unat num) =
        unat num mod unat base # digits (unat base) (unat num div unat base)"
      using ge assms(1) by (subst digits.simps) simp
    have less: "unat num mod unat base < 36"
      using assms(1,2) mod_less_divisor [of "unat base" "unat num"] by linarith
    have len: "length str < 64" using Suc.prems(1) split by simp
    have "digits_loop room (num div base) base (str @ [digit_char (unat num mod unat base)]) =
      Inr (of_nat (last (digits (unat base) (unat num div unat base))),
        (str @ [digit_char (unat num mod unat base)]) @ map digit_char (butlast (digits (unat base) (unat num div unat base))))"
      using Suc.IH [of "str @ [digit_char (unat num mod unat base)]" "num div base"] Suc.prems split u by simp
    then show ?thesis
      using False base less len u split by (simp add: put_def digit_char_def Let_def)
  qed
qed simp

lemma inttostr_char:
  assumes "2 \<le> unat base" "unat base \<le> 36" "unat num < unat base ^ 63" "padding \<le> 63" "padchar \<noteq> 0"
  defines "ds \<equiv> digits (unat base) (unat num)"
  shows "inttostr num base padding padchar =
    Inr (replicate (padding - length ds) padchar @ map digit_char (rev ds))"
proof -
  have len: "length ds \<le> 63" unfolding ds_def by (rule digits_length) (use assms in auto)
  have small: "d < 36" if "d \<in> set ds" for d
    using digits_less [OF assms(1)] that assms(2) unfolding ds_def by fastforce
  have last: "last ds < 36" "unat (of_nat (last ds) :: u64) = last ds"
    using small [of "last ds"] by (auto simp: ds_def unat_of_nat_small)
  have loop: "digits_loop (Suc 64) num base [] = Inr (of_nat (last ds), map digit_char (butlast ds))"
    using digits_loop_char [OF assms(1,2), of "[]" num "Suc 64"] len by (simp add: ds_def)
  have "map digit_char (butlast ds) @ [digit_char (last ds)] = map digit_char ds"
    using append_butlast_last_id [of ds] by (metis digits_not_Nil ds_def list.simps(8,9) map_append)
  then have put: "put (digit_table ! last ds) (map digit_char (butlast ds)) = Inr (map digit_char ds)"
    using len by (simp add: put_def digit_char_def)
  have whole: "takeWhile (\<lambda>c. c \<noteq> 0) (map digit_char ds @ replicate (padding - length ds) padchar) =
      map digit_char ds @ replicate (padding - length ds) padchar"
    using small digit_char_nonzero assms(5) by (subst takeWhile_eq_all_conv) auto
  have room: "\<not> 64 \<le> length (map digit_char ds @ replicate (padding - length ds) padchar)"
    "\<not> 36 \<le> unat (of_nat (last ds) :: u64)"
    using len last assms(4) by simp_all
  show ?thesis
    unfolding inttostr_def
    by (simp only: loop and_then.simps case_prod_conv last(2) room(2)[unfolded last(2)] put Let_def
        length_map room(1)[unfolded length_map] whole if_False)
      (simp add: rev_map)
qed

end
