(* ===== verification/Libk_Format.thy ===== *)
theory Libk_Format
  imports Libk_Strings
begin

text \<open>
  How the formatter runs: literal characters are copied, and a conversion of a number appends its
  digits or overflows the array they pass through.
\<close>

unbundle bit_operations_syntax

section \<open>Consecutive stores\<close>

lemma store_bytes_over_nul:
  "store_bytes (p + of_nat (length s)) (c # cs) (store_bytes p (s @ [0]) m) = store_bytes p (s @ c # cs) m"
  by (simp add: store_bytes_append)

section \<open>The length of a numeral\<close>

definition numeral_str :: "nat \<Rightarrow> nat \<Rightarrow> u8 list" where
  "numeral_str b n = map digit_char (rev (digits b n))"

lemma length_numeral_str [simp]: "length (numeral_str b n) = length (digits b n)"
  by (simp add: numeral_str_def)

lemma foldr_digits_less: "(\<forall>d\<in>set ds. d < (b :: nat)) \<Longrightarrow> foldr (\<lambda>d v. d + b * v) ds 0 < b ^ length ds"
proof (induction ds)
  case (Cons d ds)
  then have "foldr (\<lambda>d v. d + b * v) ds 0 < b ^ length ds" by simp
  then have "foldr (\<lambda>d v. d + b * v) ds 0 + 1 \<le> b ^ length ds" "d < b"
    unfolding Suc_eq_plus1 [symmetric] using Cons.prems by (auto intro: Suc_leI)
  then have "d + b * foldr (\<lambda>d v. d + b * v) ds 0 < b * (foldr (\<lambda>d v. d + b * v) ds 0 + 1)" by simp
  also have "\<dots> \<le> b * b ^ length ds" using \<open>_ + 1 \<le> _\<close> by (rule mult_le_mono2)
  finally show ?case by simp
qed simp

lemma digits_length_iff: "2 \<le> b \<Longrightarrow> 0 < k \<Longrightarrow> length (digits b n) \<le> k \<longleftrightarrow> n < b ^ k"
proof
  assume b: "2 \<le> b" and le: "length (digits b n) \<le> k"
  have "n < b ^ length (digits b n)"
    using foldr_digits_less [of "digits b n" b] digits_less [OF b] by (simp add: digits_value)
  also have "\<dots> \<le> b ^ k" using b le by (intro power_increasing) auto
  finally show "n < b ^ k" .
qed (rule digits_length)

lemma number_unpadded:
  assumes "2 \<le> unat base" "unat base \<le> 36" "unat num < unat base ^ 63" "1 < len"
  shows "number num base 0 padchar len =
    (if unat num < unat base ^ (len - 1) then Inr (numeral_str (unat base) (unat num))
     else Inl (Undefined ''vsprintf: num overflows''))"
  using assms digits_length_iff [of "unat base" "len - 1" "unat num"] inttostr_char [OF assms(1-3), of 0 32]
  by (auto simp: number_def numeral_str_def)

section \<open>The loop\<close>

lemma vsprintf_loop_plain:
  "37 \<notin> set pre \<Longrightarrow> vsprintf_loop (pre @ fmt) args (str, m) =
     vsprintf_loop fmt args (str + of_nat (length pre), store_bytes str pre m)"
  by (induction pre arbitrary: str m) (simp_all add: add.assoc)

lemma vsprintf_loop_conversion:
  assumes "\<not> (48 \<le> c \<and> c \<le> 57)"
  shows "vsprintf_loop (37 # c # fmt) args out =
    and_then (conversion c 0 32 args out) (\<lambda>(args, out). vsprintf_loop fmt args out)"
  using assms by (cases "conversion c 0 32 args out") (auto simp: padding_value_def)

section \<open>Signed arguments\<close>

lemma sint_u32: "sint (i :: u32) = (if unat i < 2 ^ 31 then int (unat i) else int (unat i) - 2 ^ 32)"
proof -
  have n: "unat i < 2 ^ 32" using unat_less_u32 [of i] by simp
  have "bit (uint i) 31 \<longleftrightarrow> \<not> unat i < 2 ^ 31"
  proof (cases "unat i < 2 ^ 31")
    case True
    then have "bit (unat i) 31 = False" unfolding bit_iff_odd by (subst div_less) simp_all
    then have "bit (int (unat i)) 31 = False" by (simp only: bit_of_nat_iff_bit)
    then show ?thesis using True by simp
  next
    case False
    then have "unat i div 2 ^ 31 = 1" using n by (intro div_nat_eqI) simp_all
    then have "bit (unat i) 31" unfolding bit_iff_odd by simp
    then have "bit (int (unat i)) 31" by (simp only: bit_of_nat_iff_bit)
    then show ?thesis using False by simp
  qed
  moreover have "uint i < 2 ^ 32" using uint_lt2p [of i] by simp
  ultimately show ?thesis
    by (simp add: sint_uint signed_take_bit_eq_take_bit_minus take_bit_eq_mod)
qed

lemma word_sle_zero: "0 \<le>s (i :: u32) \<longleftrightarrow> unat i < 2 ^ 31"
proof -
  have "uint i < 2 ^ 32" using uint_lt2p [of i] by simp
  then show ?thesis by (simp add: word_sle_eq sint_u32)
qed

lemma sign_extension:
  assumes "n < 2 ^ 32"
  shows "nat ((if n < 2 ^ 31 then int n else int n - 2 ^ 32) mod 2 ^ 64) =
    (if n < 2 ^ 31 then n else 2 ^ 64 - 2 ^ 32 + n)"
proof -
  have "(int n - 2 ^ 32) mod 2 ^ 64 = (int n - 2 ^ 32 + 2 ^ 64) mod 2 ^ 64"
    by (rule mod_add_self2 [symmetric])
  also have "\<dots> = int n - 2 ^ 32 + 2 ^ 64" using assms by (intro mod_pos_pos_trivial) simp_all
  finally show ?thesis using assms by (simp add: nat_add_distrib)
qed

lemma unat_scast_u64:
  "unat (scast (i :: u32) :: u64) = (if unat i < 2 ^ 31 then unat i else 2 ^ 64 - 2 ^ 32 + unat i)"
proof -
  have "(scast i :: u64) = word_of_int (sint i)" by transfer simp
  then have "unat (scast i :: u64) = nat (sint i mod 2 ^ 64)"
    by (simp only: unat_eq_nat_uint uint_word_of_int_eq take_bit_eq_mod) simp
  moreover have "unat i < 2 ^ 32" using unat_less_u32 [of i] by simp
  ultimately show ?thesis by (simp only: sint_u32 sign_extension)
qed

lemma number_d:
  "number (scast (i :: u32)) 10 0 32 16 =
    (if 0 \<le>s i then Inr (numeral_str 10 (unat i)) else Inl (Undefined ''vsprintf: num overflows''))"
  using number_unpadded [of 10 "scast i" 16 32] unat_less_u32 [of i]
  by (simp add: unat_scast_u64 word_sle_zero)

lemma numeral_str_char: "2 \<le> b \<Longrightarrow> b \<le> 36 \<Longrightarrow> c \<in> set (numeral_str b n) \<Longrightarrow> 48 \<le> unat c"
proof -
  assume b: "2 \<le> b" "b \<le> 36" and "c \<in> set (numeral_str b n)"
  then obtain d where d: "c = digit_char d" "d < 36" using digits_less [of b] by (fastforce simp: numeral_str_def)
  have "unat (of_nat (if d < 10 then 48 + d else 87 + d) :: u8) = (if d < 10 then 48 + d else 87 + d)"
    using d by (intro unat_of_nat_small) simp
  then show ?thesis using d by (auto simp: digit_char simp del: of_nat_add)
qed

lemma numeral_str_nonzero: "2 \<le> b \<Longrightarrow> b \<le> 36 \<Longrightarrow> 0 \<notin> set (numeral_str b n)"
  using numeral_str_char [of b 0 n] by auto

lemma numeral_str_10: "n < 2 ^ 32 \<Longrightarrow> length (numeral_str 10 n) \<le> 10"
  by (simp add: digits_length_iff)

section \<open>Formats with one conversion\<close>

lemma vsprintf_plain_tail:
  "37 \<notin> set post \<Longrightarrow> vsprintf_loop post args (str, m) = Inr (str + of_nat (length post), store_bytes str post m)"
  using vsprintf_loop_plain [of post "[]" args str m] by simp

lemma vsprintf_number:
  assumes plain: "37 \<notin> set pre" "37 \<notin> set post"
    and conversion: "\<not> (48 \<le> c \<and> c \<le> 57)"
      "\<And>out. conversion c 0 32 [i] out = and_then r (\<lambda>num. Inr ([], append num out))"
  shows "vsprintf str (pre @ [37, c] @ post) [i] m =
    and_then r (\<lambda>num. Inr (store_bytes str (pre @ num @ post @ [0, 0]) m))"
proof (cases r)
  case (Inl e)
  then show ?thesis using plain conversion
    by (simp add: vsprintf_def vsprintf_loop_plain vsprintf_loop_conversion del: vsprintf_loop.simps)
next
  case (Inr num)
  let ?m = "store_bytes str pre m" and ?p = "str + of_nat (length pre)"
  obtain c cs where post: "post @ [0, 0] = c # cs" by (cases "post @ [0, 0]") auto
  have "store_bytes (?p + of_nat (length num)) (post @ [0, 0]) (store_bytes ?p (num @ [0]) ?m) =
      store_bytes ?p (num @ post @ [0, 0]) ?m"
    unfolding post by (rule store_bytes_over_nul)
  then show ?thesis using plain conversion Inr
    by (simp add: vsprintf_def vsprintf_loop_plain vsprintf_loop_conversion vsprintf_plain_tail append_def
        store_bytes_append add.assoc del: vsprintf_loop.simps)
qed

lemma vsprintf_loop_number:
  assumes "37 \<notin> set pre" "37 \<notin> set post"
    and "\<not> (48 \<le> c \<and> c \<le> 57)" "\<And>out. conversion c 0 32 [i] out = and_then r (\<lambda>num. Inr ([], append num out))"
  shows "\<exists>m'. vsprintf_loop (pre @ [37, c] @ post) [i] (str, m) =
    and_then r (\<lambda>num. Inr (str + of_nat (length (pre @ num @ post)), m' num))"
proof (intro exI)
  show "vsprintf_loop (pre @ [37, c] @ post) [i] (str, m) = and_then r (\<lambda>num. Inr (str + of_nat (length (pre @ num @ post)),
      store_bytes (str + of_nat (length (pre @ num))) post (store_bytes (str + of_nat (length pre)) (num @ [0]) (store_bytes str pre m))))"
    using assms by (cases r)
      (simp_all add: vsprintf_loop_plain vsprintf_loop_conversion vsprintf_plain_tail append_def add.assoc del: vsprintf_loop.simps)
qed

end
