(* ===== verification/Libk_Pieces.thy ===== *)
theory Libk_Pieces
  imports Libk_Format
begin

text \<open>
  Formats with any number of conversions: a format is taken apart into pieces, and the formatter
  stores what the pieces stand for.
\<close>

unbundle bit_operations_syntax

section \<open>Pieces\<close>

text \<open>
  Literal characters, \<open>%d\<close> and \<open>%x\<close> with their arguments, and \<open>%s\<close> with the address of its
  argument and the string that is there.
\<close>

datatype piece = Chars "u8 list" | Decimal u32 | Hexadecimal u32 | Str u32 "u8 list"

fun piece_format :: "piece \<Rightarrow> u8 list" where
  "piece_format (Chars t) = t"
| "piece_format (Decimal i) = [37, 100]"
| "piece_format (Hexadecimal i) = [37, 120]"
| "piece_format (Str p t) = [37, 115]"

fun piece_args :: "piece \<Rightarrow> u32 list" where
  "piece_args (Chars t) = []"
| "piece_args (Decimal i) = [i]"
| "piece_args (Hexadecimal i) = [i]"
| "piece_args (Str p t) = [p]"

fun piece_text :: "piece \<Rightarrow> u8 list" where
  "piece_text (Chars t) = t"
| "piece_text (Decimal i) = numeral_str 10 (unat i)"
| "piece_text (Hexadecimal i) = numeral_str 16 (unat i)"
| "piece_text (Str p t) = t"

text \<open>The numbers fit the arrays of the formatter, and the strings lie outside the output \<open>B\<close>.\<close>

fun piece_ok :: "u32 set \<Rightarrow> mem \<Rightarrow> piece \<Rightarrow> bool" where
  "piece_ok B m (Chars t) \<longleftrightarrow> 0 \<notin> set t \<and> 37 \<notin> set t"
| "piece_ok B m (Decimal i) \<longleftrightarrow> 0 \<le>s i"
| "piece_ok B m (Hexadecimal i) \<longleftrightarrow> i < 0x10000000"
| "piece_ok B m (Str p t) \<longleftrightarrow> cstr m p t \<and> (\<forall>k\<le>length t. p + of_nat k \<notin> B)"

definition pieces_format :: "piece list \<Rightarrow> u8 list" where
  "pieces_format ps = concat (map piece_format ps)"

definition pieces_args :: "piece list \<Rightarrow> u32 list" where
  "pieces_args ps = concat (map piece_args ps)"

definition pieces_text :: "piece list \<Rightarrow> u8 list" where
  "pieces_text ps = concat (map piece_text ps)"

lemma pieces_simps [simp]:
  "pieces_format [] = []" "pieces_format (x # ps) = piece_format x @ pieces_format ps"
  "pieces_args [] = []" "pieces_args (x # ps) = piece_args x @ pieces_args ps"
  "pieces_text [] = []" "pieces_text (x # ps) = piece_text x @ pieces_text ps"
  by (simp_all add: pieces_format_def pieces_args_def pieces_text_def)

lemma number_x:
  "i < 0x10000000 \<Longrightarrow> number (ucast (i :: u32)) 16 0 32 8 = Inr (numeral_str 16 (unat i))"
  using number_unpadded [of 16 "ucast i" 8 32] unat_less_u32 [of i]
  by (simp add: unat_ucast_mod word_less_nat_alt)

lemma piece_text_nonzero: "piece_ok B m x \<Longrightarrow> 0 \<notin> set (piece_text x)"
  by (cases x) (auto simp: numeral_str_nonzero cstr_chars)

lemma pieces_text_nonzero: "list_all (piece_ok B m) ps \<Longrightarrow> 0 \<notin> set (pieces_text ps)"
  by (induction ps) (use piece_text_nonzero in auto)

section \<open>One piece\<close>

lemma vsprintf_loop_number_piece:
  assumes "\<not> (48 \<le> c \<and> c \<le> 57)" "conversion c 0 32 (i # args) (str, m) = Inr (args, append t (str, m))"
  shows "vsprintf_loop ([37, c] @ fmt) (i # args) (str, m) =
    vsprintf_loop fmt args (str + of_nat (length t), store_bytes str (t @ [0]) m)"
  using vsprintf_loop_conversion [OF assms(1), of fmt "i # args" "(str, m)"] assms(2)
  by (simp add: append_def del: vsprintf_loop.simps)

lemma pad_string_negative:
  assumes "unat len \<le> 2 ^ 31"
  shows "pad_string (- len) out = out"
proof -
  have "\<not> 0 <s - len"
  proof (cases "len = 0")
    case False
    then have "0 < unat len" by (simp add: unat_gt_0)
    moreover have "- len = of_nat (2 ^ 32 - unat len)"
      using unat_less_u32 [of len] by (simp add: of_nat_diff)
    ultimately have "unat (- len) = 2 ^ 32 - unat len" by (simp add: unat_of_nat_small)
    then have "\<not> unat (- len) < 2 ^ 31" using assms by simp
    then have "sint (- len) < 0" using uint_lt2p [of "- len"] by (simp add: sint_u32)
    then show ?thesis by (simp add: word_sless_alt)
  qed simp
  then show ?thesis by (cases out) (simp add: pad_string_def)
qed

lemma store_bytes_first: "store_bytes p (s @ [0]) (m(p := x)) = store_bytes p (s @ [0]) m"
  by (cases s) simp_all

lemma append_string_cstr:
  assumes "cstr m s t" "disjoint_regions str (Suc (length t)) s (Suc (length t))" "length t < 2 ^ 32 - 1"
  shows "append_string s (str, m) = Inr (str + of_nat (length t) - 1, store_bytes str (t @ [0]) m)"
proof -
  have "in_region str (Suc (length t)) str" by (simp add: in_region_def)
  then have "(m(str := 0)) a = m a" if "in_region s (Suc (length t)) a" for a
    using disjoint_regionsD [OF assms(2)] that by auto
  then have "cstr (m(str := 0)) s t" by (rule cstr_region_cong [OF assms(1)]) (use assms(3) in auto)
  then have "strcat_from (m(str := 0)) str s = Some (str + of_nat (length t), store_bytes str (t @ [0]) m)"
    using strcat_from_cstr [OF _ assms(2,3)] by (simp add: store_bytes_first)
  moreover have "strlen (m(str := 0)) str = Inr 0" using strlen_cstr [of "m(str := 0)" str "[]"] by simp
  ultimately show ?thesis by (simp add: append_string_def strcat_def)
qed

lemma vsprintf_loop_string_piece:
  assumes "cstr m p t" "cstr (store_bytes str (t @ [0]) m) p t"
    and "disjoint_regions str (Suc (length t)) p (Suc (length t))" "length t \<le> 2 ^ 31"
  shows "vsprintf_loop ([37, 115] @ fmt) (p # args) (str, m) =
    vsprintf_loop fmt args (str + of_nat (length t), store_bytes str (t @ [0]) m)"
proof -
  have "unat (of_nat (length t) :: u32) \<le> 2 ^ 31" using assms(4) by (simp add: unat_of_nat_small)
  then have "conversion 115 0 32 (p # args) (str, m) = Inr (args, append t (str, m))"
    using append_string_cstr [OF assms(1,3)] strlen_cstr [OF assms(2)] assms(4)
    by (simp add: conversion_def append_def pad_string_negative)
  then show ?thesis by (intro vsprintf_loop_number_piece) simp_all
qed

section \<open>All pieces\<close>

lemma piece_ok_store:
  assumes "piece_ok B m x" "\<forall>k<length s. str + of_nat k \<in> B" "length s \<le> 2 ^ 32"
  shows "piece_ok B (store_bytes str s m) x"
proof (cases x)
  case (Str p t)
  have "store_bytes str s m (p + of_nat k) = m (p + of_nat k)" if "k \<le> length t" for k
  proof -
    have "\<not> in_region str (length s) (p + of_nat k)"
      using assms(1,2) that Str by (auto elim!: in_regionE)
    then show ?thesis using assms(3) by (simp add: store_bytes_at)
  qed
  then show ?thesis using assms(1) Str by (simp add: cstr_nth)
qed (use assms(1) in simp_all)

lemma vsprintf_loop_piece:
  assumes "piece_ok B m x" "\<forall>k<length (piece_text x) + 2. str + of_nat k \<in> B" "length (piece_text x) < 2 ^ 31"
  shows "\<exists>z\<in>{[], [0]}. \<forall>fmt args. vsprintf_loop (piece_format x @ fmt) (piece_args x @ args) (str, m) =
    vsprintf_loop fmt args (str + of_nat (length (piece_text x)), store_bytes str (piece_text x @ z) m)"
proof (cases x)
  case (Chars t)
  then show ?thesis using assms(1) by (intro bexI [of _ "[]"]) (simp_all add: vsprintf_loop_plain del: vsprintf_loop.simps)
next
  case (Decimal i)
  then have "conversion 100 0 32 (i # args) (str, m) = Inr (args, append (piece_text x) (str, m))" for args
    using assms(1) by (simp add: conversion_def number_d)
  then show ?thesis using vsprintf_loop_number_piece [of 100] Decimal
    by (intro bexI [of _ "[0]"]) (simp_all del: vsprintf_loop.simps)
next
  case (Hexadecimal i)
  then have "conversion 120 0 32 (i # args) (str, m) = Inr (args, append (piece_text x) (str, m))" for args
    using assms(1) by (simp add: conversion_def number_x)
  then show ?thesis using vsprintf_loop_number_piece [of 120] Hexadecimal
    by (intro bexI [of _ "[0]"]) (simp_all del: vsprintf_loop.simps)
next
  case (Str p t)
  then have str: "cstr m p t" "\<forall>k\<le>length t. p + of_nat k \<notin> B" "length t \<le> 2 ^ 31" using assms(1,3) by simp_all
  have "\<not> unat (p - str) < Suc (length t)"
    using assms(2) [rule_format, of "unat (p - str)"] str(2) [rule_format, of 0] Str by auto
  moreover have "\<not> unat (str - p) < Suc (length t)"
    using assms(2) [rule_format, of 0] str(2) [rule_format, of "unat (str - p)"] by auto
  ultimately have "disjoint_regions str (Suc (length t)) p (Suc (length t))" by (simp add: disjoint_regions_def)
  moreover have "cstr (store_bytes str (t @ [0]) m) p t"
    using piece_ok_store [OF assms(1), of "t @ [0]" str] assms(2,3) Str by simp
  ultimately show ?thesis
    using vsprintf_loop_string_piece [OF str(1) _ _ str(3)] Str
    by (intro bexI [of _ "[0]"]) (simp_all del: vsprintf_loop.simps)
qed

text \<open>Whatever the pieces left behind the end, two NULs there complete the text.\<close>

lemma vsprintf_loop_pieces:
  assumes "list_all (piece_ok B m) ps" "\<forall>k<length (pieces_text ps) + 2. str + of_nat k \<in> B"
    and "length (pieces_text ps) < 2 ^ 31"
  shows "\<exists>m'. vsprintf_loop (pieces_format ps) (pieces_args ps) (str, m) =
      Inr (str + of_nat (length (pieces_text ps)), m') \<and>
    m'(str + of_nat (length (pieces_text ps)) := 0, str + of_nat (length (pieces_text ps)) + 1 := 0) =
      store_bytes str (pieces_text ps @ [0, 0]) m"
  using assms
proof (induction ps arbitrary: str m)
  case (Cons x ps)
  let ?t = "piece_text x" and ?ts = "pieces_text ps"
  have "\<forall>k<length ?t + 2. str + of_nat k \<in> B" "length ?t < 2 ^ 31" using Cons.prems(2,3) by simp_all
  from vsprintf_loop_piece [OF _ this, of m] Cons.prems(1) obtain z where z: "z \<in> {[], [0]}"
    "\<And>fmt args. vsprintf_loop (piece_format x @ fmt) (piece_args x @ args) (str, m) =
      vsprintf_loop fmt args (str + of_nat (length ?t), store_bytes str (?t @ z) m)"
    by (simp only: list.pred_inject) blast
  let ?str = "str + of_nat (length ?t)" and ?m = "store_bytes str (?t @ z) m"
  have B: "\<forall>k<length (?t @ z). str + of_nat k \<in> B" "length (?t @ z) \<le> 2 ^ 32" using Cons.prems(2,3) z(1) by auto
  have "list_all (piece_ok B ?m) ps"
    using Cons.prems(1) piece_ok_store [OF _ B] by (auto simp: list_all_iff)
  moreover have "?str + of_nat k \<in> B" if "k < length ?ts + 2" for k
    using Cons.prems(2) [rule_format, of "length ?t + k"] that by (simp add: add.assoc)
  moreover have "length ?ts < 2 ^ 31" using Cons.prems(3) by simp
  ultimately obtain m' where m': "vsprintf_loop (pieces_format ps) (pieces_args ps) (?str, ?m) = Inr (?str + of_nat (length ?ts), m')"
    "m'(?str + of_nat (length ?ts) := 0, ?str + of_nat (length ?ts) + 1 := 0) = store_bytes ?str (?ts @ [0, 0]) ?m"
    using Cons.IH [of ?m ?str] by blast
  obtain c cs where ts: "?ts @ [0, 0] = c # cs" by (cases "?ts @ [0, 0]") auto
  have eq: "store_bytes ?str (?ts @ [0, 0]) ?m = store_bytes str (?t @ ?ts @ [0, 0]) m"
    using z(1) unfolding ts by (auto simp: store_bytes_over_nul store_bytes_append)
  have len: "str + of_nat (length (pieces_text (x # ps))) = ?str + of_nat (length ?ts)" by (simp add: add.assoc)
  show ?case
    unfolding len using m' z(2) eq by (intro exI [of _ m']) (simp only: pieces_simps append_assoc simp_thms)
qed simp

lemma vsprintf_pieces:
  assumes "list_all (piece_ok B m) ps" "\<forall>k<length (pieces_text ps) + 2. str + of_nat k \<in> B"
    and "length (pieces_text ps) < 2 ^ 31"
  shows "vsprintf str (pieces_format ps) (pieces_args ps) m = Inr (store_bytes str (pieces_text ps @ [0, 0]) m)"
  using vsprintf_loop_pieces [OF assms] by (auto simp: vsprintf_def simp del: vsprintf_loop.simps)

text \<open>\<open>%08x\<close> needs nine characters of an array of eight, whatever its argument.\<close>

lemma vsprintf_loop_08x:
  "vsprintf_loop ([37, 48, 56, 120] @ fmt) (i # args) out = Inl (Undefined ''vsprintf: num overflows'')"
proof -
  have u: "unat (ucast i :: u64) < 16 ^ 63" using unat_less_u32 [of i] by (simp add: unat_ucast_mod)
  have eight: "atoi [56] = Inr 8"
    by (simp add: atoi_def strtoint_def digit_value_def ipow_def)
  have "number (ucast i) 16 8 48 8 = Inl (Undefined ''vsprintf: num overflows'')"
    using inttostr_char [of 16 "ucast i" 8 48] u by (simp add: number_def)
  then show ?thesis by (cases out) (simp add: padding_value_def eight conversion_def)
qed

end
