(* ===== verification/Libk_Properties.thy ===== *)
theory Libk_Properties
  imports Libk_Pieces
begin

text \<open>
  The properties of the kernel's C library: copying, concatenation, the conversions between
  numbers and strings, and the formatter.
\<close>

unbundle bit_operations_syntax

section \<open>Memory\<close>

text \<open>
  \<open>memcpy\<close> copies the source as it was before the call, unless the destination starts inside
  the source behind its first byte, and leaves the rest of memory alone. The forward copy of an
  overlapping region, as scrolling does it, is thus correct.
\<close>

lemma memcpy_correct:
  assumes "unat (src - dest) + unat len \<le> 2 ^ 32"
  shows "memcpy dest src len m a = (if in_region dest (unat len) a then m (src + (a - dest)) else m a)"
  by (rule memcpy_at [OF assms])

lemma memcpy_overlap_example:
  "memcpy 0xb8000 0xb80a0 160 (\<lambda>a. ucast a) 0xb8001 = 0xa1"
  by (subst memcpy_correct) (simp_all add: in_region_def)

section \<open>Strings\<close>

text \<open>
  \<open>strcat\<close> appends: for strings in memory whose regions do not meet, with no wrap at 4 GB, the
  destination holds the concatenation afterwards, the returned pointer points to its last
  character, and nothing else changes.
\<close>

lemma strcat_correct:
  assumes a: "cstr m dst a" and b: "cstr m src b"
    and room: "unat dst + length a + length b + 1 \<le> 2 ^ 32"
    and apart: "disjoint_regions (dst + of_nat (length a)) (Suc (length b)) src (Suc (length b))"
  shows "\<exists>m'. strcat dst src m = Inr (dst + of_nat (length (a @ b)) - 1, m') \<and> cstr m' dst (a @ b) \<and>
    (\<forall>x. x \<notin> {y. in_region (dst + of_nat (length a)) (Suc (length b)) y} \<longrightarrow> m' x = m x)"
proof -
  let ?c = "dst + of_nat (length a)"
  let ?m = "store_bytes ?c (b @ [0]) m"
  have "length b < 2 ^ 32 - 1"
    using apart unat_less_u32 [of "src - ?c"] by (auto simp: disjoint_regions_def)
  then have len: "length a < 2 ^ 32" "length b < 2 ^ 32 - 1" "length a + length b < 2 ^ 32"
    using room by auto
  have copy: "strcat_from m ?c src = Some (?c + of_nat (length b), ?m)"
    by (rule strcat_from_cstr [OF b apart len(2)])
  have result: "strcat dst src m = Inr (dst + of_nat (length (a @ b)) - 1, ?m)"
    by (simp add: strcat_def strlen_cstr [OF a] copy add.assoc)
  have "cstr ?m ?c b"
    using b len by (intro cstr_store_bytes) (auto simp: cstr_nth in_set_conv_nth)
  then have tail: "\<forall>i<length b. ?m (?c + of_nat i) = b ! i \<and> b ! i \<noteq> 0" "?m (?c + of_nat (length b)) = 0"
    by (simp_all add: cstr_nth)
  have other: "?m x = m x" if "\<not> in_region ?c (Suc (length b)) x" for x
    using that len by (simp add: store_bytes_at)
  have front: "?m (dst + of_nat i) = a ! i \<and> a ! i \<noteq> 0" if i: "i < length a" for i
  proof -
    have "dst + of_nat i - ?c = - of_nat (length a - i)" using i by (simp add: of_nat_diff)
    moreover have "(of_nat (length a - i) :: u32) \<noteq> 0"
      using i len(1) of_nat_inj_small [where 'a = 32, of "length a - i" 0] by simp
    ultimately have "unat (dst + of_nat i - ?c) = 2 ^ 32 - (length a - i)"
      using len(1) unat_of_nat_small [where 'a = 32, of "length a - i"] by (simp add: unat_minus_u32)
    then have "\<not> in_region ?c (Suc (length b)) (dst + of_nat i)"
      using len(3) i by (simp add: in_region_def)
    then show ?thesis using other a i by (simp add: cstr_nth)
  qed
  have rear: "?m (dst + of_nat i) = b ! (i - length a) \<and> b ! (i - length a) \<noteq> 0"
    if i: "\<not> i < length a" "i < length a + length b" for i
  proof -
    have "?c + of_nat (i - length a) = dst + of_nat i" using i by (simp add: of_nat_diff)
    then show ?thesis using tail(1) [rule_format, of "i - length a"] i by (metis add.commute less_diff_conv2 not_less)
  qed
  have "cstr ?m dst (a @ b)"
    unfolding cstr_nth using tail(2) front rear by (auto simp: nth_append add.assoc)
  with result show ?thesis using other by blast
qed

text \<open>Two strings, \<open>ab\<close> at 0x1000 and \<open>c\<close> at 0x2000.\<close>

definition two_strings :: mem where
  "two_strings = (\<lambda>_. 0)(0x1000 := 97, 0x1001 := 98, 0x2000 := 99)"

lemma strcat_correct_example:
  "\<exists>m'. strcat 0x1000 0x2000 two_strings = Inr (0x1002, m') \<and> cstr m' 0x1000 [97, 98, 99]"
  using strcat_correct [of two_strings "0x1000" "[97, 98]" "0x2000" "[99]"]
  by (auto simp: two_strings_def disjoint_regions_def)

section \<open>Numbers\<close>

text \<open>
  C26. \<open>_inttostr\<close> writes the digits of the number in the base, most significant first, padded on
  the left; read back they give the number.
\<close>

theorem inttostr_correct:
  assumes "2 \<le> unat base" "unat base \<le> 36" "unat num < unat base ^ 63" "padding \<le> 63" "padchar \<noteq> 0"
  shows "\<exists>ds. inttostr num base padding padchar =
      Inr (replicate (padding - length ds) padchar @ map (\<lambda>d. digit_table ! d) ds) \<and>
    ds \<noteq> [] \<and> set ds \<subseteq> {..<unat base} \<and> foldl (\<lambda>v d. v * unat base + d) 0 ds = unat num"
proof -
  let ?ds = "rev (digits (unat base) (unat num))"
  have "foldl (\<lambda>v d. v * unat base + d) 0 ?ds = foldr (\<lambda>d v. d + unat base * v) (rev ?ds) 0"
    by (subst foldl_conv_foldr) (simp add: mult.commute add.commute)
  then have "foldl (\<lambda>v d. v * unat base + d) 0 ?ds = unat num" by (simp add: digits_value)
  moreover have "set ?ds \<subseteq> {..<unat base}" using digits_less [OF assms(1)] by auto
  ultimately show ?thesis
    using inttostr_char [OF assms]
    by (intro exI [of _ ?ds]) (simp add: digit_char_def)
qed

theorem inttostr_correct_witness:
  "\<exists>ds. inttostr 255 16 4 48 = Inr (replicate (4 - length ds) 48 @ map (\<lambda>d. digit_table ! d) ds) \<and>
    foldl (\<lambda>v d. v * 16 + d) 0 ds = 255"
  using inttostr_correct [of 16 255 4 48] by auto

text \<open>
  \<open>ipow\<close> squares in its loop: from the third power on it returns the base to the power of a
  power of two.
\<close>

lemma ipow_loop_power: "ipow_loop k b = b ^ (2 ^ k)"
  by (induction k arbitrary: b) (simp_all add: power_mult power2_eq_square [symmetric])

lemma ipow_value: "ipow base exp = (if exp = 0 then 1 else base ^ (2 ^ (unat exp - 1)))"
  by (simp add: ipow_def ipow_loop_power)

lemma digit_value_decimal: "d < 10 \<Longrightarrow> digit_value (of_nat (48 + d)) = of_nat d"
proof -
  assume "d < 10"
  then have "d \<in> {0, 1, 2, 3, 4, 5, 6, 7, 8, 9}" by auto
  then show ?thesis by (auto simp: digit_value_def)
qed

text \<open>The weight of the digit \<open>n\<close>: from the third on it is too large, and from the seventh on it is 0 in 32 bits.\<close>

definition weight :: "nat \<Rightarrow> u32" where
  "weight n = (if n = 0 then 1 else 10 ^ 2 ^ (n - 1))"

lemma ipow_weight:
  assumes "n < 2 ^ 32"
  shows "ipow 10 (of_nat n) = weight n"
proof -
  have u: "unat (of_nat n :: u32) = n" using assms by (intro unat_of_nat_small) simp
  have "(of_nat n :: u32) = 0 \<longleftrightarrow> n = 0"
  proof
    assume "(of_nat n :: u32) = 0"
    then show "n = 0" using u by simp
  qed simp
  then show ?thesis by (simp add: ipow_value weight_def u)
qed

lemma weight_values: "weight 0 = 1" "weight 1 = 10" "weight 2 = 100" "weight 3 = 10000" "weight 4 = 100000000" "weight 5 = 1874919424"
  by (simp_all add: weight_def)

lemma weight_0: "6 \<le> n \<Longrightarrow> weight n = 0"
proof -
  assume "6 \<le> n"
  define k where "k = n - 6"
  then have "n - 1 = k + 5" using \<open>6 \<le> n\<close> by simp
  then have "(2 :: nat) ^ (n - 1) = 32 * 2 ^ k" by (simp add: power_add)
  then have "(10 :: u32) ^ 2 ^ (n - 1) = (10 ^ 32) ^ 2 ^ k" by (simp only: power_mult)
  moreover have "(10 :: u32) ^ 32 = 0" by simp
  ultimately have "(10 :: u32) ^ 2 ^ (n - 1) = 0 ^ 2 ^ k" by (simp only:)
  then show ?thesis using \<open>6 \<le> n\<close> by (simp add: weight_def zero_power)
qed

lemma weight_middle:
  assumes "d < 10" "1 \<le> n"
  shows "of_nat d * weight n = 0 \<or> 10 \<le> unat (of_nat d * weight n)" "of_nat d * weight n = 0 \<longleftrightarrow> d = 0 \<or> 6 \<le> n"
proof -
  have "d \<in> {0, 1, 2, 3, 4, 5, 6, 7, 8, 9}" "n \<in> {1, 2, 3, 4, 5} \<or> 6 \<le> n" using assms by auto
  then show "of_nat d * weight n = 0 \<or> 10 \<le> unat (of_nat d * weight n)" "of_nat d * weight n = 0 \<longleftrightarrow> d = 0 \<or> 6 \<le> n"
    by (auto simp: weight_values [unfolded One_nat_def] weight_0)
qed

text \<open>One round of the loop, and all rounds behind the first, in terms of the digits.\<close>

definition digit :: "nat \<Rightarrow> u8" where
  "digit d = of_nat (48 + d)"

lemma strtoint_step:
  assumes "d < 10" "n < 2 ^ 32"
  shows "strtoint_loop (digit d # cs) 10 (of_nat n) num =
    (if num < 10 then strtoint_loop cs 10 (of_nat (Suc n)) (num + ucast (of_nat d * weight n)) else Inl AssertFailed)"
proof -
  have digit: "digit_value (digit d) = of_nat d" using digit_value_decimal [OF assms(1)] by (simp add: digit_def)
  have narrow: "ucast (of_nat d :: u64) = (of_nat d :: u32)"
    by (rule unat_inj) (use assms(1) in \<open>simp add: unat_ucast_mod unat_of_nat_small\<close>)
  have "(of_nat n + 1 :: u32) = of_nat (Suc n)" "ucast (10 :: u32) = (10 :: u64)" by simp_all
  then show ?thesis by (simp only: strtoint_loop.simps digit narrow ipow_weight [OF assms(2)] not_not if_not_P split: if_split) simp
qed

lemma strtoint_rest:
  assumes "list_all (\<lambda>d. d < 10) rs" "rs \<noteq> []" "1 \<le> n" "n + length rs < 2 ^ 32" "num < 10"
  shows "strtoint_loop (map digit rs) 10 (of_nat n) num =
    (if \<forall>i < length rs - 1. n + i < 6 \<longrightarrow> rs ! i = 0 then Inr (num + ucast (of_nat (last rs) * weight (n + length rs - 1))) else Inl AssertFailed)"
  using assms
proof (induction rs arbitrary: n num)
  case (Cons d rs)
  have d: "d < 10" "n < 2 ^ 32" using Cons.prems by auto
  note step = strtoint_step [OF d, of "map digit rs" num]
  show ?case
  proof (cases "rs = []")
    case True
    then show ?thesis using step Cons.prems(5) by simp
  next
    case False
    then obtain c cs where rs: "rs = c # cs" by (cases rs) auto
    show ?thesis
    proof (cases "of_nat d * weight n = 0")
      case True
      then have ok: "d = 0 \<or> 6 \<le> n" using weight_middle(2) [OF d(1) Cons.prems(3)] by simp
      have "(\<forall>i < length (d # rs) - 1. n + i < 6 \<longrightarrow> (d # rs) ! i = 0) \<longleftrightarrow>
          (\<forall>i < length rs - 1. Suc n + i < 6 \<longrightarrow> rs ! i = 0)"
        using ok by (auto simp: rs nth_Cons split: nat.split) 
      then show ?thesis using step Cons.IH [of "Suc n" num] Cons.prems False True by simp
    next
      case nz: False
      then have bad: "d \<noteq> 0" "n < 6" "10 \<le> unat (of_nat d * weight n)" using weight_middle [OF d(1) Cons.prems(3)] by auto
      have "unat (num + ucast (of_nat d * weight n)) = unat num + unat (of_nat d * weight n)"
        using Cons.prems(5) unat_less_u32 [of "of_nat d * weight n"]
        by (subst unat_add_small) (simp_all add: unat_ucast_mod word_less_nat_alt)
      then have "\<not> num + ucast (of_nat d * weight n) < 10" using bad(3) by (simp add: word_less_nat_alt)
      moreover have "\<not> (\<forall>i < length (d # rs) - 1. n + i < 6 \<longrightarrow> (d # rs) ! i = 0)" using bad(1,2) rs by auto
      moreover have "strtoint_loop (map digit rs) 10 (of_nat (Suc n)) x = Inl AssertFailed" if "\<not> x < 10" for x using that rs by simp
      ultimately show ?thesis using step Cons.prems(5) by (simp only: list.map if_True if_False)
    qed
  qed
qed simp

text \<open>The number that a list of digits stands for.\<close>

definition number_of :: "nat list \<Rightarrow> nat" where
  "number_of ds = foldl (\<lambda>v d. 10 * v + d) 0 ds"

lemma number_of_Cons: "number_of (d # ds) = d * 10 ^ length ds + number_of ds"
proof -
  have "foldl (\<lambda>v d. 10 * v + d) v ds = v * 10 ^ length ds + foldl (\<lambda>v d. 10 * v + d) 0 ds" for v
  proof (induction ds rule: rev_induct)
    case (snoc x xs)
    then show ?case by (simp only: foldl_append foldl.simps length_append power_add distrib_left) simp
  qed simp
  from this [of d] show ?thesis by (simp add: number_of_def)
qed

lemma ucast_of_nat_u64:
  assumes "x < 2 ^ 64"
  shows "ucast (of_nat x :: u64) = (of_nat x :: u32)"
proof (rule unat_inj)
  have "unat (of_nat x :: u64) = x" using assms by (intro unat_of_nat_small) simp
  then show "unat (ucast (of_nat x :: u64) :: u32) = unat (of_nat x :: u32)"
    by (simp only: unat_ucast_mod unat_of_nat)
qed

lemma atoi_char:
  assumes "list_all (\<lambda>d. d < 10) ds" "ds \<noteq> []" "length ds < 2 ^ 31"
  shows "atoi (map digit ds) =
    (if length ds = 1 then Inr (of_nat (last ds))
     else if \<forall>i < length ds - 2. i < 5 \<longrightarrow> rev ds ! Suc i = 0
     then Inr (of_nat (last ds) + of_nat (hd ds) * weight (length ds - 1)) else Inl AssertFailed)"
proof -
  obtain e rs where rs: "rev ds = e # rs" using assms(2) by (cases "rev ds") auto
  then have ds: "ds = rev rs @ [e]" by (metis rev_rev_ident rev.simps(2))
  have small: "list_all (\<lambda>d. d < 10) rs" "e < 10" "1 + length rs < 2 ^ 32" using assms(1,3) by (simp_all add: ds list_all_iff)
  have num: "ucast (of_nat e :: u32) = (of_nat e :: u64)" "(of_nat e :: u64) < 10"
    using small(2) unat_of_nat_small [where 'a = 64, of e]
    by (auto intro!: unat_inj simp: unat_ucast_mod unat_of_nat_small word_less_nat_alt)
  have rev: "rev (map digit ds) = digit e # map digit rs" by (simp add: rev_map rs)
  have first: "strtoint (map digit ds) 10 = strtoint_loop (map digit rs) 10 (of_nat 1) (of_nat e)"
    using strtoint_step [OF small(2), of 0 "map digit rs" 0] num(1) by (simp add: strtoint_def rev weight_def)
  show ?thesis
  proof (cases "rs = []")
    case True
    then show ?thesis using first small(2) ucast_of_nat_u64 [of e] by (simp add: atoi_def ds)
  next
    case False
    let ?w = "of_nat (last rs) * weight (length rs)"
    have zeros: "(\<forall>i < length rs - 1. 1 + i < 6 \<longrightarrow> rs ! i = 0) \<longleftrightarrow> (\<forall>i < length ds - 2. i < 5 \<longrightarrow> rev ds ! Suc i = 0)"
      by (simp add: rs, simp add: ds)
    have "ucast ?w = (of_nat (unat ?w) :: u64)" by (rule unat_inj) (simp only: unat_ucast_mod unat_of_nat)
    then have "(of_nat e :: u64) + ucast ?w = of_nat (e + unat ?w)" by (simp only: of_nat_add)
    moreover have "e + unat ?w < 2 ^ 64" using small(2) unat_less_u32 [of ?w] by simp
    ultimately have "ucast ((of_nat e :: u64) + ucast ?w) = of_nat e + ?w" using ucast_of_nat_u64 [of "e + unat ?w"] by simp
    moreover have "hd ds = last rs" using False by (simp add: ds hd_append hd_rev)
    moreover have "last ds = e" "length ds \<noteq> 1" "length rs = length ds - 1" using False by (simp_all add: ds)
    moreover note strtoint_rest [OF small(1) False order_refl small(3) num(2), unfolded zeros]
    ultimately show ?thesis using first by (simp add: atoi_def)
  qed
qed

text \<open>
  With its middle digits 0, a number of \<open>n\<close> digits is \<open>a * 10 ^ (n - 1) + e\<close>; the loop weighs \<open>a\<close>
  by the square power instead, which agrees for no \<open>n\<close> above 3.
\<close>

lemma number_of_zeros: "number_of (replicate k 0 @ [e]) = e"
  by (induction k) (simp_all add: number_of_Cons, simp add: number_of_def)

lemma weight_wrong:
  assumes "0 < a" "a < 10" "3 \<le> n" "n < 6"
  shows "of_nat a * weight n \<noteq> (of_nat (a * 10 ^ n) :: u32)"
proof -
  have "a \<in> {1, 2, 3, 4, 5, 6, 7, 8, 9}" "n \<in> {3, 4, 5}" using assms by auto
  then show ?thesis by (auto simp: weight_values [unfolded One_nat_def])
qed

lemma atoi_long:
  assumes "list_all (\<lambda>d. d < 10) ds" "4 \<le> length ds" "hd ds \<noteq> 0" "number_of ds < 2 ^ 31"
    and "\<forall>i < length ds - 2. i < 5 \<longrightarrow> rev ds ! Suc i = 0"
  shows "of_nat (last ds) + of_nat (hd ds) * weight (length ds - 1) \<noteq> (of_nat (number_of ds) :: u32)"
proof -
  obtain a rs where ds: "ds = a # rs" using assms(2) by (cases ds) auto
  have rs: "rs \<noteq> []" "last ds = last rs" "length rs = length ds - 1" using assms(2) by (auto simp: ds)
  have digits: "0 < a" "a < 10" "last rs < 10" using assms(1,3) rs by (auto simp: ds list_all_iff)
  have number: "number_of ds = a * 10 ^ length rs + number_of rs" by (simp add: ds number_of_Cons)
  show ?thesis
  proof (cases "length rs < 6")
    case True
    have "butlast rs = replicate (length rs - 1) 0"
    proof (rule nth_equalityI)
      fix i assume "i < length (butlast rs)"
      then have i: "i < length rs - 1" "length rs - 2 - i < length ds - 2" "length rs - 2 - i < 5"
          "Suc (length rs - 2 - i) = length rs - Suc i"
          "length rs - Suc i < length rs" "length rs - Suc (length rs - Suc i) = i"
        using True rs(3) by auto
      then have "rev ds ! (length rs - Suc i) = rs ! i"
        by (simp add: ds nth_append rev_nth)
      then show "butlast rs ! i = replicate (length rs - 1) 0 ! i"
        using assms(5) [rule_format, OF i(2,3)] i(1,4) by (simp add: nth_butlast)
    qed simp
    then have "number_of (butlast rs @ [last rs]) = last rs" by (simp only: number_of_zeros)
    then have "number_of rs = last rs" by (simp only: append_butlast_last_id [OF rs(1)])
    then have "(of_nat (number_of ds) :: u32) = of_nat (a * 10 ^ length rs) + of_nat (last rs)" by (simp only: number of_nat_add)
    moreover have "of_nat a * weight (length rs) \<noteq> (of_nat (a * 10 ^ length rs) :: u32)"
      using assms(2) rs(3) by (intro weight_wrong digits True) simp
    moreover have "hd ds = a" by (simp add: ds)
    ultimately show ?thesis by (simp only: rs(2) rs(3) [symmetric] add.commute [of "of_nat (last rs) :: u32"] add_right_cancel not_False_eq_True)
  next
    case False
    have "(10 :: nat) ^ 1 \<le> 10 ^ length rs" using False by (intro power_increasing) simp_all
    then have big: "10 \<le> number_of ds" using digits(1) number by (simp add: trans_le_add1 mult_le_mono [of 1 a 10, simplified])
    have "unat (of_nat (number_of ds) :: u32) = number_of ds" "unat (of_nat (last ds) :: u32) = last ds"
      using assms(4) digits(3) rs(2) by (simp_all add: unat_of_nat_small)
    moreover have "of_nat (hd ds) * weight (length ds - 1) = 0" using False rs(3) by (simp add: weight_0)
    ultimately show ?thesis using big digits(3) rs(2) by (metis add.right_neutral not_less)
  qed
qed

text \<open>
  C27. \<open>atoi\<close> of a string of decimal digits fails its assertion if one of the second to the sixth digit
  from the right, the first digit excepted, is not 0; otherwise it gives the last digit plus the first
  times 10 to the power of a power of two, in 32 bits. So among the numbers an \<open>int\<close> can hold, written
  without a leading 0, it reads exactly those of one or two digits and those of three whose middle
  digit is 0; on every other one it fails or gives another number.
\<close>

theorem atoi_digits:
  assumes "list_all (\<lambda>d. d < 10) ds" "ds \<noteq> []" "length ds < 2 ^ 31"
  shows "atoi (map digit ds) =
      (if length ds = 1 then Inr (of_nat (last ds))
       else if \<forall>i < length ds - 2. i < 5 \<longrightarrow> rev ds ! Suc i = 0
       then Inr (of_nat (last ds) + of_nat (hd ds) * 10 ^ 2 ^ (length ds - 2)) else Inl AssertFailed) \<and>
    (hd ds \<noteq> 0 \<and> number_of ds < 2 ^ 31 \<longrightarrow>
      (atoi (map digit ds) = Inr (of_nat (number_of ds)) \<longleftrightarrow> length ds \<le> 2 \<or> length ds = 3 \<and> ds ! 1 = 0))"
proof (intro conjI impI)
  show "atoi (map digit ds) =
      (if length ds = 1 then Inr (of_nat (last ds))
       else if \<forall>i < length ds - 2. i < 5 \<longrightarrow> rev ds ! Suc i = 0
       then Inr (of_nat (last ds) + of_nat (hd ds) * 10 ^ 2 ^ (length ds - 2)) else Inl AssertFailed)"
  proof (cases "length ds = 1")
    case False
    then have "weight (length ds - 1) = 10 ^ 2 ^ (length ds - 2)" using assms(2) by (cases ds) (auto simp: weight_def)
    then show ?thesis by (simp only: atoi_char [OF assms])
  qed (simp add: atoi_char [OF assms])
next
  assume number: "hd ds \<noteq> 0 \<and> number_of ds < 2 ^ 31"
  show "atoi (map digit ds) = Inr (of_nat (number_of ds)) \<longleftrightarrow> length ds \<le> 2 \<or> length ds = 3 \<and> ds ! 1 = 0"
  proof (cases "4 \<le> length ds")
    case True
    then show ?thesis using atoi_long [OF assms(1) True] number by (auto simp: atoi_char [OF assms])
  next
    case False
    then consider a where "ds = [a]" | a e where "ds = [a, e]" | a d e where "ds = [a, d, e]"
      using assms(2) by (cases ds; cases "tl ds"; cases "tl (tl ds)"; cases "tl (tl (tl ds))") auto
    then show ?thesis
      by cases (use atoi_char [OF assms] in \<open>auto simp: number_of_def weight_def less_Suc_eq numeral_2_eq_2\<close>)
  qed
qed

theorem atoi_digits_witness:
  "atoi (map digit [4, 2]) = Inr 42 \<and> atoi (map digit [1, 0, 5]) = Inr 105 \<and>
    atoi (map digit [1, 2, 5]) = Inl AssertFailed \<and> atoi (map digit [1, 0, 0, 0]) = Inr 10000 \<and>
    atoi (map digit [1, 0, 0, 0]) \<noteq> Inr (of_nat (number_of [1, 0, 0, 0]))"
  using atoi_digits [of "[4, 2]"] atoi_digits [of "[1, 0, 5]"] atoi_digits [of "[1, 2, 5]"] atoi_digits [of "[1, 0, 0, 0]"]
  by (simp add: number_of_def less_Suc_eq)

section \<open>The formatter\<close>

text \<open>
  C28. A format of literal characters, \<open>%d\<close> of arguments that are not negative, \<open>%x\<close> of arguments
  below 0x10000000 and \<open>%s\<close> of strings outside the output stores, in this order, the characters,
  the decimal and hexadecimal digits and the strings, and two NULs, and nothing else.
\<close>

theorem vsprintf_text:
  assumes "list_all (piece_ok {a. in_region str (length (pieces_text ps) + 2) a} m) ps"
    and "length (pieces_text ps) < 2 ^ 31"
  shows "vsprintf str (pieces_format ps) (pieces_args ps) m = Inr (store_bytes str (pieces_text ps @ [0, 0]) m)"
  by (rule vsprintf_pieces [OF assms(1) _ assms(2)]) (use assms(2) in \<open>auto intro: in_regionI\<close>)

theorem vsprintf_text_witness:
  "vsprintf 0x1000 [37, 115, 61, 37, 100, 44, 37, 120] [0x3000, 42, 0xb8] (store_bytes 0x3000 [110, 0] (\<lambda>_. 0)) =
    Inr (store_bytes 0x1000 [110, 61, 52, 50, 44, 98, 56, 0, 0] (store_bytes 0x3000 [110, 0] (\<lambda>_. 0)))"
proof -
  let ?ps = "[Str 0x3000 [110], Chars [61], Decimal 42, Chars [44], Hexadecimal 0xb8]"
  have chars: "pieces_text ?ps = [110, 61, 52, 50, 44, 98, 56]"
    by (simp add: numeral_str_def digits.simps digit_char)
  then have n: "length (pieces_text ?ps) + 2 = 9" by simp
  have "k = 0 \<or> k = 1" if "k \<le> 1" for k :: nat using that by auto
  then have "\<forall>k\<le>1. \<not> in_region 0x1000 9 (0x3000 + of_nat k)" by (fastforce simp: in_region_def)
  then have "list_all (piece_ok {a. in_region 0x1000 (length (pieces_text ?ps) + 2) a} (store_bytes 0x3000 [110, 0] (\<lambda>_. 0))) ?ps"
    unfolding n by (simp add: word_sle_eq)
  from vsprintf_text [OF this] show ?thesis unfolding chars by simp
qed

text \<open>
  A format with one \<open>%d\<close> among literal characters, for every argument: a negative one is
  written as the 20 digits of its 64-bit complement, which overflow the array of 16.
\<close>

lemma vsprintf_d:
  assumes "37 \<notin> set pre" "37 \<notin> set post"
  shows "vsprintf str (pre @ [37, 100] @ post) [i] m =
    (if 0 \<le>s i then Inr (store_bytes str (pre @ numeral_str 10 (unat i) @ post @ [0, 0]) m)
     else Inl (Undefined ''vsprintf: num overflows''))"
  by (subst vsprintf_number [OF assms, of 100 i "number (scast i) 10 0 32 16"])
    (auto simp: conversion_def number_d)

lemma vsprintf_d_example:
  "vsprintf 0x1000 [97, 37, 100, 98] [-1] m = Inl (Undefined ''vsprintf: num overflows'')"
  using vsprintf_d [of "[97]" "[98]" "0x1000" "-1" m] by (simp add: word_sle_eq)

text \<open>
  A format with one \<open>%x\<close> among literal characters stores the hexadecimal digits of the
  argument, without leading zeros, if there are at most seven; from 0x10000000 on the eighth
  leaves no room for the NUL in the array of 8.
\<close>

lemma vsprintf_x:
  assumes "37 \<notin> set pre" "37 \<notin> set post"
  shows "vsprintf str (pre @ [37, 120] @ post) [i] m =
    (if i < 0x10000000 then Inr (store_bytes str (pre @ numeral_str 16 (unat i) @ post @ [0, 0]) m)
     else Inl (Undefined ''vsprintf: num overflows''))"
proof -
  have u: "unat (ucast i :: u64) = unat i" using unat_less_u32 [of i] by (simp add: unat_ucast_mod)
  have "number (ucast i) 16 0 32 8 =
      (if i < 0x10000000 then Inr (numeral_str 16 (unat i)) else Inl (Undefined ''vsprintf: num overflows''))"
    using number_unpadded [of 16 "ucast i" 8 32] unat_less_u32 [of i] by (simp add: u word_less_nat_alt)
  then show ?thesis
    by (subst vsprintf_number [OF assms, of 120 i "number (ucast i) 16 0 32 8"]) (auto simp: conversion_def)
qed

lemma vsprintf_x_example:
  "vsprintf 0x1000 [48, 120, 37, 120] [0xb8000] m = Inr (store_bytes 0x1000 [48, 120, 98, 56, 48, 48, 48, 0, 0] m)"
  using vsprintf_x [of "[48, 120]" "[]" "0x1000" "0xb8000" m]
  by (simp add: numeral_str_def digits.simps digit_char)

text \<open>
  \<open>%08x\<close>, the format of every address in the log, never has room for its NUL.
\<close>

lemma vsprintf_08x:
  "vsprintf str [37, 48, 56, 120] [i] m = Inl (Undefined ''vsprintf: num overflows'')"
  using vsprintf_loop_08x [of "[]" i "[]" "(str, m)"] by (simp add: vsprintf_def del: vsprintf_loop.simps)

end
