(* ===== verification/VGAConsole.thy ===== *)
theory VGAConsole
  imports PortIO Libk_Stdlib
begin

text \<open>
  The text console (VGAConsole.cpp): the framebuffer of 25 rows of 80 cells at 0xb8000, one
  16-bit word per cell with the character in its low byte and the colours in its high one, the
  position where the next character goes, and the interpreter of the escape sequences.
\<close>

unbundle bit_operations_syntax

section \<open>Colours and state\<close>

datatype BaseColors =
    Black | Blue | Green | Cyan | Red | Magenta | Brown | LightGrey | DarkGrey | LightBlue
  | LightGreen | LightCyan | LightRed | LightMagenta | Yellow | White

fun color_code :: "BaseColors \<Rightarrow> u32" where
  "color_code Black = 0" | "color_code Blue = 1" | "color_code Green = 2" | "color_code Cyan = 3"
| "color_code Red = 4" | "color_code Magenta = 5" | "color_code Brown = 6" | "color_code LightGrey = 7"
| "color_code DarkGrey = 8" | "color_code LightBlue = 9" | "color_code LightGreen = 10"
| "color_code LightCyan = 11" | "color_code LightRed = 12" | "color_code LightMagenta = 13"
| "color_code Yellow = 14" | "color_code White = 15"

text \<open>
  The strings the console prints and its framebuffer share one memory. While a string is
  printed a colour is the number in the variable of the enumeration type, because a bold colour
  is computed by adding 8, and 8 more if it is bold already.
\<close>

record vga = machine +
  vmem :: mem
  xPos :: u8
  yPos :: u8

abbreviation (input) "FRAMEBUFFER \<equiv> 0xB8000 :: u32"
abbreviation (input) "VGA_WIDTH \<equiv> 80 :: u32"
abbreviation (input) "VGA_HEIGHT \<equiv> 25 :: u32"

text \<open>A space, light grey on black.\<close>

abbreviation (input) "BLANK \<equiv> 0x0720 :: u16"

definition fb_addr :: "u32 \<Rightarrow> u32" where
  "fb_addr i = FRAMEBUFFER + 2 * i"

section \<open>Operations\<close>

definition update_cursor :: "u16 \<Rightarrow> u16 \<Rightarrow> u16 \<Rightarrow> 'a machine_scheme \<Rightarrow> 'a machine_scheme" where
  "update_cursor x y w s =
     (let pos = (y * w) + x;
          s = out8 0x3d4 0x0f s;
          s = out8 0x3d5 (ucast (pos AND 0xff)) s;
          s = out8 0x3d4 0x0e s
      in out8 0x3d5 (ucast (drop_bit 8 pos)) s)"

definition Scroll :: "vga \<Rightarrow> vga" where
  "Scroll s =
     (let m = for_upto (\<lambda>i m.
                let y = of_nat i + 1
                in memcpy (fb_addr ((y - 1) * VGA_WIDTH)) (fb_addr (y * VGA_WIDTH)) (VGA_WIDTH * 2) m)
              24 (vmem s);
          m = for_upto (\<lambda>i m. store16 (fb_addr ((VGA_HEIGHT - 1) * VGA_WIDTH + of_nat i)) BLANK m) 80 m
      in s\<lparr>vmem := m\<rparr>)"

text \<open>\<open>char\<close> is signed, so its conversion to 16 bits extends the sign.\<close>

definition cell_data :: "u8 \<Rightarrow> u32 \<Rightarrow> u32 \<Rightarrow> u16" where
  "cell_data c fgcolor bgcolor =
     (let color = (ucast fgcolor :: u8) OR push_bit 4 (ucast bgcolor)
      in scast c OR push_bit 8 (ucast color))"

definition WriteChar :: "u8 \<Rightarrow> u32 \<Rightarrow> u32 \<Rightarrow> vga \<Rightarrow> vga" where
  "WriteChar c fgcolor bgcolor s =
     (let s = (if c = 10 then s\<lparr>xPos := 0, yPos := yPos s + 1\<rparr>
               else if c = 9
               then let s = s\<lparr>xPos := xPos s + 4\<rparr>;
                        s = s\<lparr>xPos := push_bit 2 (drop_bit 2 (xPos s))\<rparr>
                    in if ucast (xPos s) > VGA_WIDTH then s\<lparr>xPos := 0, yPos := yPos s + 1\<rparr> else s
               else s\<lparr>vmem := store16 (fb_addr (ucast (yPos s) * VGA_WIDTH + ucast (xPos s)))
                                 (cell_data c fgcolor bgcolor) (vmem s),
                      xPos := xPos s + 1\<rparr>);
          s = (if ucast (xPos s) \<ge> VGA_WIDTH then s\<lparr>xPos := 0, yPos := yPos s + 1\<rparr> else s)
      in if ucast (yPos s) \<ge> VGA_HEIGHT then Scroll s\<lparr>yPos := ucast (VGA_HEIGHT - 1)\<rparr> else s)"

text \<open>The colours a digit stands for behind \<open>3\<close> and \<open>4\<close>; another character leaves the colour.\<close>

definition digit_color :: "u8 \<Rightarrow> u32 \<Rightarrow> u32" where
  "digit_color c color =
     (if c = 48 then color_code Black else if c = 49 then color_code Red
      else if c = 50 then color_code Green else if c = 51 then color_code Brown
      else if c = 52 then color_code Blue else if c = 53 then color_code Magenta
      else if c = 54 then color_code Cyan else if c = 55 then color_code LightGrey
      else color)"

text \<open>
  The inner loop of \<open>WriteVGA\<close>: the characters up to the \<open>m\<close> that ends the sequence, with the
  foreground and background colour they set. It does not look for the end of the string.
\<close>

partial_function (option) escape_loop :: "mem \<Rightarrow> u32 \<Rightarrow> u32 \<Rightarrow> u32 \<Rightarrow> u32 \<Rightarrow> (u32 \<times> u32 \<times> u32) option" where
  "escape_loop m color str setcolor backcolor =
     (let c = m str; str = str + 1
      in if c = 48 then escape_loop m color str color (color_code Black)
         else if c = 49 then escape_loop m color str (setcolor + 8) backcolor
         else if c = 51
         then let bold = setcolor \<ge> 8; setcolor = digit_color (m str) setcolor
              in escape_loop m color (str + 1) (if bold then setcolor + 8 else setcolor) backcolor
         else if c = 52 then escape_loop m color (str + 1) setcolor (digit_color (m str) backcolor)
         else if c = 109 then Some (str, setcolor, backcolor)
         else escape_loop m color str setcolor backcolor)"

partial_function (option) write_loop :: "u32 \<Rightarrow> u32 \<Rightarrow> u32 \<Rightarrow> u32 \<Rightarrow> vga \<Rightarrow> vga option" where
  "write_loop color str setcolor backcolor s =
     (let c = vmem s str
      in if c = 0 then Some s
         else if c = 27
         then Option.bind (escape_loop (vmem s) color (str + 1) setcolor backcolor)
                (\<lambda>(str, setcolor, backcolor).
                   write_loop color (str + 1) setcolor backcolor (WriteChar (vmem s str) setcolor backcolor s))
         else write_loop color (str + 1) setcolor backcolor (WriteChar c setcolor backcolor s))"

definition WriteVGA :: "u32 \<Rightarrow> BaseColors \<Rightarrow> vga \<Rightarrow> vga result" where
  "WriteVGA str color s =
     and_then (returns (write_loop (color_code color) str (color_code color) (color_code Black) s)) (\<lambda>s.
       Inr (update_cursor (ucast (xPos s)) (ucast (yPos s)) (ucast VGA_WIDTH) s))"

definition Clear :: "vga \<Rightarrow> vga" where
  "Clear s =
     s\<lparr>vmem := for_upto (\<lambda>i m. store16 (fb_addr (of_nat i)) BLANK m) 2000 (vmem s),
       xPos := 0, yPos := 0\<rparr>"

text \<open>\<open>WriteRGB\<close> has an empty body.\<close>

definition WriteRGB :: "u32 \<Rightarrow> u8 \<Rightarrow> u8 \<Rightarrow> u8 \<Rightarrow> vga \<Rightarrow> vga" where
  "WriteRGB str r g b s = s"

end
