(* ===== verification/VGA_Screen.thy ===== *)
theory VGA_Screen
  imports VGAConsole
begin

text \<open>
  The screen the console promises: cells, a row and a column. Each operation on the framebuffer
  and the position is related to the operation on the screen.
\<close>

unbundle bit_operations_syntax

section \<open>The abstract screen\<close>

record screen =
  cells :: "nat \<Rightarrow> u16"
  row :: nat
  col :: nat

definition newline :: "screen \<Rightarrow> screen" where
  "newline t = t\<lparr>col := 0, row := row t + 1\<rparr>"

definition scroll_up :: "screen \<Rightarrow> screen" where
  "scroll_up t = t\<lparr>cells := (\<lambda>i. if i < 1920 then cells t (i + 80) else if i < 2000 then BLANK else 0)\<rparr>"

text \<open>At the end of a line the next line begins, and below the last line the screen scrolls.\<close>

definition settle :: "screen \<Rightarrow> screen" where
  "settle t =
     (let t = if col t \<ge> 80 then newline t else t
      in if row t \<ge> 25 then (scroll_up t)\<lparr>row := 24\<rparr> else t)"

definition put_char :: "u8 \<Rightarrow> u16 \<Rightarrow> screen \<Rightarrow> screen" where
  "put_char c v t =
     settle (if c = 10 then newline t
             else if c = 9 then t\<lparr>col := (col t + 4) div 4 * 4\<rparr>
             else t\<lparr>cells := (cells t)(80 * row t + col t := v), col := col t + 1\<rparr>)"

definition mem_cells :: "mem \<Rightarrow> nat \<Rightarrow> u16" where
  "mem_cells m = (\<lambda>i. if i < 2000 then load16 m (fb_addr (of_nat i)) else 0)"

definition screen_of :: "vga \<Rightarrow> screen" where
  "screen_of s =
     \<lparr>cells = mem_cells (vmem s), row = unat (yPos s), col = unat (xPos s)\<rparr>"

definition on_screen :: "vga \<Rightarrow> bool" where
  "on_screen s \<longleftrightarrow> unat (xPos s) < 80 \<and> unat (yPos s) < 25"

abbreviation in_framebuffer :: "u32 \<Rightarrow> bool" where "in_framebuffer \<equiv> in_region FRAMEBUFFER 4000"

lemma below_framebuffer: "unat p + k < 0xb8000 \<Longrightarrow> \<not> in_framebuffer (p + of_nat k)"
  using unat_add_small [of p "of_nat k"] by (simp add: in_region_unat unat_of_nat_small)

section \<open>Cells in memory\<close>

definition fb_byte :: "mem \<Rightarrow> nat \<Rightarrow> u8" where
  "fb_byte m k = m (FRAMEBUFFER + of_nat k)"

lemma load16_fb: "load16 m (fb_addr (of_nat i)) = ucast (fb_byte m (2 * i)) OR push_bit 8 (ucast (fb_byte m (2 * i + 1)))"
  by (simp add: load16_def fb_addr_def fb_byte_def add.commute add.left_commute)

lemma store16_at: "store16 a v m b = (if b = a + 1 then ucast (drop_bit 8 v) else if b = a then ucast v else m b)"
  by (simp add: store16_def)

lemma fb_byte_store16:
  assumes "i < 2000" "k < 4000"
  shows "fb_byte (store16 (fb_addr (of_nat i)) v m) k =
    (if k = 2 * i then ucast v else if k = 2 * i + 1 then ucast (drop_bit 8 v) else fb_byte m k)"
proof -
  have "(of_nat k :: u32) = of_nat (2 * i) \<longleftrightarrow> k = 2 * i"
    "(of_nat k :: u32) = of_nat (2 * i + 1) \<longleftrightarrow> k = 2 * i + 1"
    using assms by (intro of_nat_inj_small; simp)+
  then show ?thesis by (auto simp: fb_byte_def store16_at fb_addr_def add.assoc)
qed

lemma store16_frame: "i < 2000 \<Longrightarrow> \<not> in_framebuffer a \<Longrightarrow> store16 (fb_addr (of_nat i)) v m a = m a"
  using in_region_sub [of FRAMEBUFFER "2 * i" 2 a 4000]
  by (intro store16_other) (auto simp: fb_addr_def)

lemma load16_fb_store16:
  assumes "i < 2000" "j < 2000"
  shows "load16 (store16 (fb_addr (of_nat i)) v m) (fb_addr (of_nat j)) =
    (if i = j then v else load16 m (fb_addr (of_nat j)))"
proof (cases "i = j")
  case False
  then show ?thesis using assms by (auto simp: load16_fb fb_byte_store16)
qed simp

section \<open>Scrolling\<close>

lemma copy_row:
  assumes "y < 24"
  shows "memcpy (fb_addr ((of_nat y + 1 - 1) * 80)) (fb_addr ((of_nat y + 1) * 80)) (80 * 2) m a =
    (if in_region (FRAMEBUFFER + of_nat (160 * y)) 160 a then m (a + 160) else m a)"
proof -
  have addr: "fb_addr ((of_nat y + 1 - 1) * 80) = FRAMEBUFFER + of_nat (160 * y)"
    "fb_addr ((of_nat y + 1) * 80) = FRAMEBUFFER + of_nat (160 * y) + 160"
    by (simp_all add: fb_addr_def algebra_simps)
  have len: "80 * 2 = (160 :: u32)" "unat (160 :: u32) = 160" by simp_all
  have "unat (FRAMEBUFFER + of_nat (160 * y) + 160 - (FRAMEBUFFER + of_nat (160 * y))) + unat (160 :: u32) \<le> 2 ^ 32" by simp
  then have "memcpy (FRAMEBUFFER + of_nat (160 * y)) (FRAMEBUFFER + of_nat (160 * y) + 160) 160 m a =
      (if in_region (FRAMEBUFFER + of_nat (160 * y)) 160 a
       then m (FRAMEBUFFER + of_nat (160 * y) + 160 + (a - (FRAMEBUFFER + of_nat (160 * y)))) else m a)"
    by (subst memcpy_at) (simp_all only: len)
  then show ?thesis unfolding addr len by (simp add: add.commute)
qed

lemma scroll_rows:
  assumes "n \<le> 24"
  shows "let m' = for_upto (\<lambda>i m. let y = of_nat i + 1
        in memcpy (fb_addr ((y - 1) * 80)) (fb_addr (y * 80)) (80 * 2) m) n m
    in (\<forall>k<4000. fb_byte m' k = (if k < 160 * n then fb_byte m (k + 160) else fb_byte m k)) \<and>
       (\<forall>a. \<not> in_framebuffer a \<longrightarrow> m' a = m a)"
  unfolding Let_def using assms
proof (induction n)
  case (Suc n)
  let ?m = "for_upto (\<lambda>i. memcpy (fb_addr ((of_nat i + 1 - 1) * 80)) (fb_addr ((of_nat i + 1) * 80)) (80 * 2)) n m"
  have n: "n < 24" using Suc.prems by simp
  have IH: "\<forall>k<4000. fb_byte ?m k = (if k < 160 * n then fb_byte m (k + 160) else fb_byte m k)"
    "\<forall>a. \<not> in_framebuffer a \<longrightarrow> ?m a = m a"
    using Suc by simp_all
  have "fb_byte (memcpy (fb_addr ((of_nat n + 1 - 1) * 80)) (fb_addr ((of_nat n + 1) * 80)) (80 * 2) ?m) k =
      (if k < 160 * Suc n then fb_byte m (k + 160) else fb_byte m k)" if k: "k < 4000" for k
  proof -
    have "in_region (FRAMEBUFFER + of_nat (160 * n)) 160 (FRAMEBUFFER + of_nat k) \<longleftrightarrow> 160 * n \<le> k \<and> k < 160 * n + 160"
      using n k by (intro in_region_offset) simp_all
    moreover have "fb_byte ?m (k + 160) = fb_byte m (k + 160)" if "160 * n \<le> k" "k < 160 * n + 160"
      using that n IH(1) [rule_format, of "k + 160"] by simp
    ultimately show ?thesis
      unfolding fb_byte_def copy_row [OF n] using IH(1) [rule_format, OF k, unfolded fb_byte_def]
      by (auto simp: fb_byte_def add.commute add.left_commute)
  qed
  moreover have "memcpy (fb_addr ((of_nat n + 1 - 1) * 80)) (fb_addr ((of_nat n + 1) * 80)) (80 * 2) ?m a = m a"
    if "\<not> in_framebuffer a" for a
    unfolding copy_row [OF n] using that IH(2) in_region_sub [of FRAMEBUFFER "160 * n" 160 a 4000] n by auto
  ultimately show ?case by simp
qed simp

lemma blank_cells:
  assumes "b + n \<le> 2000"
  shows "(\<forall>j<2000. load16 (for_upto (\<lambda>i. store16 (fb_addr (of_nat b + of_nat i)) BLANK) n m) (fb_addr (of_nat j)) =
        (if b \<le> j \<and> j < b + n then BLANK else load16 m (fb_addr (of_nat j)))) \<and>
    (\<forall>a. \<not> in_framebuffer a \<longrightarrow> for_upto (\<lambda>i. store16 (fb_addr (of_nat b + of_nat i)) BLANK) n m a = m a)"
  using assms
proof (induction n)
  case (Suc n)
  have eq: "of_nat b + of_nat n = (of_nat (b + n) :: u32)" by simp
  show ?case
    using Suc by (simp only: for_upto.simps eq) (auto simp: load16_fb_store16 store16_frame simp del: of_nat_add)
qed auto

lemma Scroll_fields [simp]:
  "xPos (Scroll s) = xPos s" "yPos (Scroll s) = yPos s" "machine.truncate (Scroll s) = machine.truncate s"
  by (simp_all add: Scroll_def Let_def machine.truncate_def)

lemma vmem_update: "vmem (s\<lparr>vmem := m\<rparr>) = m"
  by simp

lemma Scroll_mem:
  "\<forall>j<2000. load16 (vmem (Scroll s)) (fb_addr (of_nat j)) =
      (if j < 1920 then load16 (vmem s) (fb_addr (of_nat (j + 80))) else BLANK)"
  "\<not> in_framebuffer a \<Longrightarrow> vmem (Scroll s) a = vmem s a"
proof -
  let ?m = "for_upto (\<lambda>i m. let y = of_nat i + 1
        in memcpy (fb_addr ((y - 1) * 80)) (fb_addr (y * 80)) (80 * 2) m) 24 (vmem s)"
  have rows: "\<forall>k<4000. fb_byte ?m k = (if k < 3840 then fb_byte (vmem s) (k + 160) else fb_byte (vmem s) k)"
    "\<forall>a. \<not> in_framebuffer a \<longrightarrow> ?m a = vmem s a"
    using scroll_rows [of 24 "vmem s"] by (simp_all add: Let_def)
  have bottom: "(25 - 1) * 80 = (of_nat 1920 :: u32)" by simp
  have m: "vmem (Scroll s) = for_upto (\<lambda>i. store16 (fb_addr (of_nat 1920 + of_nat i)) BLANK) 80 ?m"
    unfolding Scroll_def bottom Let_def by (rule vmem_update)
  have "load16 ?m (fb_addr (of_nat j)) = load16 (vmem s) (fb_addr (of_nat (j + 80)))" if "j < 1920" for j
    using rows(1) that by (simp only: load16_fb) (simp add: algebra_simps)
  then show "\<forall>j<2000. load16 (vmem (Scroll s)) (fb_addr (of_nat j)) =
      (if j < 1920 then load16 (vmem s) (fb_addr (of_nat (j + 80))) else BLANK)"
    using blank_cells [of 1920 80 ?m] unfolding m by (simp del: for_upto.simps of_nat_add of_nat_numeral)
  show "vmem (Scroll s) a = vmem s a" if "\<not> in_framebuffer a"
    using blank_cells [of 1920 80 ?m] rows(2) that unfolding m by (simp del: for_upto.simps of_nat_add of_nat_numeral)
qed

lemma Scroll_screen: "screen_of (Scroll s) = scroll_up (screen_of s)"
  using Scroll_mem(1) [of s] by (auto simp: screen_of_def scroll_up_def mem_cells_def fun_eq_iff)

section \<open>Clearing\<close>

lemma Clear_screen:
  "screen_of (Clear s) = \<lparr>cells = (\<lambda>i. if i < 2000 then BLANK else 0), row = 0, col = 0\<rparr>"
  "\<not> in_framebuffer a \<Longrightarrow> vmem (Clear s) a = vmem s a"
  using blank_cells [of 0 2000 "vmem s"]
  by (auto simp: Clear_def screen_of_def mem_cells_def fun_eq_iff simp del: for_upto.simps)

section \<open>One character\<close>

text \<open>What \<open>WriteChar\<close> does before it wraps the line and scrolls.\<close>

definition place_char :: "u8 \<Rightarrow> u32 \<Rightarrow> u32 \<Rightarrow> vga \<Rightarrow> vga" where
  "place_char c fg bg s =
     (if c = 10 then s\<lparr>xPos := 0, yPos := yPos s + 1\<rparr>
      else if c = 9 then s\<lparr>xPos := push_bit 2 (drop_bit 2 (xPos s + 4))\<rparr>
      else s\<lparr>vmem := store16 (fb_addr (of_nat (80 * unat (yPos s) + unat (xPos s)))) (cell_data c fg bg) (vmem s),
             xPos := xPos s + 1\<rparr>)"

definition wrap :: "vga \<Rightarrow> vga" where
  "wrap s =
     (let s = (if unat (xPos s) \<ge> 80 then s\<lparr>xPos := 0, yPos := yPos s + 1\<rparr> else s)
      in if unat (yPos s) \<ge> 25 then Scroll s\<lparr>yPos := 24\<rparr> else s)"

lemma tab_stop: "unat (x :: u8) < 80 \<Longrightarrow> unat (push_bit 2 (drop_bit 2 (x + 4))) = (unat x + 4) div 4 * 4"
proof -
  assume x: "unat x < 80"
  then have "unat (x + 4) = unat x + 4" by (subst unat_add_small) simp_all
  then have "unat (drop_bit 2 (x + 4)) = (unat x + 4) div 4" by (simp add: unat_drop_bit)
  moreover have "(unat x + 4) div 4 * 4 < 256" using x by simp
  ultimately show ?thesis by (simp add: push_bit_eq_mult unat_word_ariths)
qed

lemma WriteChar_wrap: "on_screen s \<Longrightarrow> WriteChar c fg bg s = wrap (place_char c fg bg s)"
proof -
  assume s: "on_screen s"
  have ge: "ucast (x :: u8) \<ge> (80 :: u32) \<longleftrightarrow> unat x \<ge> 80" "ucast x \<ge> (25 :: u32) \<longleftrightarrow> unat x \<ge> 25" for x
  proof -
    have "unat x mod 2 ^ 32 = unat x" using unsigned_less [of x, where 'a = nat] by (intro mod_less) simp
    then show "ucast x \<ge> (80 :: u32) \<longleftrightarrow> unat x \<ge> 80" "ucast x \<ge> (25 :: u32) \<longleftrightarrow> unat x \<ge> 25"
      by (simp_all add: word_le_nat_alt unat_ucast_mod)
  qed
  have "(unat (xPos s) + 4) div 4 * 4 \<le> 80" using s unfolding on_screen_def by presburger
  then have tab: "\<not> ucast (push_bit 2 (drop_bit 2 (xPos s + 4))) > (80 :: u32)"
    using s tab_stop [of "xPos s"] by (simp add: on_screen_def word_less_nat_alt unat_ucast_mod mod_less)
  have pos: "ucast (yPos s) * 80 + ucast (xPos s) = (of_nat (80 * unat (yPos s) + unat (xPos s)) :: u32)"
    by (simp add: mult.commute)
  have bottom: "ucast (25 - 1 :: u32) = (24 :: u8)" by simp
  show ?thesis
    unfolding WriteChar_def place_char_def wrap_def Let_def ge pos bottom using tab by (simp split del: if_split cong: if_cong)
qed

lemma screen_of_fields [simp]:
  "row (screen_of s) = unat (yPos s)" "col (screen_of s) = unat (xPos s)"
  by (simp_all add: screen_of_def)

lemma place_char_screen:
  assumes "on_screen s"
  shows "settle (screen_of (place_char c fg bg s)) = put_char c (cell_data c fg bg) (screen_of s)"
    and "unat (xPos (place_char c fg bg s)) \<le> 80" "unat (yPos (place_char c fg bg s)) \<le> 25"
    and "\<not> in_framebuffer a \<Longrightarrow> vmem (place_char c fg bg s) a = vmem s a"
    and "machine.truncate (place_char c fg bg s) = machine.truncate s"
proof -
  have x: "unat (xPos s + 1) = unat (xPos s) + 1" and y: "unat (yPos s + 1) = unat (yPos s) + 1"
    using assms by (simp_all add: on_screen_def unat_add_small)
  have i: "80 * unat (yPos s) + unat (xPos s) < 2000" using assms by (simp add: on_screen_def)
  have tab: "unat (push_bit 2 (drop_bit 2 (xPos s + 4))) = (unat (xPos s) + 4) div 4 * 4"
    using assms by (intro tab_stop) (simp add: on_screen_def)
  have store: "mem_cells (store16 (fb_addr (of_nat (80 * unat (yPos s) + unat (xPos s)))) v (vmem s)) =
      (mem_cells (vmem s))(80 * unat (yPos s) + unat (xPos s) := v)" for v
    using i by (auto simp: mem_cells_def load16_fb_store16 fun_eq_iff simp del: of_nat_add of_nat_mult)
  have "screen_of (place_char c fg bg s) =
      (if c = 10 then newline (screen_of s)
       else if c = 9 then (screen_of s)\<lparr>col := (col (screen_of s) + 4) div 4 * 4\<rparr>
       else (screen_of s)\<lparr>cells := (cells (screen_of s))(80 * row (screen_of s) + col (screen_of s) := cell_data c fg bg),
              col := col (screen_of s) + 1\<rparr>)"
    by (simp add: place_char_def screen_of_def newline_def tab x y store del: of_nat_add of_nat_mult)
  then show "settle (screen_of (place_char c fg bg s)) = put_char c (cell_data c fg bg) (screen_of s)"
    by (simp only: put_char_def)
  have "(unat (xPos s) + 4) div 4 * 4 \<le> 80" using assms unfolding on_screen_def by presburger
  then show "unat (xPos (place_char c fg bg s)) \<le> 80" "unat (yPos (place_char c fg bg s)) \<le> 25"
    using assms tab x y by (simp_all add: place_char_def on_screen_def)
  show "vmem (place_char c fg bg s) a = vmem s a" if "\<not> in_framebuffer a"
    using store16_frame [OF i that] by (simp add: place_char_def del: of_nat_add of_nat_mult)
  show "machine.truncate (place_char c fg bg s) = machine.truncate s"
    by (simp add: place_char_def machine.truncate_def)
qed

lemma wrap_screen:
  assumes "unat (xPos s) \<le> 80" "unat (yPos s) \<le> 25"
  shows "screen_of (wrap s) = settle (screen_of s)" and "on_screen (wrap s)"
    and "\<not> in_framebuffer a \<Longrightarrow> vmem (wrap s) a = vmem s a"
    and "machine.truncate (wrap s) = machine.truncate s"
proof -
  have y: "unat (yPos s + 1) = unat (yPos s) + 1" using assms by (simp add: unat_add_small)
  let ?t = "s\<lparr>xPos := 0, yPos := yPos s + 1\<rparr>"
  have line: "screen_of ?t = newline (screen_of s)" by (simp add: screen_of_def newline_def y)
  have top: "screen_of (t\<lparr>yPos := 24\<rparr>) = (screen_of t)\<lparr>row := 24\<rparr>" for t
    by (simp add: screen_of_def)
  show "screen_of (wrap s) = settle (screen_of s)"
    using y by (simp add: wrap_def settle_def Let_def line top Scroll_screen newline_def [of "screen_of s"])
  show "on_screen (wrap s)" using assms y by (auto simp: wrap_def Let_def on_screen_def)
  show "vmem (wrap s) a = vmem s a" if "\<not> in_framebuffer a"
    using that Scroll_mem(2) by (simp add: wrap_def Let_def)
  show "machine.truncate (wrap s) = machine.truncate s"
    using Scroll_fields(3) by (simp add: wrap_def Let_def machine.truncate_def)
qed

lemma WriteChar_screen:
  assumes "on_screen s"
  shows "screen_of (WriteChar c fg bg s) = put_char c (cell_data c fg bg) (screen_of s)"
    and "on_screen (WriteChar c fg bg s)"
    and "\<not> in_framebuffer a \<Longrightarrow> vmem (WriteChar c fg bg s) a = vmem s a"
    and "machine.truncate (WriteChar c fg bg s) = machine.truncate s"
  using place_char_screen [OF assms, where c = c and fg = fg and bg = bg] wrap_screen [of "place_char c fg bg s"]
  by (simp_all add: WriteChar_wrap [OF assms])

end
