(* ===== verification/VGA_Text.thy ===== *)
theory VGA_Text
  imports VGA_Screen Libk_Strings
begin

text \<open>
  Text with escape sequences as the console understands it, and what \<open>WriteVGA\<close> shows of it.
\<close>

unbundle bit_operations_syntax

section \<open>Text\<close>

text \<open>
  A text is a list of characters, some of which have an escape sequence in front of them:
  ESC, an opening bracket, codes with semicolons between them, and \<open>m\<close>.
\<close>

datatype code = Normal | Bold | Foreground nat | Background nat

datatype item = Plain u8 | Styled "code list" u8

fun code_chars :: "code \<Rightarrow> u8 list" where
  "code_chars Normal = [48]"
| "code_chars Bold = [49]"
| "code_chars (Foreground d) = [51, of_nat (48 + d)]"
| "code_chars (Background d) = [52, of_nat (48 + d)]"

fun codes_chars :: "code list \<Rightarrow> u8 list" where
  "codes_chars [] = []"
| "codes_chars [c] = code_chars c"
| "codes_chars (c # cs) = code_chars c @ 59 # codes_chars cs"

fun item_chars :: "item \<Rightarrow> u8 list" where
  "item_chars (Plain c) = [c]"
| "item_chars (Styled codes c) = 27 # 91 # codes_chars codes @ [109, c]"

definition text_chars :: "item list \<Rightarrow> u8 list" where
  "text_chars items = concat (map item_chars items)"

fun code_ok :: "code \<Rightarrow> bool" where
  "code_ok (Foreground d) \<longleftrightarrow> d < 8"
| "code_ok (Background d) \<longleftrightarrow> d < 8"
| "code_ok _ \<longleftrightarrow> True"

fun item_ok :: "item \<Rightarrow> bool" where
  "item_ok (Plain c) \<longleftrightarrow> c \<noteq> 27"
| "item_ok (Styled codes c) \<longleftrightarrow> list_all code_ok codes"

text \<open>The colours 30 to 37 and 40 to 47 in the numbering of the console.\<close>

definition ansi_color :: "nat \<Rightarrow> u32" where
  "ansi_color d = map color_code [Black, Red, Green, Brown, Blue, Magenta, Cyan, LightGrey] ! d"

fun apply_code :: "u32 \<Rightarrow> code \<Rightarrow> u32 \<times> u32 \<Rightarrow> u32 \<times> u32" where
  "apply_code color Normal (fg, bg) = (color, color_code Black)"
| "apply_code color Bold (fg, bg) = (fg + 8, bg)"
| "apply_code color (Foreground d) (fg, bg) = (if fg \<ge> 8 then ansi_color d + 8 else ansi_color d, bg)"
| "apply_code color (Background d) (fg, bg) = (fg, ansi_color d)"

fun show_items :: "u32 \<Rightarrow> item list \<Rightarrow> u32 \<times> u32 \<Rightarrow> screen \<Rightarrow> screen" where
  "show_items color [] style t = t"
| "show_items color (Plain c # items) (fg, bg) t =
     show_items color items (fg, bg) (put_char c (cell_data c fg bg) t)"
| "show_items color (Styled codes c # items) style t =
     (let (fg, bg) = fold (apply_code color) codes style
      in show_items color items (fg, bg) (put_char c (cell_data c fg bg) t))"

section \<open>Strings outside the framebuffer\<close>

text \<open>The characters and the NUL of a string at \<open>p\<close> of the given length lie outside the framebuffer.\<close>

definition off_screen :: "u32 \<Rightarrow> nat \<Rightarrow> bool" where
  "off_screen p n \<longleftrightarrow> (\<forall>k\<le>n. \<not> in_framebuffer (p + of_nat k))"

lemma off_screen_offset: "off_screen p (i + n) \<Longrightarrow> off_screen (p + of_nat i) n"
proof -
  assume *: "off_screen p (i + n)"
  have "\<not> in_framebuffer (p + of_nat i + of_nat k)" if "k \<le> n" for k
    using * that unfolding off_screen_def by (metis add.assoc add_le_cancel_left of_nat_add)
  then show ?thesis by (simp add: off_screen_def)
qed

lemma cstr_off_screen:
  "(\<And>a. \<not> in_framebuffer a \<Longrightarrow> m' a = m a) \<Longrightarrow> off_screen p (length s) \<Longrightarrow> cstr m' p s \<longleftrightarrow> cstr m p s"
  using chars_cong [of s m' p m] by (auto simp: cstr_chars off_screen_def)

section \<open>Escape sequences\<close>

lemma digit_color_ansi: "d < 8 \<Longrightarrow> digit_color (of_nat (48 + d)) color = ansi_color d"
proof -
  assume "d < 8"
  then have "d \<in> {0, 1, 2, 3, 4, 5, 6, 7}" by auto
  then show ?thesis by (auto simp: digit_color_def ansi_color_def)
qed

lemma escape_loop_code:
  assumes "chars m p (code_chars c)" "code_ok c"
  shows "escape_loop m color p fg bg =
    (case apply_code color c (fg, bg) of (fg, bg) \<Rightarrow> escape_loop m color (p + of_nat (length (code_chars c))) fg bg)"
proof (cases c)
  case (Foreground d)
  then have m: "m p = 51" "digit_color (m (p + 1)) color' = ansi_color d" for color'
    using assms digit_color_ansi [of d] by simp_all
  show ?thesis unfolding Foreground by (subst escape_loop.simps) (simp add: m Let_def add.assoc)
next
  case (Background d)
  then have m: "m p = 52" "digit_color (m (p + 1)) color' = ansi_color d" for color'
    using assms digit_color_ansi [of d] by simp_all
  show ?thesis unfolding Background by (subst escape_loop.simps) (simp add: m Let_def add.assoc)
qed (use assms in \<open>subst escape_loop.simps; simp add: Let_def\<close>)+

lemma escape_loop_other:
  "m p = 59 \<Longrightarrow> escape_loop m color p fg bg = escape_loop m color (p + 1) fg bg"
  "m p = 91 \<Longrightarrow> escape_loop m color p fg bg = escape_loop m color (p + 1) fg bg"
  "m p = 109 \<Longrightarrow> escape_loop m color p fg bg = Some (p + 1, fg, bg)"
  by (subst escape_loop.simps; simp add: Let_def)+

lemma escape_loop_codes:
  "chars m p (codes_chars codes @ [109]) \<Longrightarrow> list_all code_ok codes \<Longrightarrow>
   escape_loop m color p fg bg =
     (case fold (apply_code color) codes (fg, bg) of (fg, bg) \<Rightarrow>
        Some (p + of_nat (length (codes_chars codes)) + 1, fg, bg))"
proof (induction codes arbitrary: p fg bg rule: codes_chars.induct)
  case 1
  then show ?case by (simp add: escape_loop_other)
next
  case (2 c)
  then show ?case
    by (cases "apply_code color c (fg, bg)") (auto simp: escape_loop_code escape_loop_other)
next
  case (3 c c' cs)
  obtain fg' bg' where style: "apply_code color c (fg, bg) = (fg', bg')" by fastforce
  let ?p = "p + of_nat (length (code_chars c))"
  have "escape_loop m color p fg bg = escape_loop m color ?p fg' bg'"
    using 3(2,3) style by (subst escape_loop_code) auto
  also have "\<dots> = escape_loop m color (?p + 1) fg' bg'"
    using 3(2) by (intro escape_loop_other(1)) simp
  also have "\<dots> = (case fold (apply_code color) (c' # cs) (fg', bg') of (fg, bg) \<Rightarrow>
        Some (?p + 1 + of_nat (length (codes_chars (c' # cs))) + 1, fg, bg))"
    using 3(2,3) by (intro 3(1)) (auto simp: add.assoc add.commute add.left_commute)
  finally show ?case using style by (simp add: add.assoc add.commute add.left_commute)
qed

section \<open>The loop\<close>

lemma write_loop_end: "vmem s p = 0 \<Longrightarrow> write_loop color p fg bg s = Some s"
  by (subst write_loop.simps) (simp add: Let_def)

lemma write_loop_plain:
  "vmem s p = c \<Longrightarrow> c \<noteq> 0 \<Longrightarrow> c \<noteq> 27 \<Longrightarrow>
   write_loop color p fg bg s = write_loop color (p + 1) fg bg (WriteChar c fg bg s)"
  by (subst write_loop.simps) (simp add: Let_def)

text \<open>The character behind an escape sequence is written whatever it is, the end of the string included.\<close>

lemma write_loop_styled:
  assumes "chars (vmem s) p (item_chars (Styled codes c))" "list_all code_ok codes"
  shows "write_loop color p fg bg s =
    (case fold (apply_code color) codes (fg, bg) of (fg, bg) \<Rightarrow>
       write_loop color (p + of_nat (length (item_chars (Styled codes c)))) fg bg (WriteChar c fg bg s))"
proof -
  let ?q = "p + 2 + of_nat (length (codes_chars codes)) + 1"
  have mem: "vmem s p = 27" "vmem s (p + 1) = 91" "chars (vmem s) (p + 2) (codes_chars codes @ [109])" "vmem s ?q = c"
    using assms(1) by (simp_all add: add.assoc add.commute add.left_commute)
  have "escape_loop (vmem s) color (p + 1) fg bg = escape_loop (vmem s) color (p + 1 + 1) fg bg"
    using mem(2) by (rule escape_loop_other)
  also have "p + 1 + 1 = p + 2" by simp
  also have "escape_loop (vmem s) color (p + 2) fg bg =
      (case fold (apply_code color) codes (fg, bg) of (fg, bg) \<Rightarrow> Some (?q, fg, bg))"
    by (rule escape_loop_codes [OF mem(3) assms(2)])
  finally have esc: "escape_loop (vmem s) color (p + 1) fg bg =
      (case fold (apply_code color) codes (fg, bg) of (fg, bg) \<Rightarrow> Some (?q, fg, bg))" .
  obtain fg' bg' where style: "fold (apply_code color) codes (fg, bg) = (fg', bg')" by fastforce
  have "write_loop color p fg bg s = write_loop color (?q + 1) fg' bg' (WriteChar c fg' bg' s)"
    using mem(1,4) esc style by (subst write_loop.simps) (simp add: Let_def)
  also have "?q + 1 = p + of_nat (length (item_chars (Styled codes c)))" by simp
  finally show ?thesis using style by (simp only: prod.case)
qed

lemma write_loop_items:
  assumes "on_screen s" "cstr (vmem s) p (text_chars items)" "list_all item_ok items"
    "off_screen p (length (text_chars items))"
  shows "\<exists>s'. write_loop color p fg bg s = Some s' \<and>
    screen_of s' = show_items color items (fg, bg) (screen_of s) \<and> on_screen s' \<and>
    (\<forall>a. \<not> in_framebuffer a \<longrightarrow> vmem s' a = vmem s a) \<and> machine.truncate s' = machine.truncate s"
  using assms
proof (induction items arbitrary: p fg bg s)
  case Nil
  then show ?case by (simp add: text_chars_def write_loop_end)
next
  case (Cons item items)
  let ?n = "length (item_chars item)"
  have step: ?case if "write_loop color p fg bg s = write_loop color (p + of_nat ?n) fg' bg' (WriteChar c fg' bg' s)"
    "show_items color (item # items) (fg, bg) (screen_of s) =
       show_items color items (fg', bg') (put_char c (cell_data c fg' bg') (screen_of s))" for c fg' bg'
  proof -
    let ?s = "WriteChar c fg' bg' s"
    note written = WriteChar_screen [OF Cons.prems(1), where c = c and fg = fg' and bg = bg']
    have off: "off_screen (p + of_nat ?n) (length (text_chars items))"
      using Cons.prems(4) by (intro off_screen_offset) (simp add: text_chars_def)
    have "cstr (vmem s) (p + of_nat ?n) (text_chars items)"
      using Cons.prems(2) by (simp add: cstr_chars text_chars_def add.assoc)
    then have "cstr (vmem ?s) (p + of_nat ?n) (text_chars items)"
      using cstr_off_screen [of "vmem ?s" "vmem s", OF written(3) off] by simp
    with Cons.IH [OF written(2) _ _ off] Cons.prems(3) written show ?thesis
      unfolding that by simp
  qed
  have chars: "chars (vmem s) p (item_chars item)" "0 \<notin> set (item_chars item)" "item_ok item"
    using Cons.prems(2,3) by (simp_all add: cstr_chars text_chars_def)
  show ?case
  proof (cases item)
    case (Plain c)
    then show ?thesis using chars by (intro step [of fg bg c]) (simp_all add: write_loop_plain)
  next
    case (Styled codes c)
    obtain fg' bg' where style: "fold (apply_code color) codes (fg, bg) = (fg', bg')" by fastforce
    then show ?thesis
      using chars write_loop_styled [of s p codes c color fg bg] Styled by (intro step [of fg' bg' c]) simp_all
  qed
qed

lemma update_cursor_screen [simp]:
  "xPos (update_cursor x y w s) = xPos s" "yPos (update_cursor x y w s) = yPos s" "vmem (update_cursor x y w s) = vmem s"
  "screen_of (update_cursor x y w s) = screen_of s" "on_screen (update_cursor x y w s) = on_screen s"
  by (simp_all add: update_cursor_def out8_def screen_of_def on_screen_def Let_def)

section \<open>Any string\<close>

text \<open>Whatever the string holds, a loop that ends has stayed inside the framebuffer.\<close>

lemma write_loop_safe:
  assumes "write_loop color p fg bg s = Some s'" "on_screen s"
  shows "on_screen s' \<and> (\<forall>a. \<not> in_framebuffer a \<longrightarrow> vmem s' a = vmem s a) \<and> machine.truncate s' = machine.truncate s"
proof -
  let ?P = "\<lambda>s s'. on_screen s \<longrightarrow> on_screen s' \<and> (\<forall>a. \<not> in_framebuffer a \<longrightarrow> vmem s' a = vmem s a) \<and>
    machine.truncate s' = machine.truncate s"
  have "?P s s'"
  proof (induction rule: write_loop.raw_induct [of "\<lambda>_ _ _ _. ?P", OF _ assms(1)])
    case (1 f color p fg bg s s')
    have step: "?P s s'" if "f color p' fg' bg' (WriteChar c fg' bg' s) = Some s'" for p' fg' bg' c
      using 1(1) [OF that] WriteChar_screen [of s] by auto
    show ?case using 1(2) step by (auto simp: Let_def bind_eq_Some_conv split: if_splits)
  qed
  then show ?thesis using assms(2) by blast
qed

end
