(* ===== verification/DebugConsole.thy ===== *)
theory DebugConsole
  imports VGAConsole Libk_Stdio
begin

text \<open>
  The serial console of the kernel log (DebugConsole.cpp). Strings to print live in memory, as
  for the text console; the port is the first serial port.
\<close>

unbundle bit_operations_syntax

record serial = machine +
  smem :: mem

abbreviation (input) "COM1 \<equiv> 0x3f8 :: u16"

definition baud :: int where "baud = 115200"

text \<open>The characters of a string literal, and the pieces of those with an escape sequence.\<close>

definition literal :: "string \<Rightarrow> u8 list" where
  "literal s = map (\<lambda>c. of_nat (of_char c)) s"

definition escape :: "string \<Rightarrow> u8 list" where
  "escape s = 27 # 91 # literal s"

text \<open>
  The wait for the line: a read of the status register for every count of \<open>timeout\<close>, which is
  tested before it is incremented. The measure is what is left of the count.
\<close>

function wait_line :: "u32 \<Rightarrow> 'a machine_scheme \<Rightarrow> bool \<times> 'a machine_scheme" where
  "wait_line timeout s =
     (let (status, s) = in8 (COM1 + 5) s
      in if status AND 0x20 \<noteq> 0 then (True, s)
         else if timeout > 0xfffff0 then (False, s)
         else wait_line (timeout + 1) s)"
  by pat_completeness auto

termination
proof (relation "measure (\<lambda>(timeout, _). 0xfffff2 - unat timeout)")
  fix timeout :: u32
  assume "\<not> timeout > 0xfffff0"
  then have "unat timeout \<le> 0xfffff0" by (simp add: word_less_nat_alt)
  then show "((timeout + 1, s'), timeout, s :: 'a machine_scheme) \<in> measure (\<lambda>(timeout, _). 0xfffff2 - unat timeout)" for s' s
    by (simp add: unat_add_small)
qed simp

declare wait_line.simps [simp del]

definition SerialWriteChar :: "u8 \<Rightarrow> 'a machine_scheme \<Rightarrow> 'a machine_scheme" where
  "SerialWriteChar c s =
     (case wait_line 0 s of
        (True, s) \<Rightarrow> out8 COM1 c s
      | (False, s) \<Rightarrow> s)"

partial_function (option) WriteString_loop :: "u32 \<Rightarrow> serial \<Rightarrow> serial option" where
  "WriteString_loop str s =
     (let c = smem s str
      in if c \<noteq> 0 then WriteString_loop (str + 1) (SerialWriteChar c s) else Some s)"

definition WriteString :: "u32 \<Rightarrow> serial \<Rightarrow> serial result" where
  "WriteString str s = returns (WriteString_loop str s)"

text \<open>A string literal is the same loop over its characters.\<close>

definition WriteLiteral :: "u8 list \<Rightarrow> 'a machine_scheme \<Rightarrow> 'a machine_scheme" where
  "WriteLiteral str s = fold SerialWriteChar str s"

definition SerialLogConsole_init :: "'a machine_scheme \<Rightarrow> 'a machine_scheme" where
  "SerialLogConsole_init s =
     (let s = out8 (COM1 + 1) 0 s;
          divisor = (of_int (115200 div baud) :: u16);
          s = out8 (COM1 + 3) 0x80 s;
          s = out8 (COM1 + 0) (ucast (divisor AND 0xff)) s;
          s = out8 (COM1 + 1) (ucast (drop_bit 8 divisor)) s;
          s = out8 (COM1 + 3) 0x3 s;
          s = out8 (COM1 + 2) 0x87 s;
          s = WriteLiteral ([10, 10, 32] @ escape ''1m'' @ literal ''-[annOS]-'' @ escape ''0m'' @ [32, 10]) s
      in WriteLiteral (literal ''Serial log console started: '' @ escape ''38;5;74m'' @ literal ''115200'' @
           escape ''0m'' @ literal '' baud, '' @ escape ''38;5;74m'' @ literal ''8n1'' @ escape ''0m'' @ [10]) s)"

text \<open>The escape sequences of the console colours, in their order.\<close>

definition colorStr :: "u8 list list" where
  "colorStr = map escape
     [''30m'', ''34m'', ''32m'', ''36m'', ''31m'', ''35m'', ''33m'', ''37m'',
      ''1;30m'', ''1;34m'', ''1;32m'', ''1;36m'', ''1;31m'', ''1;35m'', ''1;33m'', ''1;37m'']"

definition SerialWriteVGA :: "u32 \<Rightarrow> BaseColors \<Rightarrow> serial \<Rightarrow> serial result" where
  "SerialWriteVGA str color s =
     (let s = (if color \<noteq> LightGrey then WriteLiteral (colorStr ! unat (color_code color)) s else s)
      in and_then (WriteString str s) (\<lambda>s.
           Inr (if color \<noteq> LightGrey then WriteLiteral (escape ''0m'') s else s)))"

definition SerialWriteRGB :: "u32 \<Rightarrow> u8 \<Rightarrow> u8 \<Rightarrow> u8 \<Rightarrow> serial \<Rightarrow> serial result" where
  "SerialWriteRGB str r g b s = SerialWriteVGA str LightGrey s"

definition SerialClear :: "'a machine_scheme \<Rightarrow> 'a machine_scheme" where
  "SerialClear s = WriteLiteral (escape ''2J'') s"

section \<open>What the line carries\<close>

text \<open>The bytes sent to the data register, oldest first, while the divisor latch is closed.\<close>

definition sent :: "io_history \<Rightarrow> u8 list" where
  "sent h = rev (List.map_filter (\<lambda>e. case e of Out8 p v \<Rightarrow> if p = COM1 then Some v else None | _ \<Rightarrow> None) h)"

lemma sent_Cons: "sent (e # h) = sent h @ (case e of Out8 p v \<Rightarrow> if p = COM1 then [v] else [] | _ \<Rightarrow> [])"
  by (auto simp: sent_def List.map_filter_def split: io_event.splits)

text \<open>The status register has the bit for an empty line set in every answer.\<close>

definition line_ready :: "'a machine_scheme \<Rightarrow> bool" where
  "line_ready s \<longleftrightarrow> (\<forall>h. answer8 s h (COM1 + 5) AND 0x20 \<noteq> 0)"

lemma wait_line_ready:
  "line_ready s \<Longrightarrow> wait_line timeout s = (True, snd (in8 (COM1 + 5) s))"
  by (subst wait_line.simps) (simp add: line_ready_def in8_def Let_def)

lemma SerialWriteChar_ready:
  assumes "line_ready s"
  shows "sent (history (SerialWriteChar c s)) = sent (history s) @ [c]"
    and "line_ready (SerialWriteChar c s)" and "machine.more (SerialWriteChar c s) = machine.more s"
  using assms by (simp_all add: SerialWriteChar_def wait_line_ready line_ready_def sent_Cons)

lemma WriteLiteral_ready:
  "line_ready s \<Longrightarrow> sent (history (WriteLiteral cs s)) = sent (history s) @ cs \<and>
   line_ready (WriteLiteral cs s) \<and> machine.more (WriteLiteral cs s) = machine.more s"
  unfolding WriteLiteral_def
  by (induction cs arbitrary: s) (simp_all add: SerialWriteChar_ready)

text \<open>Whatever the line does, the wait ends and only ports are touched.\<close>

lemma wait_line_frame: "machine.more (snd (wait_line timeout s)) = machine.more s"
proof (induction timeout s rule: wait_line.induct)
  case (1 timeout s)
  show ?case
    using 1 [of "in8 (COM1 + 5) s"] by (subst wait_line.simps) (auto simp: in8_def Let_def)
qed

lemma SerialWriteChar_frame: "machine.more (SerialWriteChar c s) = machine.more s"
  using wait_line_frame [of 0 s] by (auto simp: SerialWriteChar_def split: prod.splits bool.splits)

lemma smem_more: "machine.more s = machine.more t \<Longrightarrow> smem s = smem t"
  by (cases s; cases t) simp

lemma WriteLiteral_frame: "machine.more (WriteLiteral cs s) = machine.more s"
  unfolding WriteLiteral_def by (induction cs arbitrary: s) (simp_all add: SerialWriteChar_frame)

lemma WriteString_loop_literal:
  "cstr (smem s) p cs \<Longrightarrow> WriteString_loop p s = Some (WriteLiteral cs s)"
proof (induction cs arbitrary: p s)
  case Nil
  then show ?case by (subst WriteString_loop.simps) (simp add: WriteLiteral_def)
next
  case (Cons c cs)
  have "smem (SerialWriteChar c s) = smem s" by (rule smem_more) (rule SerialWriteChar_frame)
  then show ?case using Cons by (subst WriteString_loop.simps) (simp add: WriteLiteral_def)
qed

end
