(* ===== verification/Console.thy ===== *)
theory Console
  imports VGA_Text DebugConsole Libk_Pieces
begin

text \<open>
  The console interface (Console.hpp) as a locale: what the kernel's output routines in
  libk/stdio_write.cpp and in Log.cpp rely on, and the two consoles that provide it. The routines
  take the operations of the console in use as arguments, as the virtual calls do.
\<close>

unbundle bit_operations_syntax

section \<open>The output routines\<close>

definition kputs :: "(u32 \<Rightarrow> BaseColors \<Rightarrow> 's \<Rightarrow> 's result) \<Rightarrow> u32 \<Rightarrow> 's \<Rightarrow> 's result" where
  "kputs write_vga s st = write_vga s LightGrey st"

text \<open>
  \<open>kprintf\<close> formats into an array of 256 bytes more than the format has characters, at \<open>str\<close> on
  the stack. The formatter does not know that size.
\<close>

definition kprintf ::
  "(u32 \<Rightarrow> BaseColors \<Rightarrow> 's \<Rightarrow> 's result) \<Rightarrow> ('s \<Rightarrow> mem) \<Rightarrow> (mem \<Rightarrow> 's \<Rightarrow> 's) \<Rightarrow>
   u32 \<Rightarrow> u8 list \<Rightarrow> u32 list \<Rightarrow> 's \<Rightarrow> 's result"
where
  "kprintf write_vga memory set_memory str fmt args st =
     and_then (vsprintf_loop fmt args (str, memory st)) (\<lambda>(last, _).
       if unat (last - str) + 2 > 256 + length fmt then Inl (Undefined ''kprintf: str overflows'')
       else and_then (vsprintf str fmt args (memory st)) (\<lambda>m.
              kputs write_vga str (set_memory m st)))"

definition kputc ::
  "(u32 \<Rightarrow> BaseColors \<Rightarrow> 's \<Rightarrow> 's result) \<Rightarrow> ('s \<Rightarrow> mem) \<Rightarrow> (mem \<Rightarrow> 's \<Rightarrow> 's) \<Rightarrow> u32 \<Rightarrow> u8 \<Rightarrow> 's \<Rightarrow> 's result"
where
  "kputc write_vga memory set_memory ch c st =
     write_vga ch LightGrey (set_memory ((memory st)(ch := c, ch + 1 := 0)) st)"

lemma cstr_upd_behind:
  assumes "cstr m p t" "length t + 2 < 2 ^ 32"
  shows "cstr (m(p + of_nat (length t) + 1 := c)) p t"
proof -
  have "p + of_nat i \<noteq> p + of_nat (length t) + 1" if "i \<le> length t" for i
  proof -
    have "(of_nat i :: u32) \<noteq> of_nat (Suc (length t))"
      using that assms(2) by (subst of_nat_inj_small) simp_all
    then show ?thesis by (simp add: add.assoc add.commute)
  qed
  then show ?thesis using assms(1) by (auto simp: cstr_nth)
qed

section \<open>The interface\<close>

text \<open>
  A console shows a string it can read and touches no memory but its own. \<open>chars_of\<close> gives the
  characters of a text, \<open>shown\<close> is what the user sees and \<open>render\<close> how a text in a colour changes
  it; \<open>proper\<close> are the texts the law is about.
\<close>

locale console =
  fixes write_vga :: "u32 \<Rightarrow> BaseColors \<Rightarrow> 's \<Rightarrow> 's result"
    and memory :: "'s \<Rightarrow> mem"
    and set_memory :: "mem \<Rightarrow> 's \<Rightarrow> 's"
    and ok :: "'s \<Rightarrow> bool"
    and device :: "u32 \<Rightarrow> bool"
    and shown :: "'s \<Rightarrow> 'v"
    and chars_of :: "'t \<Rightarrow> u8 list"
    and render :: "BaseColors \<Rightarrow> 't \<Rightarrow> 'v \<Rightarrow> 'v"
    and proper :: "'t \<Rightarrow> bool"
  assumes writes: "ok s \<Longrightarrow> cstr (memory s) p (chars_of t) \<Longrightarrow> proper t \<Longrightarrow>
      (\<forall>k\<le>length (chars_of t). \<not> device (p + of_nat k)) \<Longrightarrow>
      \<exists>s'. write_vga p c s = Inr s' \<and> ok s' \<and> shown s' = render c t (shown s) \<and>
        (\<forall>a. \<not> device a \<longrightarrow> memory s' a = memory s a)"
    and memory_set: "memory (set_memory m s) = m"
    and set_ok: "ok s \<Longrightarrow> (\<And>a. device a \<Longrightarrow> m a = memory s a) \<Longrightarrow> ok (set_memory m s)"
    and set_shown: "(\<And>a. device a \<Longrightarrow> m a = memory s a) \<Longrightarrow> shown (set_memory m s) = shown s"
begin

lemma kputs_shows:
  assumes "ok s" "cstr (memory s) p (chars_of t)" "proper t" "\<forall>k\<le>length (chars_of t). \<not> device (p + of_nat k)"
  shows "\<exists>s'. kputs write_vga p s = Inr s' \<and> ok s' \<and> shown s' = render LightGrey t (shown s) \<and>
    (\<forall>a. \<not> device a \<longrightarrow> memory s' a = memory s a)"
  using writes [OF assms] by (simp add: kputs_def)

text \<open>A string stored outside the device's memory and printed from there.\<close>

lemma store_and_write:
  fixes t
  defines "cs \<equiv> chars_of t"
  assumes "ok s" "proper t" "0 \<notin> set cs" "\<forall>k<length cs + 2. \<not> device (p + of_nat k)" "length cs + 2 < 2 ^ 32"
  shows "\<exists>s'. write_vga p c (set_memory (store_bytes p (cs @ [0, 0]) (memory s)) s) = Inr s' \<and> ok s' \<and>
    shown s' = render c t (shown s) \<and>
    (\<forall>a. \<not> device a \<longrightarrow> memory s' a = store_bytes p (cs @ [0, 0]) (memory s) a)"
proof -
  let ?m = "store_bytes p (cs @ [0, 0]) (memory s)"
  let ?s = "set_memory ?m s"
  have same: "?m a = memory s a" if "device a" for a
  proof -
    have "\<not> in_region p (length cs + 2) a" using assms(5) that by (auto elim: in_regionE)
    then show ?thesis using assms(6) by (simp add: store_bytes_at)
  qed
  have "?m = (store_bytes p (cs @ [0]) (memory s))(p + of_nat (length cs) + 1 := 0)"
    using store_bytes_append [of p "cs @ [0]" "[0]" "memory s"] by (simp add: add.commute add.left_commute)
  moreover have "cstr (store_bytes p (cs @ [0]) (memory s)) p cs"
    using assms(4,6) by (intro cstr_store_bytes) simp_all
  ultimately have "cstr ?m p cs" using assms(6) by (simp add: cstr_upd_behind)
  then show ?thesis
    using writes [of ?s p t c] set_ok [OF assms(2) same] set_shown [OF same] assms(3,5)
    by (simp add: memory_set cs_def)
qed

text \<open>
  \<open>kprintf\<close> of a format whose pieces make up a text. The array on the stack must hold the text
  with two NULs, it must not be the device's, and the strings printed must lie outside it.
\<close>

lemma kprintf_shows:
  fixes ps str
  defines "cs \<equiv> pieces_text ps"
  assumes "ok s" "chars_of t = cs" "proper t"
    and "list_all (piece_ok {a. in_region str (length cs + 2) a} (memory s)) ps"
    and "\<forall>k<length cs + 2. \<not> device (str + of_nat k)"
    and "length cs + 2 \<le> 256 + length (pieces_format ps)" "length cs + 2 < 2 ^ 31"
  shows "\<exists>s'. kprintf write_vga memory set_memory str (pieces_format ps) (pieces_args ps) s = Inr s' \<and> ok s' \<and>
    shown s' = render LightGrey t (shown s) \<and>
    (\<forall>a. \<not> device a \<longrightarrow> memory s' a = store_bytes str (cs @ [0, 0]) (memory s) a)"
proof -
  let ?B = "{a. in_region str (length cs + 2) a}"
  have B: "\<forall>k<length cs + 2. str + of_nat k \<in> ?B" using assms(8) by (auto intro: in_regionI)
  note run = assms(5) [unfolded cs_def] B [unfolded cs_def]
  have len: "length (pieces_text ps) < 2 ^ 31" using assms(8) by (simp add: cs_def)
  from vsprintf_loop_pieces [OF run len] obtain m' where
    "vsprintf_loop (pieces_format ps) (pieces_args ps) (str, memory s) = Inr (str + of_nat (length cs), m')"
    unfolding cs_def by blast
  moreover have "vsprintf str (pieces_format ps) (pieces_args ps) (memory s) = Inr (store_bytes str (cs @ [0, 0]) (memory s))"
    using vsprintf_pieces [OF run len] by (simp add: cs_def)
  moreover have "unat (str + of_nat (length cs) - str) = length cs" using assms(8) by (simp add: unat_of_nat_small)
  ultimately have "kprintf write_vga memory set_memory str (pieces_format ps) (pieces_args ps) s =
      write_vga str LightGrey (set_memory (store_bytes str (cs @ [0, 0]) (memory s)) s)"
    using assms(7) by (simp add: kprintf_def kputs_def)
  moreover have "0 \<notin> set cs" using pieces_text_nonzero [OF assms(5)] by (simp add: cs_def)
  ultimately show ?thesis using store_and_write [of s t str LightGrey] assms(2-4,6,8) by simp
qed

end

section \<open>The two consoles\<close>

text \<open>
  The text console shows texts with escape sequences, the serial line sends all characters as
  they are.
\<close>

definition vga_shows :: "BaseColors \<Rightarrow> item list \<Rightarrow> screen \<Rightarrow> screen" where
  "vga_shows c items v = show_items (color_code c) items (color_code c, color_code Black) v"

definition serial_shows :: "BaseColors \<Rightarrow> u8 list \<Rightarrow> u8 list \<Rightarrow> u8 list" where
  "serial_shows c t v = v @ (if c \<noteq> LightGrey then colorStr ! unat (color_code c) else []) @ t @
     (if c \<noteq> LightGrey then escape ''0m'' else [])"

lemma text_chars_Plain [simp]: "text_chars (map Plain t) = t"
  by (induction t) (simp_all add: text_chars_def)

interpretation vga: console WriteVGA vmem "\<lambda>m s. s\<lparr>vmem := m\<rparr>" on_screen in_framebuffer screen_of
    text_chars vga_shows "list_all item_ok"
proof unfold_locales
  fix s :: vga and p items c
  assume "on_screen s" "cstr (vmem s) p (text_chars items)" "list_all item_ok items"
    "\<forall>k\<le>length (text_chars items). \<not> in_framebuffer (p + of_nat k)"
  then obtain s' where s': "write_loop (color_code c) p (color_code c) (color_code Black) s = Some s'"
    "screen_of s' = vga_shows c items (screen_of s)" "on_screen s'" "\<forall>a. \<not> in_framebuffer a \<longrightarrow> vmem s' a = vmem s a"
    using write_loop_items [of s p items "color_code c" "color_code c" "color_code Black"]
    by (auto simp: vga_shows_def off_screen_def)
  then show "\<exists>s'. WriteVGA p c s = Inr s' \<and> on_screen s' \<and> screen_of s' = vga_shows c items (screen_of s) \<and>
      (\<forall>a. \<not> in_framebuffer a \<longrightarrow> vmem s' a = vmem s a)"
    by (auto simp: WriteVGA_def update_cursor_screen)
next
  fix s :: vga and m
  assume same: "\<And>a. in_framebuffer a \<Longrightarrow> m a = vmem s a"
  have "fb_byte m k = fb_byte (vmem s) k" if "k < 4000" for k
    using same in_regionI [of k 4000 FRAMEBUFFER] that by (simp add: fb_byte_def)
  then have "mem_cells m = mem_cells (vmem s)"
    by (auto simp: mem_cells_def fun_eq_iff load16_fb)
  then show "screen_of (s\<lparr>vmem := m\<rparr>) = screen_of s" by (simp add: screen_of_def)
qed (simp_all add: on_screen_def)

interpretation serial: console SerialWriteVGA smem "\<lambda>m s. s\<lparr>smem := m\<rparr>" line_ready "\<lambda>_. False" "\<lambda>s. sent (history s)"
    "\<lambda>t. t" serial_shows "\<lambda>_. True"
proof unfold_locales
  fix s :: serial and p t c
  assume ready: "line_ready s" and str: "cstr (smem s) p t"
  have lit: "smem (WriteLiteral cs u) = smem u" for cs and u :: serial
    by (rule smem_more) (rule WriteLiteral_frame)
  show "\<exists>s'. SerialWriteVGA p c s = Inr s' \<and> line_ready s' \<and> sent (history s') = serial_shows c t (sent (history s)) \<and>
      (\<forall>a. \<not> False \<longrightarrow> smem s' a = smem s a)"
    using ready str WriteLiteral_ready
    by (auto simp: SerialWriteVGA_def serial_shows_def WriteString_def WriteString_loop_literal lit Let_def)
qed (simp_all add: line_ready_def)

end
