(* ===== verification/Log.thy ===== *)
theory Log
  imports Console
begin

text \<open>
  The kernel log (Log.cpp): the level in front of a line, the formatted text, the line put
  together in a second array, and its way to the log's console and, from warnings on, to the
  screen as well.
\<close>

unbundle bit_operations_syntax

section \<open>Levels\<close>

datatype LogLevel = Debug | Notice | Info | Warning | Error | Fatal

fun level_code :: "LogLevel \<Rightarrow> nat" where
  "level_code Debug = 0" | "level_code Notice = 1" | "level_code Info = 2"
| "level_code Warning = 3" | "level_code Error = 4" | "level_code Fatal = 5"

lemma level_code_inj: "level_code a = level_code b \<Longrightarrow> a = b"
  by (cases a; cases b) simp_all

instantiation LogLevel :: linorder
begin

definition less_eq_LogLevel :: "LogLevel \<Rightarrow> LogLevel \<Rightarrow> bool" where
  "a \<le> b \<longleftrightarrow> level_code a \<le> level_code b"

definition less_LogLevel :: "LogLevel \<Rightarrow> LogLevel \<Rightarrow> bool" where
  "a < b \<longleftrightarrow> level_code a < level_code b"

instance
  by standard (auto simp: less_eq_LogLevel_def less_LogLevel_def intro: level_code_inj)

end

text \<open>What is printed in front of the line, and its colour; \<open>lit\<close> gives the address of a literal.\<close>

fun level_prefix :: "LogLevel \<Rightarrow> (u8 list \<times> BaseColors) option" where
  "level_prefix Debug = Some (literal ''[DEBUG] '', LightGrey)"
| "level_prefix Notice = Some (literal ''[NOTICE] '', LightGrey)"
| "level_prefix Info = None"
| "level_prefix Warning = Some (literal ''[WARNING] '', Yellow)"
| "level_prefix Error = Some (literal ''[ERROR] '', LightRed)"
| "level_prefix Fatal = Some (escape ''41;37;1m'' @ literal ''[FATAL]'' @ escape ''0m'' @ literal '' '', LightGrey)"

definition PrintLogLevel :: "(u32 \<Rightarrow> BaseColors \<Rightarrow> 's \<Rightarrow> 's result) \<Rightarrow> (u8 list \<Rightarrow> u32) \<Rightarrow> LogLevel \<Rightarrow> 's \<Rightarrow> 's result" where
  "PrintLogLevel write_vga lit l st =
     (case level_prefix l of
        None \<Rightarrow> Inr st
      | Some (text, color) \<Rightarrow> write_vga (lit text) color st)"

section \<open>Lines\<close>

text \<open>
  The line of the log: tag and formatted text between escape sequences, put together in an array
  of 8 bytes more than the two have characters.
\<close>

definition strcat_array :: "nat \<Rightarrow> u8 list \<Rightarrow> u8 list \<Rightarrow> u8 list result" where
  "strcat_array array_size s str =
     (if length str + length s + 1 > array_size then Inl (Undefined ''Log::Write: str overflows'') else Inr (str @ s))"

definition Log_line :: "u8 list \<Rightarrow> u8 list \<Rightarrow> u8 list result" where
  "Log_line tag fstr =
     (let array_size = length fstr + length tag + 8
      in and_then (strcat_array array_size tag (escape ''1m'')) (\<lambda>str.
         and_then (strcat_array array_size (escape ''0m'' @ [58, 32]) str) (\<lambda>str.
         and_then (strcat_array array_size fstr str) (\<lambda>str.
         strcat_array array_size [10] str))))"

text \<open>The characters of a string in memory, as far as \<open>strlen\<close> counts them.\<close>

definition string_in :: "mem \<Rightarrow> u32 \<Rightarrow> u8 list result" where
  "string_in m p = and_then (returns (strlen_from m p 0)) (\<lambda>len. Inr (map (\<lambda>i. m (p + of_nat i)) [0..<unat len]))"

text \<open>
  \<open>Write\<close> with the log's console and the one of \<open>kputs\<close>; the two arrays on the stack are at \<open>fstr\<close>
  and \<open>str\<close>. The formatter does not know the size of the first.
\<close>

definition Log_Write ::
  "(u32 \<Rightarrow> BaseColors \<Rightarrow> 's \<Rightarrow> 's result) \<Rightarrow> (u32 \<Rightarrow> BaseColors \<Rightarrow> 's \<Rightarrow> 's result) \<Rightarrow> ('s \<Rightarrow> mem) \<Rightarrow> (mem \<Rightarrow> 's \<Rightarrow> 's) \<Rightarrow>
   (u8 list \<Rightarrow> u32) \<Rightarrow> u32 \<Rightarrow> u32 \<Rightarrow> LogLevel \<Rightarrow> u8 list \<Rightarrow> u8 list \<Rightarrow> u32 list \<Rightarrow> 's \<Rightarrow> 's result"
where
  "Log_Write log_vga con_vga memory set_memory lit fstr str l tag fmt args st =
     and_then (PrintLogLevel log_vga lit l st) (\<lambda>st.
     and_then (vsprintf_loop fmt args (fstr, memory st)) (\<lambda>(last, _).
       if unat (last - fstr) + 2 > length tag + length fmt + 256
       then Inl (Undefined ''Log::Write: fstr overflows'')
       else and_then (vsprintf fstr fmt args (memory st)) (\<lambda>m.
            and_then (string_in m fstr) (\<lambda>text.
            and_then (Log_line tag text) (\<lambda>line.
            and_then (log_vga str LightGrey (set_memory (store_bytes str (line @ [0]) m) st)) (\<lambda>st.
              if l \<ge> Fatal then kputs con_vga (lit (literal ''A fatal error occurred: '' @ [10])) st
              else if l \<ge> Warning then kputs con_vga str st
              else Inr st))))))"

text \<open>The array of the line is 4 bytes short, whatever is logged, so no line is put together within it.\<close>

lemma Log_line_overflows: "Log_line tag fstr = Inl (Undefined ''Log::Write: str overflows'')"
  by (simp add: Log_line_def strcat_array_def escape_def literal_def Let_def)

lemma Log_Write_overflows: "Log_Write log_vga con_vga memory set_memory lit fstr str l tag fmt args st \<noteq> Inr st'"
  by (auto simp: Log_Write_def Log_line_overflows elim!: and_then_InrE split: if_splits)

text \<open>The prefix appears on either console, in the colour of the level.\<close>

context console
begin

lemma PrintLogLevel_shows:
  assumes "ok s" "level_prefix l = Some (text, c)" "cstr (memory s) (lit text) (chars_of t)" "chars_of t = text" "proper t"
    "\<forall>k\<le>length text. \<not> device (lit text + of_nat k)"
  shows "\<exists>s'. PrintLogLevel write_vga lit l s = Inr s' \<and> ok s' \<and> shown s' = render c t (shown s)"
  using writes [OF assms(1,3,5), of c] assms(2,4,6) by (auto simp: PrintLogLevel_def)

end

end
