(* ===== verification/Panic.thy ===== *)
theory Panic
  imports Console
begin

text \<open>
  How the kernel gives up (libk/panic.cpp): the message of \<open>panic\<close> and of a failed assertion on the
  console, after which the processor stops with interrupts disabled. The other theories only
  record that it comes to this, as the outcomes \<open>Panic\<close> and \<open>AssertFailed\<close>.
\<close>

unbundle bit_operations_syntax

section \<open>The code\<close>

text \<open>The last instructions are \<open>cli\<close> and \<open>hlt\<close>: the state in which the processor stops.\<close>

datatype 's outcome = Returns 's | Stopped 's

definition panic_format :: "u8 list" where
  "panic_format = 10 # escape ''41;37;1m'' @ literal ''panic:'' @ escape ''0m'' @ literal '' %s'' @ [10]"

definition panic ::
  "(u32 \<Rightarrow> BaseColors \<Rightarrow> 's \<Rightarrow> 's result) \<Rightarrow> ('s \<Rightarrow> mem) \<Rightarrow> (mem \<Rightarrow> 's \<Rightarrow> 's) \<Rightarrow> u32 \<Rightarrow> u32 \<Rightarrow> 's \<Rightarrow> 's outcome result"
where
  "panic write_vga memory set_memory buf str st =
     and_then (kprintf write_vga memory set_memory buf panic_format [str] st) (\<lambda>st. Inr (Stopped st))"

definition assert_format :: "u8 list" where
  "assert_format = 10 # 10 # escape ''41;37;1m'' @ literal ''Assertion failed at %s:%d.'' @ escape ''0m'' @
     literal '' System halted'' @ [10]"

text \<open>\<open>_assert\<close> with the condition, the name of the file and the line.\<close>

definition assert_expr ::
  "(u32 \<Rightarrow> BaseColors \<Rightarrow> 's \<Rightarrow> 's result) \<Rightarrow> ('s \<Rightarrow> mem) \<Rightarrow> (mem \<Rightarrow> 's \<Rightarrow> 's) \<Rightarrow> u32 \<Rightarrow>
   u32 \<Rightarrow> u32 \<Rightarrow> u32 \<Rightarrow> 's \<Rightarrow> 's outcome result"
where
  "assert_expr write_vga memory set_memory buf expr file line st =
     (if expr = 0
      then and_then (kprintf write_vga memory set_memory buf assert_format [file, line] st) (\<lambda>st. Inr (Stopped st))
      else Inr (Returns st))"

section \<open>The pieces of the messages\<close>

definition panic_pieces :: "u32 \<Rightarrow> u8 list \<Rightarrow> piece list" where
  "panic_pieces str msg =
     [Chars (10 # escape ''41;37;1m'' @ literal ''panic:'' @ escape ''0m'' @ literal '' ''), Str str msg, Chars [10]]"

definition assert_pieces :: "u32 \<Rightarrow> u8 list \<Rightarrow> u32 \<Rightarrow> piece list" where
  "assert_pieces file fname line =
     [Chars (10 # 10 # escape ''41;37;1m'' @ literal ''Assertion failed at ''), Str file fname, Chars [58], Decimal line,
      Chars (46 # escape ''0m'' @ literal '' System halted'' @ [10])]"

lemma panic_pieces: "pieces_format (panic_pieces str msg) = panic_format" "pieces_args (panic_pieces str msg) = [str]"
  by (simp_all add: panic_pieces_def panic_format_def literal_def)

lemma assert_pieces:
  "pieces_format (assert_pieces file fname line) = assert_format" "pieces_args (assert_pieces file fname line) = [file, line]"
  by (simp_all add: assert_pieces_def assert_format_def literal_def)

text \<open>The messages on the text console: white on red up to the colon or the full stop.\<close>

abbreviation (input) "alarm \<equiv> [Background 1, Foreground 7, Bold]"

definition panic_items :: "u8 list \<Rightarrow> item list" where
  "panic_items msg = [Plain 10, Styled alarm 112] @ map Plain (literal ''anic:'') @ [Styled [code.Normal] 32] @
     map Plain msg @ [Plain 10]"

definition assert_items :: "u8 list \<Rightarrow> nat \<Rightarrow> item list" where
  "assert_items fname line = [Plain 10, Plain 10, Styled alarm 65] @ map Plain (literal ''ssertion failed at '' @ fname @
     [58] @ numeral_str 10 line @ [46]) @ [Styled [code.Normal] 32] @ map Plain (literal ''System halted'' @ [10])"

lemma text_chars_append [simp]:
  "text_chars [] = []" "text_chars (x # items) = item_chars x @ text_chars items"
  "text_chars (xs @ ys) = text_chars xs @ text_chars ys"
  by (simp_all add: text_chars_def)

lemma panic_items:
  "text_chars (panic_items msg) = pieces_text (panic_pieces str msg)"
  "27 \<notin> set msg \<Longrightarrow> list_all item_ok (panic_items msg)"
  by (auto simp: panic_items_def panic_pieces_def literal_def escape_def list_all_iff)

lemma assert_items:
  "text_chars (assert_items fname (unat line)) = pieces_text (assert_pieces file fname line)"
  "27 \<notin> set fname \<Longrightarrow> list_all item_ok (assert_items fname (unat line))"
proof -
  have "27 \<notin> set (numeral_str 10 (unat line))" using numeral_str_char [of 10 27] by auto
  then show "27 \<notin> set fname \<Longrightarrow> list_all item_ok (assert_items fname (unat line))"
    by (auto simp: assert_items_def literal_def list_all_iff)
qed (simp add: assert_items_def assert_pieces_def literal_def escape_def)

section \<open>What is shown\<close>

text \<open>
  On either console, with a text that has the characters of the message: the array of \<open>kprintf\<close>
  must be in ordinary memory and apart from the strings printed, whose lengths are bounded by its size.
\<close>

lemma piece_ok_mono: "piece_ok B m x \<Longrightarrow> A \<subseteq> B \<Longrightarrow> piece_ok A m x"
  by (cases x) auto

lemma region_mono: "m \<le> n \<Longrightarrow> {a. in_region p m a} \<subseteq> {a. in_region p n a}"
  by (auto simp: in_region_def)

lemma panic_pieces_ok:
  assumes "cstr m str msg" "\<forall>k\<le>length msg. \<not> in_region buf (length msg + 25) (str + of_nat k)"
  shows "list_all (piece_ok {a. in_region buf (length (pieces_text (panic_pieces str msg)) + 2) a} m) (panic_pieces str msg)"
    "length (pieces_text (panic_pieces str msg)) + 2 = length msg + 25"
proof -
  show len: "length (pieces_text (panic_pieces str msg)) + 2 = length msg + 25"
    by (simp add: panic_pieces_def literal_def escape_def)
  show "list_all (piece_ok {a. in_region buf (length (pieces_text (panic_pieces str msg)) + 2) a} m) (panic_pieces str msg)"
    unfolding len using assms by (simp add: panic_pieces_def literal_def escape_def)
qed

lemma assert_pieces_ok:
  assumes "cstr m file fname" "0 \<le>s line"
    and apart: "\<forall>k\<le>length fname. \<not> in_region buf (length fname + 65) (file + of_nat k)"
  shows "list_all (piece_ok {a. in_region buf (length (pieces_text (assert_pieces file fname line)) + 2) a} m) (assert_pieces file fname line)"
    "length (pieces_text (assert_pieces file fname line)) + 2 \<le> length fname + 65"
proof -
  have n: "length (numeral_str 10 (unat line)) \<le> 10" using numeral_str_10 unat_less_u32 by simp
  then show len: "length (pieces_text (assert_pieces file fname line)) + 2 \<le> length fname + 65"
    by (simp add: assert_pieces_def literal_def escape_def)
  have "list_all (piece_ok {a. in_region buf (length fname + 65) a} m) (assert_pieces file fname line)"
    using assms by (simp add: assert_pieces_def literal_def escape_def)
  then show "list_all (piece_ok {a. in_region buf (length (pieces_text (assert_pieces file fname line)) + 2) a} m) (assert_pieces file fname line)"
    using piece_ok_mono [OF _ region_mono [OF len]] by (auto simp: list_all_iff)
qed

context console
begin

lemma panic_shows:
  assumes "ok s" "cstr (memory s) str msg" "length msg \<le> 256"
    and "chars_of t = pieces_text (panic_pieces str msg)" "proper t"
    and "\<forall>k<length msg + 25. \<not> device (buf + of_nat k)"
    and "\<forall>k\<le>length msg. \<not> in_region buf (length msg + 25) (str + of_nat k)"
  shows "\<exists>s'. panic write_vga memory set_memory buf str s = Inr (Stopped s') \<and> ok s' \<and>
    shown s' = render LightGrey t (shown s)"
proof -
  note ok = panic_pieces_ok [OF assms(2,7)]
  have "length panic_format = 25" by (simp add: panic_format_def literal_def escape_def)
  then show ?thesis
    using kprintf_shows [OF assms(1,4,5) ok(1), unfolded ok(2) panic_pieces] assms(3,6)
    by (auto simp: panic_def)
qed

lemma assert_shows:
  assumes "ok s" "cstr (memory s) file fname" "0 \<le>s line" "length fname \<le> 248"
    and "chars_of t = pieces_text (assert_pieces file fname line)" "proper t"
    and "\<forall>k<length fname + 65. \<not> device (buf + of_nat k)"
    and "\<forall>k\<le>length fname. \<not> in_region buf (length fname + 65) (file + of_nat k)"
  shows "\<exists>s'. assert_expr write_vga memory set_memory buf 0 file line s = Inr (Stopped s') \<and> ok s' \<and>
    shown s' = render LightGrey t (shown s)"
proof -
  note ok = assert_pieces_ok [OF assms(2,3,8)]
  have "length assert_format = 57" by (simp add: assert_format_def literal_def escape_def)
  then show ?thesis
    using kprintf_shows [OF assms(1,5,6) ok(1), unfolded assert_pieces] assms(4,7) ok(2)
    by (auto simp: assert_expr_def)
qed

end

end
