(* ===== verification/Console_Properties.thy ===== *)
theory Console_Properties
  imports Log Panic
begin

text \<open>
  The properties of the kernel's output: what the text console shows of a string with escape
  sequences, what it never touches, and what a formatted line looks like on the screen.
\<close>

unbundle bit_operations_syntax

section \<open>The text console\<close>

text \<open>The accesses that program the cursor of the VGA, newest first.\<close>

definition cursor_writes :: "nat \<Rightarrow> io_history" where
  "cursor_writes pos =
     [Out8 0x3d5 (of_nat (pos div 256)), Out8 0x3d4 0x0e, Out8 0x3d5 (of_nat (pos mod 256)), Out8 0x3d4 0x0f]"

lemma update_cursor_history:
  assumes "on_screen s"
  shows "history (update_cursor (ucast (xPos s)) (ucast (yPos s)) 80 s) =
    cursor_writes (80 * unat (yPos s) + unat (xPos s)) @ history s"
proof -
  let ?pos = "80 * unat (yPos s) + unat (xPos s)"
  have pos: "ucast (yPos s) * 80 + ucast (xPos s) = (of_nat ?pos :: u16)"
    by (simp add: mult.commute)
  have u: "unat (of_nat ?pos :: u16) = ?pos" using assms by (intro unat_of_nat_small) (simp add: on_screen_def)
  have "unat (ucast (of_nat ?pos AND 0xff :: u16) :: u8) = unat (of_nat (?pos mod 256) :: u8)"
    using unat_and_mask [of "of_nat ?pos :: u16" 8]
    by (simp add: unat_ucast_mod u mask_eq_exp_minus_1 unat_of_nat mod_mod_cancel del: of_nat_add of_nat_mult)
  moreover have "unat (ucast (drop_bit 8 (of_nat ?pos :: u16)) :: u8) = unat (of_nat (?pos div 256) :: u8)"
    using assms by (simp add: unat_ucast_mod unat_drop_bit u on_screen_def unat_of_nat mod_less del: of_nat_add of_nat_mult)
  ultimately show ?thesis
    unfolding update_cursor_def Let_def pos cursor_writes_def
    by (simp add: unat_inj del: of_nat_add of_nat_mult)
qed

text \<open>
  C29. \<open>WriteVGA\<close> of a text with escape sequences, stored outside the framebuffer, returns, and the
  screen then shows every character in the colours its sequences select: lines wrap at column
  80, tabs stop at every fourth column, and the screen scrolls by whole lines. Memory
  outside the framebuffer is unchanged and the cursor is programmed to the next position.
\<close>

theorem WriteVGA_shows:
  assumes "on_screen s" "cstr (vmem s) p (text_chars items)" "list_all item_ok items"
    "off_screen p (length (text_chars items))"
  shows "\<exists>s'. WriteVGA p color s = Inr s' \<and>
    screen_of s' = show_items (color_code color) items (color_code color, color_code Black) (screen_of s) \<and>
    on_screen s' \<and> (\<forall>a. \<not> in_framebuffer a \<longrightarrow> vmem s' a = vmem s a) \<and>
    history s' = cursor_writes (80 * row (screen_of s') + col (screen_of s')) @ history s"
proof -
  obtain t where t: "write_loop (color_code color) p (color_code color) (color_code Black) s = Some t"
    "screen_of t = show_items (color_code color) items (color_code color, color_code Black) (screen_of s)" "on_screen t"
    "\<forall>a. \<not> in_framebuffer a \<longrightarrow> vmem t a = vmem s a" "machine.truncate t = machine.truncate s"
    using write_loop_items [OF assms] by blast
  have "history t = history s" using t(5) by (simp add: machine.truncate_def)
  then show ?thesis
    using t(1-4) update_cursor_history [OF t(3)] by (auto simp: WriteVGA_def)
qed

definition hello_vga :: vga where
  "hello_vga = \<lparr>history = [], answer8 = (\<lambda>_ _. 0), answer16 = (\<lambda>_ _. 0), answer32 = (\<lambda>_ _. 0),
     vmem = store_bytes 0x1000 [72, 27, 91, 51, 49, 109, 105, 0] (\<lambda>_. 0), xPos = 0, yPos = 0\<rparr>"

theorem WriteVGA_shows_witness:
  "\<exists>s'. WriteVGA 0x1000 LightGrey hello_vga = Inr s' \<and> cells (screen_of s') 0 = 0x0748 \<and>
    cells (screen_of s') 1 = 0x0469 \<and> col (screen_of s') = 2 \<and> hd (history s') = Out8 0x3d5 0"
proof -
  let ?items = "[Plain 72, Styled [Foreground 1] 105]"
  have "off_screen 0x1000 (length (text_chars ?items))"
    unfolding off_screen_def by (intro allI impI below_framebuffer) (simp add: text_chars_def)
  then obtain s' where s': "WriteVGA 0x1000 LightGrey hello_vga = Inr s'"
    "screen_of s' = show_items 7 ?items (7, 0) (screen_of hello_vga)"
    "history s' = cursor_writes (80 * row (screen_of s') + col (screen_of s')) @ history hello_vga"
    using WriteVGA_shows [of hello_vga "0x1000" ?items LightGrey]
    by (auto simp: hello_vga_def text_chars_def on_screen_def simp del: show_items.simps screen_of_fields)
  have "show_items 7 ?items (7, 0) (screen_of hello_vga) =
      (screen_of hello_vga)\<lparr>cells := (cells (screen_of hello_vga))(0 := 0x0748, 1 := 0x0469), col := 2\<rparr>"
    by (simp add: hello_vga_def put_char_def settle_def cell_data_def ansi_color_def)
  with s' have t: "screen_of s' =
      (screen_of hello_vga)\<lparr>cells := (cells (screen_of hello_vga))(0 := 0x0748, 1 := 0x0469), col := 2\<rparr>" by simp
  have "row (screen_of s') = 0" "col (screen_of s') = 2" unfolding t by (simp_all add: hello_vga_def)
  then have "hd (history s') = Out8 0x3d5 0" unfolding s'(3) by (simp add: cursor_writes_def del: screen_of_fields)
  moreover have "col (screen_of s') = 2" "cells (screen_of s') 0 = 0x0748" "cells (screen_of s') 1 = 0x0469"
    unfolding t by simp_all
  ultimately show ?thesis using s'(1) by blast
qed

text \<open>
  C30. Whatever bytes a string holds, if \<open>WriteVGA\<close> returns then the position is on the screen and no
  memory outside the framebuffer has changed.
\<close>

theorem WriteVGA_safe:
  assumes "WriteVGA p color s = Inr s'" "on_screen s"
  shows "on_screen s' \<and> (\<forall>a. \<not> in_framebuffer a \<longrightarrow> vmem s' a = vmem s a)"
proof -
  obtain t where "write_loop (color_code color) p (color_code color) (color_code Black) s = Some t"
    "s' = update_cursor (ucast (xPos t)) (ucast (yPos t)) 80 t"
    using assms(1) by (cases "write_loop (color_code color) p (color_code color) (color_code Black) s") (auto simp: WriteVGA_def)
  then show ?thesis using write_loop_safe assms(2) by auto
qed

theorem WriteVGA_safe_witness:
  "\<exists>s'. WriteVGA 0x1000 LightGrey hello_vga = Inr s' \<and> on_screen s' \<and> vmem s' 0x1000 = 72 \<and> xPos s' = 2"
proof -
  let ?items = "[Plain 72, Styled [Foreground 1] 105]"
  have on: "on_screen hello_vga" by (simp add: hello_vga_def on_screen_def)
  have "off_screen 0x1000 (length (text_chars ?items))"
    unfolding off_screen_def by (intro allI impI below_framebuffer) (simp add: text_chars_def)
  then obtain t where t: "write_loop 7 0x1000 7 0 hello_vga = Some t" "screen_of t = show_items 7 ?items (7, 0) (screen_of hello_vga)"
    using write_loop_items [of hello_vga "0x1000" ?items 7 7 0] on by (auto simp: hello_vga_def text_chars_def simp del: show_items.simps screen_of_fields)
  let ?s = "update_cursor (ucast (xPos t)) (ucast (yPos t)) 80 t"
  have run: "WriteVGA 0x1000 LightGrey hello_vga = Inr ?s" using t(1) by (simp add: WriteVGA_def)
  have "\<not> in_framebuffer 0x1000" "vmem hello_vga 0x1000 = 72"
    by (simp_all add: hello_vga_def in_region_def)
  then have "on_screen ?s" "vmem ?s 0x1000 = 72" using WriteVGA_safe [OF run on] by auto
  moreover have "col (screen_of t) = 2"
    unfolding t(2) by (simp add: hello_vga_def put_char_def settle_def cell_data_def ansi_color_def)
  then have "xPos t = 2" by (intro unat_inj) simp
  ultimately show ?thesis using run by auto
qed

section \<open>Formatted output\<close>

text \<open>
  C31. \<open>kprintf\<close> on the text console, with a format of literal characters and conversions that make
  up a text with escape sequences: the screen then shows that text in light grey, the
  sequences interpreted, whatever the array on the stack held before. The text may be as long as
  the array, and the array and the strings printed lie outside the framebuffer and apart.
\<close>

theorem kprintf_on_screen:
  assumes "on_screen s" "text_chars items = pieces_text ps" "list_all item_ok items"
    and "list_all (piece_ok {a. in_region str (length (pieces_text ps) + 2) a} (vmem s)) ps"
    and "\<forall>k<length (pieces_text ps) + 2. \<not> in_framebuffer (str + of_nat k)"
    and "length (pieces_text ps) + 2 \<le> 256 + length (pieces_format ps)" "length (pieces_text ps) + 2 < 2 ^ 31"
  shows "\<exists>s'. kprintf WriteVGA vmem (\<lambda>m s. s\<lparr>vmem := m\<rparr>) str (pieces_format ps) (pieces_args ps) s = Inr s' \<and>
    on_screen s' \<and> screen_of s' = vga_shows LightGrey items (screen_of s)"
  using vga.kprintf_shows [OF assms] by blast

text \<open>The line \<open>ESC[1mn=42 ...\<close>: the first character is bold.\<close>

theorem kprintf_on_screen_witness:
  "\<exists>s'. kprintf WriteVGA vmem (\<lambda>m s. s\<lparr>vmem := m\<rparr>) 0x7000 [27, 91, 49, 109, 110, 61, 37, 100, 10, 37, 120] [42, 11] hello_vga = Inr s' \<and>
    screen_of s' = vga_shows LightGrey [Styled [Bold] 110, Plain 61, Plain 52, Plain 50, Plain 10, Plain 98] (screen_of hello_vga)"
proof -
  let ?ps = "[Chars [27, 91, 49, 109, 110, 61], Decimal 42, Chars [10], Hexadecimal 11]"
  let ?items = "[Styled [Bold] 110, Plain 61, Plain 52, Plain 50, Plain 10, Plain 98]"
  have chars: "pieces_text ?ps = [27, 91, 49, 109, 110, 61, 52, 50, 10, 98]"
    by (simp add: numeral_str_def digits.simps digit_char)
  have "\<not> in_framebuffer (0x7000 + of_nat k)" if "k < 12" for k
    using that by (intro below_framebuffer) simp
  then show ?thesis
    using kprintf_on_screen [of hello_vga ?items ?ps "0x7000", unfolded chars]
    by (auto simp: hello_vga_def on_screen_def word_sle_eq)
qed

section \<open>Giving up\<close>

text \<open>
  C32. A panic shows its message, in the alarm colours up to the colon and then in light grey, on a line
  of its own, and the processor stops; whatever was on the screen scrolls as for any other text.
\<close>

theorem panic_on_screen:
  assumes "on_screen s" "cstr (vmem s) str msg" "27 \<notin> set msg" "length msg \<le> 256"
    and "\<forall>k<length msg + 25. \<not> in_framebuffer (buf + of_nat k)"
    and "\<forall>k\<le>length msg. \<not> in_region buf (length msg + 25) (str + of_nat k)"
  shows "\<exists>s'. panic WriteVGA vmem (\<lambda>m s. s\<lparr>vmem := m\<rparr>) buf str s = Inr (Stopped s') \<and> on_screen s' \<and>
    screen_of s' = vga_shows LightGrey (panic_items msg) (screen_of s)"
  using vga.panic_shows [OF assms(1,2,4) panic_items(1) panic_items(2) [OF assms(3)] assms(5,6)] .

lemma put_char_inside:
  assumes "c \<noteq> 9" "r < 24" "k < 79"
  shows "put_char c v \<lparr>cells = f, row = r, col = k\<rparr> =
    (if c = 10 then \<lparr>cells = f, row = r + 1, col = 0\<rparr> else \<lparr>cells = f(80 * r + k := v), row = r, col = k + 1\<rparr>)"
  using assms by (simp add: put_char_def settle_def newline_def)

definition stopping_vga :: vga where
  "stopping_vga = hello_vga\<lparr>vmem := store_bytes 0x3000 [111, 111, 109, 0] (\<lambda>_. 0)\<rparr>"

theorem panic_on_screen_witness:
  "\<exists>s'. panic WriteVGA vmem (\<lambda>m s. s\<lparr>vmem := m\<rparr>) 0x7000 0x3000 stopping_vga = Inr (Stopped s') \<and>
    cells (screen_of s') 80 = 0x4f70 \<and> cells (screen_of s') 87 = 0x076f \<and> row (screen_of s') = 2 \<and> col (screen_of s') = 0"
proof -
  let ?msg = "[111, 111, 109 :: u8]"
  have buf: "\<forall>k<length ?msg + 25. \<not> in_framebuffer (0x7000 + of_nat k)"
    by (intro allI impI below_framebuffer) simp
  have "k = 0 \<or> k = 1 \<or> k = 2 \<or> k = 3" if "k \<le> 3" for k :: nat using that by auto
  then have "\<forall>k\<le>3. \<not> in_region 0x7000 28 (0x3000 + of_nat k)" by (fastforce simp: in_region_def)
  then have apart: "\<forall>k\<le>length ?msg. \<not> in_region 0x7000 (length ?msg + 25) (0x3000 + of_nat k)" by simp
  have s: "on_screen stopping_vga" "cstr (vmem stopping_vga) 0x3000 ?msg" "27 \<notin> set ?msg" "length ?msg \<le> 256"
    by (simp_all add: stopping_vga_def hello_vga_def on_screen_def)
  obtain s' where s': "panic WriteVGA vmem (\<lambda>m s. s\<lparr>vmem := m\<rparr>) 0x7000 0x3000 stopping_vga = Inr (Stopped s')"
    "screen_of s' = vga_shows LightGrey (panic_items ?msg) (screen_of stopping_vga)"
    using panic_on_screen [OF s buf apart] by blast
  obtain f where "screen_of stopping_vga = \<lparr>cells = f, row = 0, col = 0\<rparr>"
    by (simp add: screen_of_def stopping_vga_def hello_vga_def)
  then have "row (screen_of s') = 2" "col (screen_of s') = 0" "cells (screen_of s') 80 = 0x4f70" "cells (screen_of s') 87 = 0x076f"
    unfolding s'(2)
    by (simp_all add: vga_shows_def panic_items_def literal_def put_char_inside ansi_color_def)
      (simp_all add: cell_data_def)
  then show ?thesis using s'(1) by blast
qed

text \<open>A failed assertion likewise shows its file and line; one that holds does nothing.\<close>

lemma assert_on_screen:
  assumes "on_screen s" "cstr (vmem s) file fname" "27 \<notin> set fname" "length fname \<le> 248" "0 \<le>s line"
    and "\<forall>k<length fname + 65. \<not> in_framebuffer (buf + of_nat k)"
    and "\<forall>k\<le>length fname. \<not> in_region buf (length fname + 65) (file + of_nat k)"
  shows "\<exists>s'. assert_expr WriteVGA vmem (\<lambda>m s. s\<lparr>vmem := m\<rparr>) buf 0 file line s = Inr (Stopped s') \<and> on_screen s' \<and>
    screen_of s' = vga_shows LightGrey (assert_items fname (unat line)) (screen_of s)"
  using vga.assert_shows [OF assms(1,2,5,4) assert_items(1) assert_items(2) [OF assms(3)] assms(6,7)] .

lemma assert_holds:
  "expr \<noteq> 0 \<Longrightarrow> assert_expr write_vga memory set_memory buf expr file line st = Inr (Returns st)"
  by (simp add: assert_expr_def)

end
