(* ===== verification/PCIBus.thy ===== *)
theory PCIBus
  imports PortIO
begin

text \<open>
  The PCI bus driver (PCIBus.cpp, PCIDevice.cpp): the queries of the configuration space, the
  discovery of the devices and their lookup. What \<open>Initialize\<close> logs is a report, a list of the
  facts each line prints.
\<close>

unbundle bit_operations_syntax

section \<open>Data\<close>

text \<open>The query word, by its bit fields.\<close>

record PCIAddressQuery =
  align :: "2 word"
  reg :: "6 word"
  func_no :: "3 word"
  device_no :: "5 word"
  bus_no :: "8 word"
  rsvd :: "7 word"
  enable :: "1 word"

definition query_data :: "PCIAddressQuery \<Rightarrow> u32" where
  "query_data q =
     ucast (align q) OR push_bit 2 (ucast (reg q)) OR push_bit 8 (ucast (func_no q)) OR
     push_bit 11 (ucast (device_no q)) OR push_bit 16 (ucast (bus_no q)) OR
     push_bit 24 (ucast (rsvd q)) OR push_bit 31 (ucast (enable q))"

text \<open>
  The first 64 bytes of a function's configuration space as they lie in memory, 16 words of 32
  bits; the fields and the members of the union are parts of it.
\<close>

type_synonym PCIRegister = "u32 list"

definition vendor :: "PCIRegister \<Rightarrow> u16" where "vendor r = ucast (r ! 0)"
definition device :: "PCIRegister \<Rightarrow> u16" where "device r = ucast (drop_bit 16 (r ! 0))"
definition command_reg :: "PCIRegister \<Rightarrow> u16" where "command_reg r = ucast (r ! 1)"
definition status_reg :: "PCIRegister \<Rightarrow> u16" where "status_reg r = ucast (drop_bit 16 (r ! 1))"
definition rev_id :: "PCIRegister \<Rightarrow> u8" where "rev_id r = ucast (r ! 2)"
definition prog_id :: "PCIRegister \<Rightarrow> u8" where "prog_id r = ucast (drop_bit 8 (r ! 2))"
definition subclass_id :: "PCIRegister \<Rightarrow> u8" where "subclass_id r = ucast (drop_bit 16 (r ! 2))"
definition classcode :: "PCIRegister \<Rightarrow> u8" where "classcode r = ucast (drop_bit 24 (r ! 2))"
definition header_type :: "PCIRegister \<Rightarrow> u8" where "header_type r = ucast (drop_bit 16 (r ! 3))"

text \<open>The two members of the union, from byte 16 on: the header of a device and that of a bridge.\<close>

definition byte_of :: "nat \<Rightarrow> u32 \<Rightarrow> u8" where "byte_of k w = ucast (drop_bit (8 * k) w)"
definition half_of :: "nat \<Rightarrow> u32 \<Rightarrow> u16" where "half_of k w = ucast (drop_bit (16 * k) w)"

record PCIDevHeader =
  dev_bars :: "u32 list"
  cardbus_cis_ptr :: u32
  subsys_vendor :: u16
  subsys_id :: u16
  dev_expansion_rom_base :: u32
  dev_capabilities_ptr :: u8
  dev_rsvd :: "u8 list"
  dev_interrupt_line :: u8
  dev_interrupt_pin :: u8
  min_grant :: u8
  max_latency :: u8

definition dev_header :: "PCIRegister \<Rightarrow> PCIDevHeader" where
  "dev_header r =
     \<lparr>dev_bars = take 6 (drop 4 r), cardbus_cis_ptr = r ! 10,
      subsys_vendor = half_of 0 (r ! 11), subsys_id = half_of 1 (r ! 11), dev_expansion_rom_base = r ! 12,
      dev_capabilities_ptr = byte_of 0 (r ! 13),
      dev_rsvd = map (\<lambda>k. byte_of k (r ! 13)) [1, 2, 3] @ map (\<lambda>k. byte_of k (r ! 14)) [0, 1, 2, 3],
      dev_interrupt_line = byte_of 0 (r ! 15), dev_interrupt_pin = byte_of 1 (r ! 15),
      min_grant = byte_of 2 (r ! 15), max_latency = byte_of 3 (r ! 15)\<rparr>"

record PCIBridgeHeader =
  bridge_bars :: "u32 list"
  primary_bus_num :: u8
  secundary_bus_num :: u8
  subordinate_bus_num :: u8
  secondary_lat_timer :: u8
  iobase :: u8
  iolimit :: u8
  secondary_status :: u16
  mem_base :: u16
  mem_limit :: u16
  pref_mem_base :: u16
  pref_mem_limit :: u16
  pref_base_upper :: u32
  pref_limit_upper :: u32
  bridge_capabilities_ptr :: u8
  bridge_rsvd :: "u8 list"
  bridge_expansion_rom_base :: u32
  bridge_interrupt_line :: u8
  bridge_interrupt_pin :: u8
  bridge_control :: u16

definition pci2pci_header :: "PCIRegister \<Rightarrow> PCIBridgeHeader" where
  "pci2pci_header r =
     \<lparr>bridge_bars = take 2 (drop 4 r),
      primary_bus_num = byte_of 0 (r ! 6), secundary_bus_num = byte_of 1 (r ! 6),
      subordinate_bus_num = byte_of 2 (r ! 6), secondary_lat_timer = byte_of 3 (r ! 6),
      iobase = byte_of 0 (r ! 7), iolimit = byte_of 1 (r ! 7), secondary_status = half_of 1 (r ! 7),
      mem_base = half_of 0 (r ! 8), mem_limit = half_of 1 (r ! 8),
      pref_mem_base = half_of 0 (r ! 9), pref_mem_limit = half_of 1 (r ! 9),
      pref_base_upper = r ! 10, pref_limit_upper = r ! 11,
      bridge_capabilities_ptr = byte_of 0 (r ! 12), bridge_rsvd = map (\<lambda>k. byte_of k (r ! 12)) [1, 2, 3],
      bridge_expansion_rom_base = r ! 13, bridge_interrupt_line = byte_of 0 (r ! 14),
      bridge_interrupt_pin = byte_of 1 (r ! 14), bridge_control = half_of 1 (r ! 14)\<rparr>"

text \<open>
  The header of a bridge is 4 bytes short: its interrupt line is read from byte 56 of the
  configuration space, where it is at byte 60, as for a device.
\<close>

lemma interrupt_lines:
  "bridge_interrupt_line (pci2pci_header r) = byte_of 0 (r ! 14)"
  "dev_interrupt_line (dev_header r) = byte_of 0 (r ! 15)"
  by (simp_all add: pci2pci_header_def dev_header_def)

record PCIDev =
  bus :: u8
  dev :: u8
  func :: u8
  devobj :: u32
  reginfo :: PCIRegister

text \<open>\<open>pcidevs\<close> is an array of 32 entries, of which the first \<open>pcidev_count\<close> are in use.\<close>

abbreviation (input) "MAX_PCI_DEVS \<equiv> 32 :: nat"
abbreviation (input) "CONFIG_ADDRESS \<equiv> 0xCF8 :: u16"
abbreviation (input) "CONFIG_DATA \<equiv> 0xCFC :: u16"

record pci = machine +
  pcidevs :: "PCIDev list"
  pcidev_count :: u32

section \<open>Queries\<close>

definition MakePCIAddrQuery :: "u32 \<Rightarrow> u32 \<Rightarrow> u32 \<Rightarrow> u32 \<Rightarrow> PCIAddressQuery" where
  "MakePCIAddrQuery b d f r =
     \<lparr>align = 0, reg = ucast r, func_no = ucast f, device_no = ucast d, bus_no = ucast b, rsvd = 0, enable = 1\<rparr>"

text \<open>\<open>reg_size\<close> is the template argument \<open>size\<close>, in bits.\<close>

definition ReadPCIRegister :: "u8 \<Rightarrow> PCIDev \<Rightarrow> u32 \<Rightarrow> 'a machine_scheme \<Rightarrow> (u32 \<times> 'a machine_scheme) result" where
  "ReadPCIRegister reg_size d idx s =
     (if \<not> reg_size mod 8 = 0 then Inl AssertFailed
      else if \<not> reg_size \<le> 32 then Inl AssertFailed
      else let ridx = idx AND NOT 0x3;
               roff = idx AND 0x3;
               qry = MakePCIAddrQuery (ucast (bus d)) (ucast (dev d)) (ucast (func d)) (drop_bit 2 ridx);
               s = out32 CONFIG_ADDRESS (query_data qry) s;
               (data, s) = in32 CONFIG_DATA s;
               mask = (if reg_size < 32 then push_bit (unat reg_size) 1 - 1 else 0xffffffff);
               ret = drop_bit (unat roff * 8) data
           in Inr (ret AND mask, s))"

section \<open>Lookup\<close>

text \<open>The loops return a pointer into \<open>pcidevs\<close>: its index, or \<open>None\<close> for \<open>NULL\<close>.\<close>

definition FindPCIByVendor :: "u16 \<Rightarrow> u16 \<Rightarrow> pci \<Rightarrow> nat option" where
  "FindPCIByVendor v d s =
     first_index (\<lambda>p. vendor (reginfo p) = v \<and> device (reginfo p) = d) (take (unat (pcidev_count s)) (pcidevs s))"

definition FindPCIByClass :: "u16 \<Rightarrow> u16 \<Rightarrow> pci \<Rightarrow> nat option \<times> u32" where
  "FindPCIByClass c sc s =
     (case first_index (\<lambda>p. ucast (classcode (reginfo p)) = c \<and> ucast (subclass_id (reginfo p)) = sc)
             (take (unat (pcidev_count s)) (pcidevs s)) of
        Some i \<Rightarrow> (Some i, 1)
      | None \<Rightarrow> (None, 0))"

text \<open>
  \<open>DetectPCIByClass\<close> fills the member \<open>pci\<close> of the driver with the device it found; the loop over
  the devices in the list runs once.
\<close>

fun detect_loop :: "PCIDev list \<Rightarrow> nat \<Rightarrow> nat \<Rightarrow> nat option" where
  "detect_loop devs i 0 = None"
| "detect_loop devs i (Suc n) = (if devobj (devs ! i) \<noteq> 0 then detect_loop devs (i + 1) n else Some i)"

definition DetectPCIByClass :: "u16 \<Rightarrow> u16 \<Rightarrow> pci \<Rightarrow> nat option \<Rightarrow> bool \<times> nat option" where
  "DetectPCIByClass c sc s driver_pci =
     (case FindPCIByClass c sc s of
        (p, lsize) \<Rightarrow>
          if lsize = 0 then (False, driver_pci)
          else case detect_loop (pcidevs s) (the p) (unat lsize) of
                 Some i \<Rightarrow> (True, Some i)
               | None \<Rightarrow> (False, driver_pci))"

definition WritePCIRegister :: "u8 \<Rightarrow> PCIDev \<Rightarrow> u32 \<Rightarrow> u32 \<Rightarrow> pci \<Rightarrow> pci result" where
  "WritePCIRegister reg_size d idx data s = Inl (Panic ''unimplemented'')"

definition PCIBus_Reset :: "pci \<Rightarrow> pci" where
  "PCIBus_Reset s = s"

section \<open>Discovery\<close>

text \<open>
  The inner loop reads 18 words, as many as a \<open>PCIDev\<close> has, and stops when the first is all
  ones; it returns whether the function exists and the words read so far.
\<close>

fun query_loop :: "nat \<Rightarrow> nat \<Rightarrow> PCIAddressQuery \<Rightarrow> bool \<Rightarrow> u32 list \<Rightarrow> 'a machine_scheme \<Rightarrow> bool \<times> u32 list \<times> 'a machine_scheme" where
  "query_loop 0 queryidx query present pcibytes s = (present, pcibytes, s)"
| "query_loop (Suc n) queryidx query present pcibytes s =
     (let query = query\<lparr>reg := of_nat queryidx\<rparr>;
          s = out32 CONFIG_ADDRESS (query_data query) s;
          (data, s) = in32 CONFIG_DATA s;
          pcibytes = pcibytes @ [data]
      in if pcibytes ! 0 = 0xffffffff then (present, pcibytes, s)
         else query_loop n (Suc queryidx) query True pcibytes s)"

abbreviation (input) "PCIBSIZE \<equiv> 18 :: nat"

fun scan_functions :: "u32 \<Rightarrow> u32 \<Rightarrow> u32 list \<Rightarrow> nat \<times> pci \<Rightarrow> (nat \<times> pci) result" where
  "scan_functions b d [] (pidx, s) = Inr (pidx, s)"
| "scan_functions b d (f # fs) (pidx, s) =
     (case query_loop PCIBSIZE 0 (MakePCIAddrQuery b d f 0) False [] s of
        (present, pcibytes, s) \<Rightarrow>
          if \<not> present then scan_functions b d fs (pidx, s)
          else if pidx \<ge> MAX_PCI_DEVS then Inl (Undefined ''pcidevs: index out of bounds'')
          else let p = (pcidevs s ! pidx)\<lparr>reginfo := take 16 pcibytes, bus := ucast b, dev := ucast d, func := ucast f\<rparr>;
                   s = s\<lparr>pcidevs := (pcidevs s)[pidx := p]\<rparr>;
                   pidx = pidx + 1
               in if f = 0 \<and> header_type (reginfo p) < 0x80 then Inr (pidx, s)
                  else scan_functions b d fs (pidx, s))"

fun scan_devices :: "u32 \<Rightarrow> u32 list \<Rightarrow> nat \<times> pci \<Rightarrow> (nat \<times> pci) result" where
  "scan_devices b [] s = Inr s"
| "scan_devices b (d # ds) s =
     and_then (scan_functions b d (map of_nat [0..<8]) s) (scan_devices b ds)"

fun scan_buses :: "u32 list \<Rightarrow> nat \<times> pci \<Rightarrow> (nat \<times> pci) result" where
  "scan_buses [] s = Inr s"
| "scan_buses (b # bs) s = and_then (scan_devices b (map of_nat [0..<32]) s) (scan_buses bs)"

text \<open>The report: one entry per line of the log.\<close>

datatype bar_type = IOPort | Memory

datatype pci_line =
    DeviceLine u8 u8 u8 u16 u16 u16 u16 u8
      \<comment> \<open>bus, device, function, vendor, device id, command, status, header type\<close>
  | ClassLine u8 u8 u8 u8
      \<comment> \<open>class, subclass, revision, programming interface\<close>
  | BarLine nat bar_type u32
  | InterruptLine u8 u8
  | CountLine u32

definition bar_lines :: "nat \<Rightarrow> u32 \<Rightarrow> pci_line list" where
  "bar_lines baridx bar =
     (if bar \<noteq> 0
      then if bar AND 0x1 \<noteq> 0 then [BarLine baridx IOPort (bar AND NOT 0x3)]
           else [BarLine baridx Memory (bar AND NOT 0xf)]
      else [])"

definition device_report :: "PCIDev \<Rightarrow> pci_line list" where
  "device_report p =
     (let pr = reginfo p
      in [DeviceLine (bus p) (dev p) (func p) (vendor pr) (device pr) (command_reg pr) (status_reg pr) (header_type pr),
          ClassLine (classcode pr) (subclass_id pr) (rev_id pr) (prog_id pr)] @
         (if header_type pr AND 0xf = 0 then concat (map (\<lambda>i. bar_lines i (dev_bars (dev_header pr) ! i)) [0..<6])
          else if header_type pr AND 0xf = 1 then concat (map (\<lambda>i. bar_lines i (bridge_bars (pci2pci_header pr) ! i)) [0..<2])
          else []) @
         (if dev_interrupt_line (dev_header pr) > 0
          then [InterruptLine (dev_interrupt_line (dev_header pr)) (dev_interrupt_pin (dev_header pr))] else []))"

definition PCIBus_Initialize :: "pci \<Rightarrow> (pci_line list \<times> pci) result" where
  "PCIBus_Initialize s =
     and_then (scan_buses (map of_nat [0..<255]) (0, s)) (\<lambda>(pidx, s).
       let s = s\<lparr>pcidev_count := of_nat pidx\<rparr>
       in Inr (CountLine (of_nat pidx) # concat (map device_report (take pidx (pcidevs s))), s))"

end
