(* ===== verification/PCI_Discovery.thy ===== *)
theory PCI_Discovery
  imports PCIBus
begin

text \<open>
  The configuration space behind the two ports, the functions present in it, and what the
  discovery makes of them.
\<close>

unbundle bit_operations_syntax

section \<open>The host bridge\<close>

text \<open>
  Configuration mechanism 1 of the PCI specification: a read of the data port returns the word
  of the configuration space that the last write to the address port names.
\<close>

type_synonym config_space = "8 word \<Rightarrow> 5 word \<Rightarrow> 3 word \<Rightarrow> 6 word \<Rightarrow> u32"

fun last_address :: "io_history \<Rightarrow> u32" where
  "last_address [] = 0"
| "last_address (Out32 p v # h) = (if p = CONFIG_ADDRESS then v else last_address h)"
| "last_address (e # h) = last_address h"

definition config_read :: "config_space \<Rightarrow> u32 \<Rightarrow> u32" where
  "config_read config a =
     (if bit a 31 then config (ucast (drop_bit 16 a)) (ucast (drop_bit 11 a)) (ucast (drop_bit 8 a)) (ucast (drop_bit 2 a))
      else 0xffffffff)"

definition host_bridge :: "config_space \<Rightarrow> 'a machine_scheme \<Rightarrow> bool" where
  "host_bridge config s \<longleftrightarrow> (\<forall>h. answer32 s h CONFIG_DATA = config_read config (last_address h))"

lemma config_read_query:
  assumes "enable q = 1"
  shows "config_read config (query_data q) = config (bus_no q) (device_no q) (func_no q) (reg q)"
proof -
  have "ucast (drop_bit 16 (query_data q)) = bus_no q" "ucast (drop_bit 11 (query_data q)) = device_no q"
    "ucast (drop_bit 8 (query_data q)) = func_no q" "ucast (drop_bit 2 (query_data q)) = reg q"
    by (rule bit_word_eqI; auto simp: query_data_def bit_simps dest: bit_imp_le_length)+
  moreover have "bit (query_data q) 31" using assms by (simp add: query_data_def bit_simps)
  ultimately show ?thesis by (simp add: config_read_def)
qed

lemma query_data_out:
  assumes "host_bridge config s" "enable q = 1"
  shows "in32 CONFIG_DATA (out32 CONFIG_ADDRESS (query_data q) s) =
    (config (bus_no q) (device_no q) (func_no q) (reg q),
     s\<lparr>history := In32 CONFIG_DATA (config (bus_no q) (device_no q) (func_no q) (reg q)) #
        Out32 CONFIG_ADDRESS (query_data q) # history s\<rparr>)"
  using assms(1) config_read_query [OF assms(2)]
  by (simp add: in32_def out32_def host_bridge_def Let_def)

section \<open>Functions in the configuration space\<close>

definition config_word :: "config_space \<Rightarrow> nat \<Rightarrow> nat \<Rightarrow> nat \<Rightarrow> nat \<Rightarrow> u32" where
  "config_word config b d f r = config (of_nat b) (of_nat d) (of_nat f) (of_nat r)"

definition present :: "config_space \<Rightarrow> nat \<Rightarrow> nat \<Rightarrow> nat \<Rightarrow> bool" where
  "present config b d f \<longleftrightarrow> config_word config b d f 0 \<noteq> 0xffffffff"

definition header :: "config_space \<Rightarrow> nat \<Rightarrow> nat \<Rightarrow> nat \<Rightarrow> PCIRegister" where
  "header config b d f = map (config_word config b d f) [0..<16]"

text \<open>A device whose function 0 has bit 7 of the header type clear has no other functions.\<close>

definition single_function :: "config_space \<Rightarrow> nat \<Rightarrow> nat \<Rightarrow> bool" where
  "single_function config b d \<longleftrightarrow> present config b d 0 \<and> header_type (header config b d 0) < 0x80"

definition device_functions :: "config_space \<Rightarrow> nat \<Rightarrow> nat \<Rightarrow> nat list" where
  "device_functions config b d = (if single_function config b d then [0] else filter (present config b d) [0..<8])"

type_synonym entry = "u8 \<times> u8 \<times> u8 \<times> PCIRegister"

definition entry :: "config_space \<Rightarrow> nat \<Rightarrow> nat \<Rightarrow> nat \<Rightarrow> entry" where
  "entry config b d f = (of_nat b, of_nat d, of_nat f, header config b d f)"

definition device_entries :: "config_space \<Rightarrow> nat \<Rightarrow> nat \<Rightarrow> entry list" where
  "device_entries config b d = map (entry config b d) (device_functions config b d)"

definition bus_entries :: "config_space \<Rightarrow> nat \<Rightarrow> entry list" where
  "bus_entries config b = concat (map (device_entries config b) [0..<32])"

text \<open>Every function on the buses 0 to 254, in the order of bus, device and function number.\<close>

definition all_entries :: "config_space \<Rightarrow> entry list" where
  "all_entries config = concat (map (bus_entries config) [0..<255])"

definition entry_of :: "PCIDev \<Rightarrow> entry" where
  "entry_of p = (bus p, dev p, func p, reginfo p)"

section \<open>The loops\<close>

lemma query_loop_present:
  fixes s :: "'a machine_scheme"
  assumes "host_bridge config s" "present config b d f" "0 < queryidx \<Longrightarrow> pres" "0 < n + queryidx" "n + queryidx \<le> 64"
    "enable q = 1" "bus_no q = of_nat b" "device_no q = of_nat d" "func_no q = of_nat f"
  shows "\<exists>h. query_loop n queryidx q pres (map (config_word config b d f) [0..<queryidx]) s =
    (True, map (config_word config b d f) [0..<n + queryidx], s\<lparr>history := h\<rparr>)"
  using assms
proof (induction n arbitrary: queryidx q pres s)
  case 0
  then show ?case by (auto intro: exI [of _ "history s"])
next
  case (Suc n)
  let ?q = "q\<lparr>reg := of_nat queryidx\<rparr>"
  let ?w = "config_word config b d f"
  obtain h where io: "in32 CONFIG_DATA (out32 CONFIG_ADDRESS (query_data ?q) s) = (?w queryidx, s\<lparr>history := h\<rparr>)"
    using query_data_out [of config s ?q] Suc.prems by (simp add: config_word_def)
  have words: "map ?w [0..<queryidx] @ [?w queryidx] = map ?w [0..<Suc queryidx]" by simp
  have first: "map ?w [0..<Suc queryidx] ! 0 \<noteq> 0xffffffff"
    using Suc.prems(2) by (simp add: present_def nth_append del: upt_Suc)
  have "host_bridge config (s\<lparr>history := h\<rparr>)" using Suc.prems(1) by (simp add: host_bridge_def)
  then obtain h' where "query_loop n (Suc queryidx) ?q True (map ?w [0..<Suc queryidx]) (s\<lparr>history := h\<rparr>) =
      (True, map ?w [0..<n + Suc queryidx], s\<lparr>history := h, history := h'\<rparr>)"
    using Suc.IH [of "s\<lparr>history := h\<rparr>" "Suc queryidx" True ?q] Suc.prems by auto
  then show ?case
    using first by (simp only: query_loop.simps Let_def io prod.case words if_False) auto
qed

lemma query_loop_absent:
  assumes "host_bridge config s" "\<not> present config b d f" "0 < n"
    "enable q = 1" "bus_no q = of_nat b" "device_no q = of_nat d" "func_no q = of_nat f"
  shows "\<exists>h bytes. query_loop n 0 q False [] s = (False, bytes, s\<lparr>history := h\<rparr>)"
proof -
  obtain k where n: "n = Suc k" using assms(3) by (cases n) auto
  obtain h where "in32 CONFIG_DATA (out32 CONFIG_ADDRESS (query_data (q\<lparr>reg := 0\<rparr>)) s) = (0xffffffff, s\<lparr>history := h\<rparr>)"
    using query_data_out [of config s "q\<lparr>reg := 0\<rparr>"] assms by (simp add: config_word_def present_def)
  then show ?thesis by (auto simp: n Let_def)
qed

text \<open>The table during the scan: the entries found so far, in a state where nothing else has changed.\<close>

definition table_inv :: "config_space \<Rightarrow> pci \<Rightarrow> entry list \<Rightarrow> pci \<Rightarrow> bool" where
  "table_inv config s0 L s \<longleftrightarrow>
     host_bridge config s \<and> length (pcidevs s) = 32 \<and> map entry_of (take (length L) (pcidevs s)) = L \<and>
     map devobj (pcidevs s) = map devobj (pcidevs s0)"

definition outcome :: "config_space \<Rightarrow> pci \<Rightarrow> entry list \<Rightarrow> (nat \<times> pci) result \<Rightarrow> bool" where
  "outcome config s0 L r \<longleftrightarrow>
     (if length L \<le> 32 then \<exists>t. r = Inr (length L, t) \<and> table_inv config s0 L t
      else r = Inl (Undefined ''pcidevs: index out of bounds''))"

lemma outcome_and_then:
  assumes "outcome config s0 L r"
    and "\<And>s. length L \<le> 32 \<Longrightarrow> table_inv config s0 L s \<Longrightarrow> outcome config s0 (L @ M) (k (length L, s))"
  shows "outcome config s0 (L @ M) (and_then r k)"
proof (cases "length L \<le> 32")
  case True
  then obtain t where t: "r = Inr (length L, t)" "table_inv config s0 L t" using assms(1) by (auto simp: outcome_def)
  then show ?thesis using assms(2) [OF True t(2)] by (simp add: t(1))
next
  case False
  then show ?thesis using assms(1) by (auto simp: outcome_def)
qed

lemma table_inv_history: "table_inv config s0 L s \<Longrightarrow> table_inv config s0 L (s\<lparr>history := h\<rparr>)"
  by (simp add: table_inv_def host_bridge_def)

lemma table_inv_store:
  assumes "table_inv config s0 L s" "length L < 32" "entry_of p = e" "devobj p = devobj (pcidevs s ! length L)"
  shows "table_inv config s0 (L @ [e]) (s\<lparr>pcidevs := (pcidevs s)[length L := p]\<rparr>)"
proof -
  have len: "length (pcidevs s) = 32" using assms(1) by (simp add: table_inv_def)
  have "map devobj ((pcidevs s)[length L := p]) = (map devobj (pcidevs s))[length L := map devobj (pcidevs s) ! length L]"
    using assms(2,4) len by (simp add: map_update)
  also have "\<dots> = map devobj (pcidevs s0)" using assms(1) by (simp add: table_inv_def)
  finally show ?thesis
    using assms by (simp add: table_inv_def host_bridge_def take_Suc_conv_app_nth)
qed

text \<open>One function: the step every case of the scan goes through.\<close>

lemma scan_function_step:
  assumes "table_inv config s0 L s" "length L \<le> 32" "f < 8"
  shows "\<not> present config b d f \<Longrightarrow> \<exists>s'. table_inv config s0 L s' \<and>
      scan_functions (of_nat b) (of_nat d) (of_nat f # fs) (length L, s) = scan_functions (of_nat b) (of_nat d) fs (length L, s')"
    and "present config b d f \<Longrightarrow> length L < 32 \<Longrightarrow> \<exists>s'. table_inv config s0 (L @ [entry config b d f]) s' \<and>
      scan_functions (of_nat b) (of_nat d) (of_nat f # fs) (length L, s) =
        (if f = 0 \<and> header_type (header config b d f) < 0x80 then Inr (length (L @ [entry config b d f]), s')
         else scan_functions (of_nat b) (of_nat d) fs (length (L @ [entry config b d f]), s'))"
    and "present config b d f \<Longrightarrow> length L = 32 \<Longrightarrow>
      scan_functions (of_nat b) (of_nat d) (of_nat f # fs) (length L, s) = Inl (Undefined ''pcidevs: index out of bounds'')"
proof -
  let ?q = "MakePCIAddrQuery (of_nat b) (of_nat d) (of_nat f) 0"
  have narrow: "ucast (of_nat n :: u32) = (of_nat n :: 'a::len word)" if "LENGTH('a) \<le> 32" for n
    using le_imp_power_dvd [OF that, of "2 :: nat"]
    by (intro unat_inj) (simp add: unat_ucast_mod unat_of_nat mod_mod_cancel)
  have q: "enable ?q = 1" "bus_no ?q = of_nat b" "device_no ?q = of_nat d" "func_no ?q = of_nat f"
    by (simp_all add: MakePCIAddrQuery_def narrow)
  have bridge: "host_bridge config s" using assms(1) by (simp add: table_inv_def)
  show "\<exists>s'. table_inv config s0 L s' \<and>
      scan_functions (of_nat b) (of_nat d) (of_nat f # fs) (length L, s) = scan_functions (of_nat b) (of_nat d) fs (length L, s')"
    if absent: "\<not> present config b d f"
  proof -
    obtain h bytes where "query_loop PCIBSIZE 0 ?q False [] s = (False, bytes, s\<lparr>history := h\<rparr>)"
      using query_loop_absent [OF bridge absent _ q, of 18] by auto
    then show ?thesis using table_inv_history [OF assms(1)] by auto
  qed
  assume pres: "present config b d f"
  obtain h where loop: "query_loop PCIBSIZE 0 ?q False [] s = (True, map (config_word config b d f) [0..<18], s\<lparr>history := h\<rparr>)"
    using query_loop_present [OF bridge pres, of 0 False 18 ?q] q by auto
  have header: "take 16 (map (config_word config b d f) [0..<18]) = header config b d f" for f
    by (simp add: header_def take_map)
  show "scan_functions (of_nat b) (of_nat d) (of_nat f # fs) (length L, s) = Inl (Undefined ''pcidevs: index out of bounds'')"
    if "length L = 32"
    using loop that by simp
  assume less: "length L < 32"
  let ?p = "(pcidevs s ! length L)\<lparr>reginfo := header config b d f, bus := of_nat b, dev := of_nat d, func := of_nat f\<rparr>"
  have "table_inv config s0 (L @ [entry config b d f]) (s\<lparr>history := h, pcidevs := (pcidevs s)[length L := ?p]\<rparr>)"
    using table_inv_store [OF table_inv_history [OF assms(1)] less, of ?p "entry config b d f" h]
    by (simp add: entry_of_def entry_def)
  moreover have "(of_nat f :: u32) = 0 \<longleftrightarrow> f = 0" using assms(3) of_nat_inj_small [where 'a = 32, of f 0] by simp
  ultimately show "\<exists>s'. table_inv config s0 (L @ [entry config b d f]) s' \<and>
      scan_functions (of_nat b) (of_nat d) (of_nat f # fs) (length L, s) =
        (if f = 0 \<and> header_type (header config b d f) < 0x80 then Inr (length (L @ [entry config b d f]), s')
         else scan_functions (of_nat b) (of_nat d) fs (length (L @ [entry config b d f]), s'))"
    using loop less by (intro exI [of _ "s\<lparr>history := h, pcidevs := (pcidevs s)[length L := ?p]\<rparr>"])
      (cases "f = 0"; simp add: header narrow Let_def)
qed

lemma outcome_overflow: "length L > 32 \<Longrightarrow> r = Inl (Undefined ''pcidevs: index out of bounds'') \<Longrightarrow> outcome config s0 L r"
  by (simp add: outcome_def)

lemma scan_functions_rest:
  "table_inv config s0 L s \<Longrightarrow> length L \<le> 32 \<Longrightarrow> set fs \<subseteq> {0<..<8} \<Longrightarrow>
   outcome config s0 (L @ map (entry config b d) (filter (present config b d) fs))
     (scan_functions (of_nat b) (of_nat d) (map of_nat fs) (length L, s))"
proof (induction fs arbitrary: L s)
  case Nil
  then show ?case by (auto simp: outcome_def)
next
  case (Cons f fs)
  then have f: "f < 8" "f \<noteq> 0" by auto
  note step = scan_function_step [OF Cons.prems(1,2) f(1), of b d "map of_nat fs"]
  show ?case
  proof (cases "present config b d f")
    case False
    then show ?thesis using step(1) Cons.IH Cons.prems by (auto simp del: scan_functions.simps)
  next
    case True
    show ?thesis
    proof (cases "length L < 32")
      case less: True
      then obtain s' where "table_inv config s0 (L @ [entry config b d f]) s'"
        "scan_functions (of_nat b) (of_nat d) (map of_nat (f # fs)) (length L, s) =
           scan_functions (of_nat b) (of_nat d) (map of_nat fs) (length (L @ [entry config b d f]), s')"
        using step(2) [OF True less] f(2) by auto
      then show ?thesis using Cons.IH [of "L @ [entry config b d f]" s'] Cons.prems(3) True less
        by (simp del: scan_functions.simps)
    next
      case False
      then show ?thesis using step(3) [OF True] Cons.prems(2) True
        by (intro outcome_overflow) (simp_all del: scan_functions.simps)
    qed
  qed
qed

lemma scan_functions_outcome:
  assumes "table_inv config s0 L s" "length L \<le> 32"
  shows "outcome config s0 (L @ device_entries config b d) (scan_functions (of_nat b) (of_nat d) (map of_nat [0..<8]) (length L, s))"
proof -
  have list: "[0..<8] = 0 # [1..<8]" by (simp add: upt_rec)
  have rest: "set [1..<8] \<subseteq> {0<..<8}" by auto
  note step = scan_function_step [OF assms, of 0 b d "map of_nat [1..<8]"]
  show ?thesis
  proof (cases "present config b d 0")
    case False
    then obtain s' where "table_inv config s0 L s'"
      "scan_functions (of_nat b) (of_nat d) (map of_nat [0..<8]) (length L, s) =
         scan_functions (of_nat b) (of_nat d) (map of_nat [1..<8]) (length L, s')"
      using step(1) unfolding list by auto
    moreover have "device_functions config b d = filter (present config b d) [1..<8]"
      using False by (simp add: device_functions_def single_function_def list)
    ultimately show ?thesis
      using scan_functions_rest [OF _ assms(2) rest, of config s0 s' b d] by (simp add: device_entries_def)
  next
    case True
    show ?thesis
    proof (cases "length L < 32")
      case less: True
      then obtain s' where s': "table_inv config s0 (L @ [entry config b d 0]) s'"
        "scan_functions (of_nat b) (of_nat d) (map of_nat [0..<8]) (length L, s) =
          (if single_function config b d then Inr (length (L @ [entry config b d 0]), s')
           else scan_functions (of_nat b) (of_nat d) (map of_nat [1..<8]) (length (L @ [entry config b d 0]), s'))"
        using step(2) [OF _ True less] True unfolding list by (auto simp: single_function_def)
      show ?thesis
      proof (cases "single_function config b d")
        case single: True
        then show ?thesis using s' less by (simp add: outcome_def device_entries_def device_functions_def)
      next
        case False
        then have "device_functions config b d = 0 # filter (present config b d) [1..<8]"
          using True by (simp add: device_functions_def list)
        then show ?thesis
          using False s' less scan_functions_rest [OF s'(1) _ rest, of b d] by (simp add: device_entries_def)
      qed
    next
      case False
      moreover have "device_functions config b d \<noteq> []" using True by (simp add: device_functions_def list)
      ultimately have "length (L @ device_entries config b d) > 32" using assms(2) by (simp add: device_entries_def)
      moreover have "length L = 32" using False assms(2) by simp
      ultimately show ?thesis using step(3) [OF _ True] unfolding list
        by (intro outcome_overflow) (simp_all del: scan_functions.simps)
    qed
  qed
qed

lemma scan_devices_outcome:
  "table_inv config s0 L s \<Longrightarrow> length L \<le> 32 \<Longrightarrow>
   outcome config s0 (L @ concat (map (device_entries config b) ds)) (scan_devices (of_nat b) (map of_nat ds) (length L, s))"
proof (induction ds arbitrary: L s)
  case Nil
  then show ?case by (auto simp: outcome_def)
next
  case (Cons d ds)
  have "outcome config s0 ((L @ device_entries config b d) @ concat (map (device_entries config b) ds))
      (and_then (scan_functions (of_nat b) (of_nat d) (map of_nat [0..<8]) (length L, s)) (scan_devices (of_nat b) (map of_nat ds)))"
    using scan_functions_outcome [OF Cons.prems] Cons.IH by (rule outcome_and_then)
  then show ?case by simp
qed

lemma scan_buses_outcome:
  "table_inv config s0 L s \<Longrightarrow> length L \<le> 32 \<Longrightarrow>
   outcome config s0 (L @ concat (map (bus_entries config) bs)) (scan_buses (map of_nat bs) (length L, s))"
proof (induction bs arbitrary: L s)
  case Nil
  then show ?case by (auto simp: outcome_def)
next
  case (Cons b bs)
  have "outcome config s0 (L @ bus_entries config b) (scan_devices (of_nat b) (map of_nat [0..<32]) (length L, s))"
    unfolding bus_entries_def by (rule scan_devices_outcome [OF Cons.prems])
  then have "outcome config s0 ((L @ bus_entries config b) @ concat (map (bus_entries config) bs))
      (and_then (scan_devices (of_nat b) (map of_nat [0..<32]) (length L, s)) (scan_buses (map of_nat bs)))"
    using Cons.IH by (rule outcome_and_then)
  then show ?case by simp
qed

end
