(* ===== verification/PCI_Properties.thy ===== *)
theory PCI_Properties
  imports PCI_Discovery
begin

text \<open>
  The properties of the PCI bus driver: the discovery finds every function on the buses it scans,
  and register reads return the field asked for.
\<close>

unbundle bit_operations_syntax

lemma first_index_map: "first_index P (map f xs) = first_index (\<lambda>x. P (f x)) xs"
  by (induction xs) auto

section \<open>Discovery\<close>

text \<open>
  C33. On every configuration space \<open>Initialize\<close> fills the table with exactly the functions that
  are present on the buses 0 to 254, in the order of their numbers, each with its address and
  the first 64 bytes of its configuration space, and leaves the driver objects alone; the two
  lookups then find the first function with the given ids or classes among them. If more than 32
  functions are present it writes behind the table instead.
\<close>

theorem PCIBus_Initialize_enumerates:
  assumes "host_bridge config s" "length (pcidevs s) = 32"
  shows "if length (all_entries config) \<le> 32
    then \<exists>report s'. PCIBus_Initialize s = Inr (report, s') \<and>
      unat (pcidev_count s') = length (all_entries config) \<and>
      map entry_of (take (length (all_entries config)) (pcidevs s')) = all_entries config \<and>
      map devobj (pcidevs s') = map devobj (pcidevs s) \<and>
      (\<forall>v d. FindPCIByVendor v d s' = first_index (\<lambda>(b, dv, f, r). vendor r = v \<and> device r = d) (all_entries config)) \<and>
      (\<forall>c sc. fst (FindPCIByClass c sc s') =
         first_index (\<lambda>(b, dv, f, r). ucast (classcode r) = c \<and> ucast (subclass_id r) = sc) (all_entries config))
    else PCIBus_Initialize s = Inl (Undefined ''pcidevs: index out of bounds'')"
proof -
  let ?L = "all_entries config"
  have "table_inv config s [] s" using assms by (simp add: table_inv_def)
  from scan_buses_outcome [OF this, of "[0..<255]"]
  have scan: "outcome config s ?L (scan_buses (map of_nat [0..<255]) (0, s))"
    by (simp only: append_Nil list.size(3) le0 all_entries_def)
  show ?thesis
  proof (cases "length ?L \<le> 32")
    case True
    then obtain t where t: "scan_buses (map of_nat [0..<255]) (0, s) = Inr (length ?L, t)" "table_inv config s ?L t"
      using scan by (auto simp: outcome_def)
    let ?t = "t\<lparr>pcidev_count := of_nat (length ?L)\<rparr>"
    have count: "unat (of_nat (length ?L) :: u32) = length ?L" using True by (intro unat_of_nat_small) simp
    have table: "map entry_of (take (length ?L) (pcidevs t)) = ?L" using t(2) by (simp add: table_inv_def)
    have "PCIBus_Initialize s = Inr (CountLine (of_nat (length ?L)) # concat (map device_report (take (length ?L) (pcidevs t))), ?t)"
      by (simp only: PCIBus_Initialize_def t(1) and_then.simps prod.case Let_def) simp
    moreover have "FindPCIByVendor v d ?t = first_index (\<lambda>(b, dv, f, r). vendor r = v \<and> device r = d) (map entry_of (take (length ?L) (pcidevs t)))" for v d
      by (simp add: FindPCIByVendor_def count first_index_map entry_of_def)
    moreover have "fst (FindPCIByClass c sc ?t) = first_index (\<lambda>(b, dv, f, r). ucast (classcode r) = c \<and> ucast (subclass_id r) = sc)
        (map entry_of (take (length ?L) (pcidevs t)))" for c sc
      by (simp add: FindPCIByClass_def count first_index_map entry_of_def split: option.split)
    moreover have "map devobj (pcidevs t) = map devobj (pcidevs s)" using t(2) by (simp add: table_inv_def)
    ultimately show ?thesis using True count table by auto
  next
    case False
    then show ?thesis using scan by (simp add: outcome_def PCIBus_Initialize_def)
  qed
qed

text \<open>A machine with one host bridge, vendor 0x8086 and device 0x1237, at 0:0.0.\<close>

definition one_bridge :: config_space where
  "one_bridge b d f r = (if b = 0 \<and> d = 0 \<and> f = 0 then (if r = 0 then 0x12378086 else 0) else 0xffffffff)"

definition pci_machine :: pci where
  "pci_machine = \<lparr>history = [], answer8 = (\<lambda>_ _. 0), answer16 = (\<lambda>_ _. 0), answer32 = (\<lambda>h _. config_read one_bridge (last_address h)),
     pcidevs = replicate 32 \<lparr>bus = 0, dev = 0, func = 0, devobj = 0, reginfo = []\<rparr>, pcidev_count = 0\<rparr>"

lemma one_bridge_entries: "all_entries one_bridge = [entry one_bridge 0 0 0]"
proof -
  have absent: "device_entries one_bridge b d = []" if "b < 255" "d < 32" "b \<noteq> 0 \<or> d \<noteq> 0" for b d
  proof -
    have "(of_nat b :: 8 word) = 0 \<longleftrightarrow> b = 0" "(of_nat d :: 5 word) = 0 \<longleftrightarrow> d = 0"
      using that of_nat_inj_small [where 'a = 8, of b 0] of_nat_inj_small [where 'a = 5, of d 0] by simp_all
    then have "\<not> present one_bridge b d f" for f
      using that by (auto simp: present_def config_word_def one_bridge_def)
    then show ?thesis by (simp add: device_entries_def device_functions_def single_function_def)
  qed
  have first: "device_entries one_bridge 0 0 = [entry one_bridge 0 0 0]"
    by (simp add: device_entries_def device_functions_def single_function_def present_def header_def
        config_word_def one_bridge_def header_type_def)
  have "[0..<32] = 0 # [1..<32]" "[0..<255] = 0 # [1..<255]" by (simp_all add: upt_rec [of 0])
  moreover have "concat (map (device_entries one_bridge 0) [1..<32]) = []" using absent by simp
  moreover have "concat (map (bus_entries one_bridge) [1..<255]) = []" using absent by (simp add: bus_entries_def)
  ultimately show ?thesis using first by (simp add: all_entries_def bus_entries_def)
qed

theorem PCIBus_Initialize_enumerates_witness:
  "\<exists>report s'. PCIBus_Initialize pci_machine = Inr (report, s') \<and> unat (pcidev_count s') = 1 \<and>
    FindPCIByVendor 0x8086 0x1237 s' = Some 0 \<and> FindPCIByVendor 0x8086 0x1111 s' = None"
proof -
  have bridge: "host_bridge one_bridge pci_machine" by (simp add: host_bridge_def pci_machine_def)
  have found: "vendor (header one_bridge 0 0 0) = 0x8086" "device (header one_bridge 0 0 0) = 0x1237"
    by (simp_all add: vendor_def device_def header_def config_word_def one_bridge_def)
  have len: "length (pcidevs pci_machine) = 32" by (simp add: pci_machine_def)
  have small: "length (all_entries one_bridge) \<le> 32" by (simp add: one_bridge_entries)
  obtain report s' where s': "PCIBus_Initialize pci_machine = Inr (report, s')"
    "unat (pcidev_count s') = length (all_entries one_bridge)"
    "\<forall>v d. FindPCIByVendor v d s' = first_index (\<lambda>(b, dv, f, r). vendor r = v \<and> device r = d) (all_entries one_bridge)"
    using PCIBus_Initialize_enumerates [OF bridge len] unfolding if_P [OF small]
    by (elim exE conjE) (rule that)
  have "FindPCIByVendor 0x8086 0x1237 s' = Some 0" "FindPCIByVendor 0x8086 0x1111 s' = None"
    unfolding s'(3) [rule_format] by (simp_all add: one_bridge_entries entry_def found)
  moreover have "unat (pcidev_count s') = 1" using s'(2) by (simp add: one_bridge_entries)
  ultimately show ?thesis using s'(1) by blast
qed

section \<open>Register reads\<close>

text \<open>
  A register read of 8, 16 or 32 bits that does not cross a 4-byte boundary returns the field at
  that offset of the function's configuration space; other sizes fail an assertion.
\<close>

lemma ReadPCIRegister_field:
  assumes "host_bridge config s"
  shows "ReadPCIRegister reg_size d idx s =
    (if reg_size mod 8 = 0 \<and> reg_size \<le> 32
     then let w = config (bus d) (ucast (dev d)) (ucast (func d)) (ucast (drop_bit 2 idx))
          in Inr (drop_bit (unat (idx AND 3) * 8) w AND (if reg_size < 32 then push_bit (unat reg_size) 1 - 1 else 0xffffffff),
                  snd (in32 CONFIG_DATA (out32 CONFIG_ADDRESS
                    (query_data (MakePCIAddrQuery (ucast (bus d)) (ucast (dev d)) (ucast (func d)) (drop_bit 2 (idx AND NOT 3)))) s)))
     else Inl AssertFailed)"
proof -
  let ?q = "MakePCIAddrQuery (ucast (bus d)) (ucast (dev d)) (ucast (func d)) (drop_bit 2 (idx AND NOT 3))"
  have q: "enable ?q = 1" "bus_no ?q = bus d" "device_no ?q = ucast (dev d)" "func_no ?q = ucast (func d)"
    by (simp_all add: MakePCIAddrQuery_def) (rule bit_word_eqI; simp add: bit_simps)+
  have three: "3 = (mask 2 :: u32)" by (simp add: mask_eq_exp_minus_1)
  have "drop_bit 2 (idx AND NOT (mask 2)) = drop_bit 2 idx"
    by (rule bit_word_eqI) (auto simp: bit_simps dest: bit_imp_le_length)
  then have "reg ?q = ucast (drop_bit 2 idx)" unfolding MakePCIAddrQuery_def three by (simp only: PCIAddressQuery.select_convs)
  then show ?thesis
    using query_data_out [OF assms q(1)] q by (simp add: ReadPCIRegister_def Let_def)
qed

end
