(* ===== verification/SMBIOS_Tables.thy ===== *)
theory SMBIOS_Tables
  imports Libk_Stdio
begin

text \<open>
  The packed structures of the SMBIOS tables (arch/x86/SMBIOS.hpp): a record for each, with the
  fields in the order of the header, and how the code reads it through a pointer. The names of
  the fields carry the structure where the header uses a name twice.
\<close>

unbundle bit_operations_syntax

section \<open>Bytes in memory\<close>

definition bytes_at :: "mem \<Rightarrow> u32 \<Rightarrow> nat \<Rightarrow> u8 list" where
  "bytes_at m p n = map (\<lambda>i. m (p + of_nat i)) [0..<n]"

section \<open>The entry point\<close>

record SMBiosEntry =
  anchor :: "u8 list"
  checksum :: u8
  ep_length :: u8
  major :: u8
  minor :: u8
  max_structure_size :: u16
  entry_point_revision :: u8
  entry_point_fmtd_area :: "u8 list"
  interm_anchor :: "u8 list"
  interm_checksum :: u8
  ep_struct_len :: u16
  ep_struct_addr :: u32
  ep_struct_count :: u16
  smbios_bcd_revision :: u8

definition read_SMBiosEntry :: "mem \<Rightarrow> u32 \<Rightarrow> SMBiosEntry" where
  "read_SMBiosEntry m p =
     \<lparr>anchor = bytes_at m p 4, checksum = m (p + 4), ep_length = m (p + 5), major = m (p + 6), minor = m (p + 7),
      max_structure_size = load16 m (p + 8), entry_point_revision = m (p + 10),
      entry_point_fmtd_area = bytes_at m (p + 11) 5, interm_anchor = bytes_at m (p + 16) 5,
      interm_checksum = m (p + 21), ep_struct_len = load16 m (p + 22), ep_struct_addr = load32 m (p + 24),
      ep_struct_count = load16 m (p + 28), smbios_bcd_revision = m (p + 30)\<rparr>"

section \<open>Structures\<close>

record SMBiosStrHeader =
  str_type :: u8
  str_length :: u8
  str_handle :: u16

definition read_SMBiosStrHeader :: "mem \<Rightarrow> u32 \<Rightarrow> SMBiosStrHeader" where
  "read_SMBiosStrHeader m p = \<lparr>str_type = m p, str_length = m (p + 1), str_handle = load16 m (p + 2)\<rparr>"

record SMBios_BiosInfo =
  bios_hdr :: SMBiosStrHeader
  vendor_strptr :: u8
  version_strptr :: u8
  starting_segment :: u16
  releasedate_strptr :: u8
  rom_size :: u8
  bios_characteristics :: u64

definition read_SMBios_BiosInfo :: "mem \<Rightarrow> u32 \<Rightarrow> SMBios_BiosInfo" where
  "read_SMBios_BiosInfo m p =
     \<lparr>bios_hdr = read_SMBiosStrHeader m p, vendor_strptr = m (p + 4), version_strptr = m (p + 5),
      starting_segment = load16 m (p + 6), releasedate_strptr = m (p + 8), rom_size = m (p + 9),
      bios_characteristics = load64 m (p + 10)\<rparr>"

record SMBios_SysInfo =
  sys_hdr :: SMBiosStrHeader
  sys_manufacturer_sp :: u8
  sys_prodname_sp :: u8
  sys_version_sp :: u8
  sys_serialnumber_sp :: u8
  uuid :: "u8 list"
  wakeup_event :: u8
  sku_number_sp :: u8
  model_family_sp :: u8

definition read_SMBios_SysInfo :: "mem \<Rightarrow> u32 \<Rightarrow> SMBios_SysInfo" where
  "read_SMBios_SysInfo m p =
     \<lparr>sys_hdr = read_SMBiosStrHeader m p, sys_manufacturer_sp = m (p + 4), sys_prodname_sp = m (p + 5),
      sys_version_sp = m (p + 6), sys_serialnumber_sp = m (p + 7), uuid = bytes_at m (p + 8) 16,
      wakeup_event = m (p + 24), sku_number_sp = m (p + 25), model_family_sp = m (p + 26)\<rparr>"

record SMBios_Baseboard =
  board_hdr :: SMBiosStrHeader
  board_manufacturer_sp :: u8
  board_prodname_sp :: u8
  board_version_sp :: u8
  board_serialnumber_sp :: u8
  board_asset_tag_sp :: u8
  feature_flags :: u8
  chassis_location_sp :: u8
  chassis_handle :: u16
  board_type :: u8

definition read_SMBios_Baseboard :: "mem \<Rightarrow> u32 \<Rightarrow> SMBios_Baseboard" where
  "read_SMBios_Baseboard m p =
     \<lparr>board_hdr = read_SMBiosStrHeader m p, board_manufacturer_sp = m (p + 4), board_prodname_sp = m (p + 5),
      board_version_sp = m (p + 6), board_serialnumber_sp = m (p + 7), board_asset_tag_sp = m (p + 8),
      feature_flags = m (p + 9), chassis_location_sp = m (p + 10), chassis_handle = load16 m (p + 11),
      board_type = m (p + 13)\<rparr>"

record SMBios_Processor =
  proc_hdr :: SMBiosStrHeader
  socket_sp :: u8
  proc_type :: u8
  proc_family :: u8
  proc_manufacturer_sp :: u8
  proc_id :: u64
  proc_version_sp :: u8
  voltage :: u8
  clock_mhz :: u16
  max_speed_mhz :: u16
  curr_speed_mhz :: u16
  proc_status :: u8

definition read_SMBios_Processor :: "mem \<Rightarrow> u32 \<Rightarrow> SMBios_Processor" where
  "read_SMBios_Processor m p =
     \<lparr>proc_hdr = read_SMBiosStrHeader m p, socket_sp = m (p + 4), proc_type = m (p + 5), proc_family = m (p + 6),
      proc_manufacturer_sp = m (p + 7), proc_id = load64 m (p + 8), proc_version_sp = m (p + 16),
      voltage = m (p + 17), clock_mhz = load16 m (p + 18), max_speed_mhz = load16 m (p + 20),
      curr_speed_mhz = load16 m (p + 22), proc_status = m (p + 24)\<rparr>"

record SMBios_MemDevice =
  memdev_hdr :: SMBiosStrHeader
  memarray_handle :: u16
  memerr_handle :: u16
  total_width :: u16
  data_width :: u16
  mem_size :: u16
  form_factor :: u8
  device_set_id :: u8
  device_location_sp :: u8
  bank_location_sp :: u8
  mem_type :: u8
  mem_type_detail :: u16
  memdev_speed_mhz :: u16
  memdev_manufacturer_sp :: u8
  memdev_serialnumber_sp :: u8
  memdev_asset_tag_sp :: u8
  part_number_sp :: u8
  mem_attributes :: u8
  extended_size :: u32

definition read_SMBios_MemDevice :: "mem \<Rightarrow> u32 \<Rightarrow> SMBios_MemDevice" where
  "read_SMBios_MemDevice m p =
     \<lparr>memdev_hdr = read_SMBiosStrHeader m p, memarray_handle = load16 m (p + 4), memerr_handle = load16 m (p + 6),
      total_width = load16 m (p + 8), data_width = load16 m (p + 10), mem_size = load16 m (p + 12),
      form_factor = m (p + 14), device_set_id = m (p + 15), device_location_sp = m (p + 16),
      bank_location_sp = m (p + 17), mem_type = m (p + 18), mem_type_detail = load16 m (p + 19),
      memdev_speed_mhz = load16 m (p + 21), memdev_manufacturer_sp = m (p + 23), memdev_serialnumber_sp = m (p + 24),
      memdev_asset_tag_sp = m (p + 25), part_number_sp = m (p + 26), mem_attributes = m (p + 27),
      extended_size = load32 m (p + 28)\<rparr>"

end
