(* ===== verification/SMBIOS.thy ===== *)
theory SMBIOS
  imports SMBIOS_Tables
begin

text \<open>
  The reader of the SMBIOS tables (arch/x86/SMBIOS.cpp): the search for the entry point, the
  strings behind a structure, the walk over the structures and what is printed of them. All of
  it reads memory, which no step changes.
\<close>

unbundle bit_operations_syntax

section \<open>Fields in memory\<close>

text \<open>The fields that are read through the pointers to the entry point and to the header of a structure.\<close>

definition entry_length :: "mem \<Rightarrow> u32 \<Rightarrow> u8" where "entry_length m e = ep_length (read_SMBiosEntry m e)"
definition smbios_struct_len :: "mem \<Rightarrow> u32 \<Rightarrow> u16" where "smbios_struct_len m e = ep_struct_len (read_SMBiosEntry m e)"
definition smbios_struct_addr :: "mem \<Rightarrow> u32 \<Rightarrow> u32" where "smbios_struct_addr m e = ep_struct_addr (read_SMBiosEntry m e)"
definition smbios_struct_count :: "mem \<Rightarrow> u32 \<Rightarrow> u16" where "smbios_struct_count m e = ep_struct_count (read_SMBiosEntry m e)"

definition hdr_type :: "mem \<Rightarrow> u32 \<Rightarrow> u8" where "hdr_type m h = str_type (read_SMBiosStrHeader m h)"
definition hdr_length :: "mem \<Rightarrow> u32 \<Rightarrow> u8" where "hdr_length m h = str_length (read_SMBiosStrHeader m h)"

lemma table_fields:
  "entry_length m e = m (e + 5)" "smbios_struct_len m e = load16 m (e + 22)"
  "smbios_struct_addr m e = load32 m (e + 24)" "smbios_struct_count m e = load16 m (e + 28)"
  "hdr_type m h = m h" "hdr_length m h = m (h + 1)"
  by (simp_all add: entry_length_def smbios_struct_len_def smbios_struct_addr_def smbios_struct_count_def
      hdr_type_def hdr_length_def read_SMBiosEntry_def read_SMBiosStrHeader_def)

section \<open>The entry point\<close>

definition CheckIfChecksumValid :: "mem \<Rightarrow> u32 \<Rightarrow> bool" where
  "CheckIfChecksumValid m e =
     (let chksum_total = for_upto (\<lambda>i t. t + m (e + of_nat i)) (unat (entry_length m e)) 0
      in chksum_total = 0)"

text \<open>
  The comparisons with \<open>_SM_\<close> and \<open>_DMI_\<close> are \<open>memcmp\<close> with a string literal. The loop subtracts
  0xc0000000 from the address it found and adds it again.
\<close>

definition anchored :: "mem \<Rightarrow> u32 \<Rightarrow> bool" where
  "anchored m a \<longleftrightarrow> bytes_at m a 4 = [95, 83, 77, 95] \<and> bytes_at m (a + 0x10) 5 = [95, 68, 77, 73, 95]"

function detect_loop :: "mem \<Rightarrow> u32 \<Rightarrow> u32 option" where
  "detect_loop m smbios_addr =
     (if smbios_addr < 0xc0100000
      then if anchored m smbios_addr
           then if \<not> CheckIfChecksumValid m smbios_addr then detect_loop m (smbios_addr + 0x10)
                else let smbios_addr = smbios_addr - 0xc0000000 in Some (smbios_addr + 0xc0000000)
           else detect_loop m (smbios_addr + 0x10)
      else None)"
  by pat_completeness auto

termination
proof (relation "measure (\<lambda>(_, a). 0xc0100000 - unat a)")
  fix m :: mem and a :: u32
  assume "a < 0xc0100000"
  then have a: "unat a < 0xc0100000" by (simp add: word_less_nat_alt)
  then have "unat (a + 0x10) = unat a + 0x10" by (subst unat_add_small) simp_all
  then show "((m, a + 0x10), m, a) \<in> measure (\<lambda>(_, a). 0xc0100000 - unat a)"
    "((m, a + 0x10), m, a) \<in> measure (\<lambda>(_, a). 0xc0100000 - unat a)"
    using a by simp_all
qed simp

declare detect_loop.simps [simp del]

text \<open>The result of \<open>Detect\<close> and the member \<open>_smbios_entry_addr\<close> after it.\<close>

definition Detect :: "mem \<Rightarrow> u32 \<Rightarrow> bool \<times> u32" where
  "Detect m entry_addr =
     (case detect_loop m 0xc00f0000 of
        Some a \<Rightarrow> (True, a)
      | None \<Rightarrow> (False, entry_addr))"

section \<open>Strings\<close>

text \<open>
  The loop of \<open>GetSMBiosString\<close>, which compares the offset from the structure with the length of
  the whole table; \<open>None\<close> is \<open>NULL\<close>.
\<close>

function get_string :: "mem \<Rightarrow> u32 \<Rightarrow> u8 \<Rightarrow> u16 \<Rightarrow> u32 \<Rightarrow> u32 \<Rightarrow> u32 \<Rightarrow> u32 option" where
  "get_string m start hlen struct_len idx str_idx str_off =
     (if ucast hlen + str_off < ucast struct_len
      then if idx = str_idx then Some (start + str_off)
           else let str_off = str_off + 1;
                    ch = start + str_off
                in if m ch = 0
                   then if m (ch + 1) = 0 \<and> m (ch + 2) \<noteq> 0 then None
                        else get_string m start hlen struct_len idx (str_idx + 1) (str_off + 1)
                   else if sint (m ch) \<le> 31 \<or> sint (m ch) \<ge> 127 then None
                   else get_string m start hlen struct_len idx str_idx str_off
      else None)"
  by pat_completeness auto

termination
proof (relation "measure (\<lambda>(m, start, hlen, struct_len, idx, str_idx, str_off). unat struct_len - unat (ucast hlen + str_off :: u32))")
  fix m :: mem and start idx str_idx str_off :: u32 and hlen :: u8 and struct_len :: u16
  assume "ucast hlen + str_off < (ucast struct_len :: u32)"
  moreover have "unat (ucast struct_len :: u32) = unat struct_len" "unat struct_len < 65536"
    using unsigned_less [of struct_len, where 'a = nat] by (simp_all add: unat_ucast_mod)
  ultimately have x: "unat (ucast hlen + str_off :: u32) < unat struct_len" "unat struct_len < 65536"
    by (simp_all add: word_less_nat_alt)
  have one: "unat (ucast hlen + (str_off + 1) :: u32) = unat (ucast hlen + str_off :: u32) + 1"
    using x unat_add_small [of "ucast hlen + str_off" "1 :: u32"] by (simp add: add.assoc)
  have two: "unat (ucast hlen + (str_off + 1 + 1) :: u32) = unat (ucast hlen + str_off :: u32) + 2"
    using x unat_add_small [of "ucast hlen + str_off" "2 :: u32"] by (simp add: add.assoc)
  let ?R = "measure (\<lambda>(m :: mem, start :: u32, hlen :: u8, struct_len :: u16, idx :: u32, str_idx :: u32, str_off).
      unat struct_len - unat (ucast hlen + str_off :: u32))"
  show "((m, start, hlen, struct_len, idx, str_idx + 1, str_off' + 1), m, start, hlen, struct_len, idx, str_idx, str_off) \<in> ?R"
    if "str_off' = str_off + 1" for str_off'
    using x two that by simp
  show "((m, start, hlen, struct_len, idx, str_idx, str_off'), m, start, hlen, struct_len, idx, str_idx, str_off) \<in> ?R"
    if "str_off' = str_off + 1" for str_off'
    using x one that by simp
qed simp

declare get_string.simps [simp del]

definition GetSMBiosString :: "mem \<Rightarrow> u32 \<Rightarrow> u32 \<Rightarrow> u32 \<Rightarrow> u32 option" where
  "GetSMBiosString m entry_addr hdr idx =
     (let start = hdr + ucast (hdr_length m hdr)
      in if m start = 0 \<and> m (start + 1) = 0 then None
         else get_string m start (hdr_length m hdr) (smbios_struct_len m entry_addr) idx 1 0)"

section \<open>The structures\<close>

text \<open>
  What a structure prints: strings that may be missing, numbers, and names looked up in a table.
  A name outside its table is an access outside an array, and a missing string that is
  printed without a test is read at address 0.
\<close>

datatype smbios_value = Text "u32 option" | Number u32 | Name string

type_synonym smbios_line = "string \<times> smbios_value"

definition name_of :: "string list \<Rightarrow> u8 \<Rightarrow> smbios_value result" where
  "name_of table i =
     (if unat i < length table then Inr (Name (table ! unat i)) else Inl (Undefined ''SMBios: name table index''))"

definition printed :: "u32 option \<Rightarrow> smbios_value result" where
  "printed s = (case s of None \<Rightarrow> Inl (PageFault 0) | Some p \<Rightarrow> Inr (Text (Some p)))"

definition string_at :: "mem \<Rightarrow> u32 \<Rightarrow> u32 \<Rightarrow> u8 \<Rightarrow> u32 option" where
  "string_at m entry_addr hdr idx = GetSMBiosString m entry_addr hdr (ucast idx)"

definition ParseBiosInformation :: "mem \<Rightarrow> u32 \<Rightarrow> u32 \<Rightarrow> smbios_line list result" where
  "ParseBiosInformation m e hdr =
     (let binfo = read_SMBios_BiosInfo m hdr
      in Inr [(''BIOS vendor'', Text (string_at m e hdr (vendor_strptr binfo))),
              (''BIOS version'', Text (string_at m e hdr (version_strptr binfo))),
              (''BIOS release date'', Text (string_at m e hdr (releasedate_strptr binfo))),
              (''BIOS starting segment'', Number (ucast (starting_segment binfo))),
              (''BIOS ROM size'', Number (64 * (ucast (rom_size binfo) + 1)))])"

definition boardtype_str :: "string list" where
  "boardtype_str =
     ['''', ''Unknown'', ''Other'', ''Server Blade'', ''Connectivity Switch'', ''System Management Module'',
      ''Processor Module'', ''I/O Module'', ''Memory Module'', ''Daughterboard'', ''Motherboard'',
      ''Processor/Memory Module'', ''Processor/IO Module'', ''Interconnect board'']"

definition ParseBoardInformation :: "mem \<Rightarrow> u32 \<Rightarrow> u32 \<Rightarrow> smbios_line list result" where
  "ParseBoardInformation m e hdr =
     (let binfo = read_SMBios_Baseboard m hdr
      in and_then (name_of boardtype_str (board_type binfo)) (\<lambda>type_name.
         and_then (printed (string_at m e hdr (board_manufacturer_sp binfo))) (\<lambda>manufacturer.
         and_then (printed (string_at m e hdr (board_prodname_sp binfo))) (\<lambda>product.
         and_then (printed (string_at m e hdr (board_version_sp binfo))) (\<lambda>version.
           Inr [(''Board type'', type_name), (''Board type'', Number (ucast (board_type binfo))),
                (''Board Manufacturer'', manufacturer), (''Board Product'', product), (''Board Version'', version),
                (''Board Serial number'', Text (string_at m e hdr (board_serialnumber_sp binfo)))])))))"

definition wake_event_str :: "string list" where
  "wake_event_str =
     [''Reserved'', ''Other'', ''Unknown'', ''APM Timer'', ''Modem Ring'', ''LAN Remote'', ''Power Switch'',
      ''PCI PME#'', ''AC Power Restored'']"

text \<open>The SKU and model are looked up with the number of the serial string.\<close>

definition ParseSysInformation :: "mem \<Rightarrow> u32 \<Rightarrow> u32 \<Rightarrow> smbios_line list result" where
  "ParseSysInformation m e hdr =
     (let sinfo = read_SMBios_SysInfo m hdr; serial = string_at m e hdr (sys_serialnumber_sp sinfo)
      in and_then (name_of wake_event_str (wakeup_event sinfo)) (\<lambda>event.
           Inr [(''Manufacturer'', Text (string_at m e hdr (sys_manufacturer_sp sinfo))),
                (''Product'', Text (string_at m e hdr (sys_prodname_sp sinfo))),
                (''Version'', Text (string_at m e hdr (sys_version_sp sinfo))), (''Serial number'', Text serial),
                (''Wake up Type'', event), (''Wake up Type'', Number (ucast (wakeup_event sinfo))),
                (''SKU'', Text serial), (''Model'', Text serial)]))"

definition memory_kb :: "u16 \<Rightarrow> u32 \<Rightarrow> u32" where
  "memory_kb msize ext_size =
     (if msize = 0x7fff then ext_size * 1024
      else if msize AND 0x8000 \<noteq> 0 then ucast (msize AND 0x7fff)
      else ucast msize * 1024)"

definition ParseMemDevice :: "mem \<Rightarrow> u32 \<Rightarrow> u32 \<Rightarrow> smbios_line list result" where
  "ParseMemDevice m e hdr =
     (let minfo = read_SMBios_MemDevice m hdr;
          size_kb = memory_kb (mem_size minfo) (extended_size minfo)
      in Inr [(''Memory located at array handle'', Number (ucast (memarray_handle minfo))),
              (''Located at bank'', Text (string_at m e hdr (bank_location_sp minfo))),
              (''device'', Text (string_at m e hdr (device_location_sp minfo))),
              (''Size'', Number (size_kb div 1024)), (''MHz'', Number (ucast (memdev_speed_mhz minfo))),
              (''Manufacturer'', Text (string_at m e hdr (memdev_manufacturer_sp minfo))),
              (''Serial number'', Text (string_at m e hdr (memdev_serialnumber_sp minfo))),
              (''Asset Tag'', Text (string_at m e hdr (memdev_asset_tag_sp minfo))),
              (''Part number'', Text (string_at m e hdr (part_number_sp minfo)))])"

definition sproc_type :: "string list" where
  "sproc_type =
     ['''', ''Other'', ''Unknown'', ''Central Processor'', ''Math Processor'', ''DSP Processor'', ''Video Processor'']"

definition ParseSysProcessor :: "mem \<Rightarrow> u32 \<Rightarrow> u32 \<Rightarrow> smbios_line list result" where
  "ParseSysProcessor m e hdr =
     (let smproc = read_SMBios_Processor m hdr
      in and_then (printed (string_at m e hdr (socket_sp smproc))) (\<lambda>socket.
         and_then (name_of sproc_type (proc_type smproc)) (\<lambda>type_name.
           Inr [(''Processor Socket'', socket),
                (''Processor Type'', type_name), (''Processor Type'', Number (ucast (proc_type smproc))),
                (''Processor Family'', Number (ucast (proc_family smproc))),
                (''Processor ID'', Number (ucast (drop_bit 32 (proc_id smproc)))),
                (''Processor ID'', Number (ucast (proc_id smproc AND 0xffffffff))),
                (''Processor Manufacturer'', Text (string_at m e hdr (proc_manufacturer_sp smproc))),
                (''Processor Version'', Text (string_at m e hdr (proc_version_sp smproc))),
                (''Bus Clock'', Number (ucast (clock_mhz smproc))),
                (''Processor Max Clock'', Number (ucast (max_speed_mhz smproc))),
                (''Processor Current Clock'', Number (ucast (curr_speed_mhz smproc)))])))"

definition parse_structure :: "mem \<Rightarrow> u32 \<Rightarrow> u32 \<Rightarrow> smbios_line list result" where
  "parse_structure m e hdr =
     (let t = hdr_type m hdr
      in if t = 0 then ParseBiosInformation m e hdr
         else if t = 1 then ParseSysInformation m e hdr
         else if t = 2 then ParseBoardInformation m e hdr
         else if t = 4 then ParseSysProcessor m e hdr
         else if t = 17 then ParseMemDevice m e hdr
         else Inr [])"

section \<open>The walk\<close>

text \<open>The total length of the strings of a structure, with their NULs.\<close>

partial_function (option) strings_loop :: "mem \<Rightarrow> u32 \<Rightarrow> u32 \<Rightarrow> u32 \<Rightarrow> u32 \<Rightarrow> u32 option \<Rightarrow> u32 option" where
  "strings_loop m entry_addr hdr max_idx strlength smstr =
     (case smstr of
        None \<Rightarrow> Some strlength
      | Some p \<Rightarrow>
          Option.bind (strlen_from m p 0) (\<lambda>len.
            strings_loop m entry_addr hdr (max_idx + 1) (strlength + (len + 1))
              (GetSMBiosString m entry_addr hdr (max_idx + 1))))"

definition next_structure :: "mem \<Rightarrow> u32 \<Rightarrow> u32 \<Rightarrow> u32 result" where
  "next_structure m entry_addr hdr =
     and_then (returns (strings_loop m entry_addr hdr 1 0 (GetSMBiosString m entry_addr hdr 1))) (\<lambda>strlength.
       let strlength = (if 0 <s strlength then strlength + 1 else strlength + 2)
       in Inr (hdr + (ucast (hdr_length m hdr) + strlength)))"

fun walk :: "nat \<Rightarrow> mem \<Rightarrow> u32 \<Rightarrow> u32 \<Rightarrow> smbios_line list list result" where
  "walk 0 m entry_addr smbios_ptr = Inr []"
| "walk (Suc n) m entry_addr smbios_ptr =
     and_then (parse_structure m entry_addr smbios_ptr) (\<lambda>lines.
     and_then (next_structure m entry_addr smbios_ptr) (\<lambda>smbios_ptr.
     and_then (walk n m entry_addr smbios_ptr) (\<lambda>report. Inr (lines # report))))"

end
