(* ===== verification/SMBIOS_Init.thy ===== *)
theory SMBIOS_Init
  imports SMBIOS VMM
begin

text \<open>
  \<open>SMBios::Initialize\<close>: the table is mapped if it does not lie in the part of memory that is still
  mapped to itself, and walked. The reader sees memory through the page tables.
\<close>

unbundle bit_operations_syntax

text \<open>What is printed and \<open>_smbios_entry_addr\<close>, with the state of the memory manager.\<close>

definition SMBios_Initialize :: "VMM \<Rightarrow> u32 \<Rightarrow> (smbios_line list list \<times> u32 \<times> VMM) result" where
  "SMBios_Initialize s entry_addr =
     (let m = virtual_mem s;
          (found, entry_addr) = (if entry_addr = 0 then Detect m entry_addr else (True, entry_addr))
      in if \<not> found then Inr ([], entry_addr, s)
         else let smbios_ptr = smbios_struct_addr m entry_addr in
           and_then
             (if smbios_ptr > 0xf0000
              then MapPhysicalAddress s smbios_ptr (ucast (smbios_struct_len m entry_addr) div VMM_PAGE_SIZE + 2) 3 ZKernel
              else Inr (smbios_ptr, s)) (\<lambda>(smbios_ptr, s).
           and_then (walk (unat (smbios_struct_count (virtual_mem s) entry_addr)) (virtual_mem s) entry_addr smbios_ptr) (\<lambda>report.
             Inr (report, entry_addr, s))))"

end
