(* ===== verification/SMBIOS_Layout.thy ===== *)
theory SMBIOS_Layout
  imports SMBIOS_Tables Libk_Strings
begin

text \<open>
  The bytes of an SMBIOS entry point, for the memory in which an example of the reader's run finds one.
\<close>

unbundle bit_operations_syntax

section \<open>The bytes of the fields\<close>

definition bytes16 :: "u16 \<Rightarrow> u8 list" where
  "bytes16 w = [ucast w, ucast (drop_bit 8 w)]"

definition bytes32 :: "u32 \<Rightarrow> u8 list" where
  "bytes32 w = bytes16 (ucast w) @ bytes16 (ucast (drop_bit 16 w))"

lemma length_bytes [simp]: "length (bytes16 v) = 2" "length (bytes32 w) = 4"
  by (simp_all add: bytes16_def bytes32_def)

lemma load16_chars: "chars m p (bytes16 w) \<Longrightarrow> load16 m p = w"
  by (auto simp: bytes16_def load16_def bit_simps intro!: bit_word_eqI)

lemma load32_chars:
  assumes "chars m p (bytes32 w)"
  shows "load32 m p = w"
proof -
  have "load16 m p = ucast w" "load16 m (p + 2) = ucast (drop_bit 16 w)"
    using assms by (simp_all add: bytes32_def load16_chars)
  then show ?thesis by (auto simp: load32_def bit_simps intro!: bit_word_eqI)
qed

lemma bytes_at_Suc: "bytes_at m p (Suc n) = m p # bytes_at m (p + 1) n"
  by (simp add: bytes_at_def upt_conv_Cons map_Suc_upt [symmetric] add.assoc del: upt_Suc)

lemma bytes_at_chars: "chars m p cs \<Longrightarrow> bytes_at m p (length cs) = cs"
proof (induction cs arbitrary: p)
  case Nil
  then show ?case by (simp add: bytes_at_def)
qed (simp add: bytes_at_Suc)

lemma bytes_at_chars_length: "chars m p cs \<Longrightarrow> length cs = n \<Longrightarrow> bytes_at m p n = cs"
  using bytes_at_chars by blast

lemma chars_store_bytes: "length cs \<le> 2 ^ 32 \<Longrightarrow> chars (store_bytes p cs m) p cs"
proof -
  assume n: "length cs \<le> 2 ^ 32"
  have "store_bytes p cs m (p + of_nat k) = cs ! k" if "k < length cs" for k
  proof -
    have "k < 2 ^ 32" using that n by linarith
    then have "unat (of_nat k :: u32) = k" by (simp add: unat_of_nat_small)
    then show ?thesis using that n by (simp add: store_bytes_at in_region_def)
  qed
  moreover have "chars m' q ds" if "\<forall>k<length ds. m' (q + of_nat k) = ds ! k" for m' q and ds :: "u8 list"
    using that
  proof (induction ds arbitrary: q)
    case (Cons d ds)
    have "\<forall>k<length ds. m' (q + 1 + of_nat k) = ds ! k"
      using Cons.prems by (force simp: add.assoc)
    then show ?case using Cons.IH Cons.prems [rule_format, of 0] by simp
  qed simp
  ultimately show ?thesis by blast
qed

lemmas field_chars = load16_chars load32_chars bytes_at_chars_length

section \<open>The entry point\<close>

definition SMBiosEntry_bytes :: "SMBiosEntry \<Rightarrow> u8 list" where
  "SMBiosEntry_bytes e = anchor e @ [checksum e, ep_length e, major e, minor e] @ bytes16 (max_structure_size e) @
     [entry_point_revision e] @ entry_point_fmtd_area e @ interm_anchor e @ [interm_checksum e] @
     bytes16 (ep_struct_len e) @ bytes32 (ep_struct_addr e) @ bytes16 (ep_struct_count e) @ [smbios_bcd_revision e]"

lemma SMBiosEntry_size:
  "length (anchor e) = 4 \<Longrightarrow> length (entry_point_fmtd_area e) = 5 \<Longrightarrow> length (interm_anchor e) = 5 \<Longrightarrow>
   length (SMBiosEntry_bytes e) = 31"
  by (simp add: SMBiosEntry_bytes_def)

lemma read_SMBiosEntry:
  "chars m p (SMBiosEntry_bytes e) \<Longrightarrow> length (anchor e) = 4 \<Longrightarrow> length (entry_point_fmtd_area e) = 5 \<Longrightarrow>
   length (interm_anchor e) = 5 \<Longrightarrow> read_SMBiosEntry m p = e"
  by (simp add: SMBiosEntry_bytes_def read_SMBiosEntry_def field_chars add.assoc)

end
