(* ===== verification/VMM_Memory.thy ===== *)
theory VMM_Memory
  imports VMM_Properties
begin

text \<open>
  The memory behind the page tables: mapping a physical range changes the bytes the kernel sees
  at the new addresses, which are those of the range, and at no others but the tables' own.
\<close>

unbundle bit_operations_syntax

section \<open>Mapping given physical pages\<close>

text \<open>
  What \<open>MapPhysicalAddress\<close> needs: room in the virtual zone, a run of free physical pages
  inside one zone that does not start below its first free address, and directories for the run.
\<close>

definition can_map_address :: "VMM \<Rightarrow> u32 \<Rightarrow> u32 \<Rightarrow> VMMZone \<Rightarrow> bool" where
  "can_map_address s addr n vz \<longleftrightarrow> n \<noteq> 0 \<and>
     unat (last_vaddr (vzones s vz)) + 4096 * unat n \<le> unat (addr_end (vzones s vz)) \<and>
     nonempty_zones (vmm_pmm s) \<and> frames (unat addr) (unat n) \<inter> used_frames (vmm_pmm s) = {} \<and>
     (case FindZone (vmm_pmm s) addr of None \<Rightarrow> False
      | Some i \<Rightarrow> let z = zones (vmm_pmm s) ! i in
          first_free_addr z \<le> addr \<and> unat addr + 4096 * unat n \<le> zone_end z) \<and>
     can_map (s\<lparr>vmm_pmm := snd (MapPages (vmm_pmm s) addr n)\<rparr>)
       (page_number (last_vaddr (vzones s vz))) (unat n)"

lemma MapPages_frames:
  assumes wf: "vmm_wf s" and can: "can_map_address s addr n vz" and addr: "unat addr mod 4096 = 0"
  obtains pmm where "MapPages (vmm_pmm s) addr n = (addr, pmm)" "vmm_wf (s\<lparr>vmm_pmm := pmm\<rparr>)"
    "used_frames pmm = used_frames (vmm_pmm s) \<union> frames (unat addr) (unat n)"
proof -
  let ?s = "vmm_pmm s"
  note w = vmm_wfD [OF wf]
  obtain i where i: "FindZone ?s addr = Some i" "first_free_addr (zones ?s ! i) \<le> addr"
    "unat addr + 4096 * unat n \<le> zone_end (zones ?s ! i)"
    using can by (auto simp: can_map_address_def Let_def split: option.splits)
  let ?z = "zones ?s ! i"
  let ?p = "page_of ?z addr"
  have z: "i < length (zones ?s)" "covers ?z addr"
    using FindZone_Some_iff [OF w(1)] i(1) can by (simp_all add: can_map_address_def)
  have al: "unat (start ?z) mod 4096 = 0" using w(2) z(1) by (simp add: aligned_zones_def)
  have le: "unat (start ?z) \<le> unat addr" using z(2) by (simp add: covers_def)
  have "(unat addr - unat (start ?z)) mod 4096 = 0"
    using al addr le by (metis mod_eq_dvd_iff_nat mod_eq_0_iff_dvd)
  then have p: "unat (start ?z) + 4096 * unat ?p = unat addr"
    using mult_div_mod_eq [of 4096 "unat addr - unat (start ?z)"] le
    unfolding unat_page_of [OF z(2)] by linarith
  then have run: "unat ?p + unat n \<le> unat (pagecount ?z)"
    using i(3) by (simp add: zone_end_def)
  have free: "CheckIfPagesFree (bitmap_mem ?s) (alloc_bitmap ?z) ?p n"
    using can free_run_iff [OF w(1) z(1) run] by (simp add: p can_map_address_def)
  define pmm where "pmm = run_update MapPagesInBitmap ?s i ?p n
    (if addr = first_free_addr ?z then first_free_addr ?z + n * PHYS_PAGE_SIZE else first_free_addr ?z)"
  have "MapPages ?s addr n = (addr, pmm)"
    using MapPages_char [OF i(1), of n] i(2) free by (simp add: pmm_def)
  moreover have used: "used_frames pmm = used_frames ?s \<union> frames (unat addr) (unat n)"
    using used_frames_mark [OF w(1) z(1) run] by (simp add: pmm_def p)
  moreover have "aligned_zones pmm"
    using w(2) by (simp add: pmm_def aligned_zones_def all_set_conv_all_nth)
  moreover have "pmm_wf pmm" using pmm_wf_run_update [OF w(1)] by (simp add: pmm_def)
  ultimately show ?thesis using that vmm_wf_more_used [OF wf, of pmm] by simp
qed

text \<open>
  \<open>MapPhysicalAddress\<close> marks the pages as used and maps them at the next address of the zone; the
  address it returns translates to the address it was given, offset in the page included. Only
  page tables are written, and none that is added lies in a page that was in use or is mapped.
\<close>

lemma MapPhysicalAddress_run:
  assumes wf: "vmm_wf s" and can: "can_map_address s (frame phys) n z" and flags: "bit flags 0"
  defines "v \<equiv> last_vaddr (vzones s z)"
  obtains t where "MapPhysicalAddress s phys n flags z = Inr (v + (phys AND 0xfff), t)" "vmm_wf t"
    "vzones t = (vzones s)(z := (vzones s z)\<lparr>last_vaddr := v + 4096 * n\<rparr>)"
    "used_frames (vmm_pmm s) \<union> frames (unat (frame phys)) (unat n) \<subseteq> used_frames (vmm_pmm t)"
    "\<forall>w. page_number w < 1047552 \<longrightarrow> translate t w =
      (if page_number v \<le> page_number w \<and> page_number w < page_number v + unat n
       then Some (frame phys + 4096 * of_nat (page_number w - page_number v) + (w AND 0xfff))
       else translate s w)"
    "tables s \<subseteq> tables t" "\<forall>a. frame a \<notin> tables t \<longrightarrow> pmem t a = pmem s a"
    "\<forall>f\<in>tables t - tables s. unat f \<notin> used_frames (vmm_pmm s) \<union> frames (unat (frame phys)) (unat n)"
proof -
  have al: "unat (frame phys) mod 4096 = 0" by (simp add: unat_frame)
  obtain pmm where m: "MapPages (vmm_pmm s) (frame phys) n = (frame phys, pmm)"
    "vmm_wf (s\<lparr>vmm_pmm := pmm\<rparr>)"
    "used_frames pmm = used_frames (vmm_pmm s) \<union> frames (unat (frame phys)) (unat n)"
    using MapPages_frames [OF wf can al] .
  let ?s = "s\<lparr>vmm_pmm := pmm\<rparr>"
  have map: "can_map ?s (page_number v) (unat n)"
    using can m(1) by (simp add: can_map_address_def v_def)
  from MapPhysicalToVirtual_run [OF m(2) map al flags] obtain t where t:
    "MapPhysicalToVirtual ?s (frame phys) n v flags = Inr (n, t)" "vmm_wf t" "vzones t = vzones ?s"
    "used_frames (vmm_pmm ?s) \<subseteq> used_frames (vmm_pmm t)"
    "\<forall>w. page_number w < 1047552 \<longrightarrow> translate t w =
      (if page_number v \<le> page_number w \<and> page_number w < page_number v + unat n
       then Some (frame phys + 4096 * of_nat (page_number w - page_number v) + (w AND 0xfff))
       else translate ?s w)"
    "writes_tables ?s t" .
  let ?t = "t\<lparr>vzones := (vzones s)(z := (vzones s z)\<lparr>last_vaddr := v + 4096 * n\<rparr>)\<rparr>"
  have fits: "\<not> v + 4096 * n - 1 \<ge> addr_end (vzones s z)"
    using can zone_room [where v = v and n = n and e = "addr_end (vzones s z)"]
    by (simp add: can_map_address_def v_def not_le)
  have "frame phys \<noteq> 0xffffffff" using al by auto
  moreover have fr: "phys AND NOT 0xfff = frame phys" by (simp only: frame_def and_not_0xfff)
  ultimately have res: "MapPhysicalAddress s phys n flags z = Inr (v + (phys AND 0xfff), ?t)"
    using fits m(1) t(1,3) unfolding MapPhysicalAddress_def Let_def fr v_def [symmetric] by simp
  have "vmm_wf ?t" using t(2) by (rule vmm_wf_vzones)
  moreover have "tables ?s = tables s" "tables ?t = tables t" by (simp_all add: tables_def pde_def)
  ultimately show ?thesis
    using t(4-6) m(3) by (intro that [OF res]) (simp_all add: writes_tables_def)
qed

lemma sample_can_map_address: "can_map_address sample_vmm 0x103000 2 ZKernel"
proof -
  have d: "p div 1024 = 769" if "787456 \<le> p" "p \<le> 787458" for p :: nat using that by auto
  have "frames 0x103000 2 \<inter> used_frames table_pmm = {}"
    by (auto simp: used_frames_def frames_def zone_used_def page_used_def table_pmm_def)
  moreover have "FindZone table_pmm 0x103000 = Some 0"
    by (simp add: FindZone_def table_pmm_def Let_def)
  ultimately show ?thesis
    by (auto simp: can_map_address_def can_map_def page_number_def sample_pde present_def zone_end_def
        nonempty_zones_def table_pmm_def d)
qed

section \<open>Bytes\<close>

lemma frame_word: "frame (a AND NOT 3) = frame a"
proof -
  have "NOT 3 AND 0xfffff000 = (0xfffff000 :: u32)" by simp
  then show ?thesis by (simp only: frame_def and.assoc)
qed

lemma phys_byte_cong:
  "(\<And>b. frame b = frame a \<Longrightarrow> pm b = pm' b) \<Longrightarrow> phys_byte pm a = phys_byte pm' a"
  unfolding phys_byte_def by (metis frame_word)

text \<open>A word memory with given bytes.\<close>

lemma phys_byte_load32: "phys_byte (load32 m) a = m a"
proof -
  have "unat (a AND 3) = unat a mod 4"
    using unat_and_mask [of a 2] by (simp add: mask_eq_exp_minus_1)
  then have "unat (a AND 3) < 4" by simp
  then have "unat (a AND 3) \<in> {0, 1, 2, 3}" by auto
  then have "a AND 3 \<in> {0, 1, 2, 3}" by (auto simp: word_unat_eq_iff)
  moreover have "a = (a AND NOT 3) + (a AND 3)" by (simp add: disjunctive_add bit_simps) (auto intro: bit_word_eqI simp: bit_simps)
  moreover have "phys_byte (load32 m) a = ucast (drop_bit (8 * unat r) (load32 m b))" if "r = a AND 3" "b = a AND NOT 3" for r b
    using that by (simp add: phys_byte_def)
  moreover have "\<not> bit x (8 + n)" for x :: u8 and n using bit_imp_le_length [of x "8 + n"] by auto
  then have "ucast (load32 m b) = m b" "ucast (drop_bit 8 (load32 m b)) = m (b + 1)"
    "ucast (drop_bit 16 (load32 m b)) = m (b + 2)" "ucast (drop_bit 24 (load32 m b)) = m (b + 3)" for b
    by (auto simp: load32_def load16_def bit_simps add.assoc intro!: bit_word_eqI)
  ultimately show ?thesis by auto
qed

lemma unat_frame_split: "unat x = 4096 * m + r \<Longrightarrow> r < 4096 \<Longrightarrow> unat (frame x) = 4096 * m"
  by (simp add: unat_frame)

lemma page_bound: "m < 1048576 \<Longrightarrow> r < 4096 \<Longrightarrow> 4096 * m + r < (2 :: nat) ^ 32"
  by simp

text \<open>An address of the run, by its page and its offset.\<close>

lemma run_address:
  fixes v phys :: u32
  assumes v: "unat v mod 4096 = 0" "unat v + 4096 * n < 2 ^ 32"
    and k: "unat (phys AND 0xfff) + k < 4096 * n" and phys: "unat (frame phys) + 4096 * n \<le> 2 ^ 32"
  defines "w \<equiv> v + (phys AND 0xfff) + of_nat k" and "j \<equiv> (unat (phys AND 0xfff) + k) div 4096"
  shows "page_number w = page_number v + j" "j < n"
    "frame phys + 4096 * of_nat j + (w AND 0xfff) = phys + of_nat k"
    "unat (frame (phys + of_nat k)) = unat (frame phys) + 4096 * j"
proof -
  let ?o = "unat phys mod 4096 + k" and ?F = "unat (frame phys)"
  have o: "?o < 4096 * n" using k by (simp add: unat_and_0xfff)
  have j_def: "j = ?o div 4096" by (simp add: j_def unat_and_0xfff)
  have split: "?o = 4096 * j + ?o mod 4096" "?o mod 4096 < 4096" by (simp_all add: j_def)
  obtain b where b: "unat v = 4096 * b" using v(1) by (auto elim: dvdE simp: mod_eq_0_iff_dvd)
  obtain c where c: "?F = 4096 * c" using frame_aligned [of phys] by (auto elim: dvdE simp: mod_eq_0_iff_dvd)
  show "j < n" using o unfolding j_def by (simp add: less_mult_imp_div_less mult.commute)
  have "unat w = (unat v + ?o) mod 2 ^ 32"
    unfolding w_def by (simp add: unat_word_ariths unat_of_nat unat_and_0xfff mod_simps add.assoc)
  then have w: "unat w = 4096 * (b + j) + ?o mod 4096" using v(2) o b split(1) by simp
  then show "page_number w = page_number v + j" using b split(2) by (simp add: page_number_def)
  have "unat phys = ?F + unat phys mod 4096" by (simp add: unat_frame)
  then have "unat phys + k = ?F + ?o" by linarith
  moreover have "unat (phys + of_nat k) = (unat phys + k) mod 2 ^ 32"
    by (simp add: unat_word_ariths unat_of_nat mod_simps)
  ultimately have "unat (phys + of_nat k) = (?F + ?o) mod 2 ^ 32" by (simp only:)
  then have p: "unat (phys + of_nat k) = 4096 * (c + j) + ?o mod 4096" using phys o c split(1) by simp
  then show "unat (frame (phys + of_nat k)) = ?F + 4096 * j" using unat_frame_split [OF p split(2)] c by simp
  have "unat (w AND 0xfff) = ?o mod 4096"
    by (simp only: unat_and_0xfff w mod_mult_self4 mod_mod_trivial)
  moreover have "4096 * (c + j) + ?o mod 4096 < 2 ^ 32"
    by (rule page_bound [OF _ split(2)]) (use phys c \<open>j < n\<close> in simp)
  ultimately have "unat (frame phys + 4096 * of_nat j + (w AND 0xfff)) = 4096 * (c + j) + ?o mod 4096"
    using c by (simp add: unat_word_ariths unat_of_nat mod_simps del: mod_add_left_eq)
  then show "frame phys + 4096 * of_nat j + (w AND 0xfff) = phys + of_nat k" using p by (intro unat_inj) simp
qed

lemma tables_used: "vmm_wf s \<Longrightarrow> f \<in> tables s \<Longrightarrow> unat f \<in> used_frames (vmm_pmm s)"
  by (auto simp: tables_def vmm_wfD)

text \<open>The addresses in the pages of a virtual run.\<close>

definition in_run :: "u32 \<Rightarrow> u32 \<Rightarrow> u32 \<Rightarrow> bool" where
  "in_run w v n \<longleftrightarrow> page_number v \<le> page_number w \<and> page_number w < page_number v + unat n"

lemma can_map_address_bounds:
  assumes wf: "vmm_wf s" and can: "can_map_address s addr n z" and v: "unat (last_vaddr (vzones s z)) mod 4096 = 0"
  shows "unat (last_vaddr (vzones s z)) + 4096 * unat n < 2 ^ 32"
    "page_number (last_vaddr (vzones s z)) + unat n \<le> 1047552"
    "unat addr + 4096 * unat n \<le> 2 ^ 32" "frames (unat addr) (unat n) \<inter> used_frames (vmm_pmm s) = {}"
proof -
  obtain b where b: "unat (last_vaddr (vzones s z)) = 4096 * b" using v by (auto elim: dvdE simp: mod_eq_0_iff_dvd)
  show page: "page_number (last_vaddr (vzones s z)) + unat n \<le> 1047552" "frames (unat addr) (unat n) \<inter> used_frames (vmm_pmm s) = {}"
    using can by (simp_all add: can_map_address_def can_map_def)
  then show "unat (last_vaddr (vzones s z)) + 4096 * unat n < 2 ^ 32" by (simp add: page_number_def b)
  obtain i where i: "FindZone (vmm_pmm s) addr = Some i" "unat addr + 4096 * unat n \<le> zone_end (zones (vmm_pmm s) ! i)"
    using can by (auto simp: can_map_address_def Let_def split: option.splits)
  then have "i < length (zones (vmm_pmm s))"
    using FindZone_Some_iff [OF vmm_wfD(1) [OF wf]] can by (simp add: can_map_address_def)
  then show "unat addr + 4096 * unat n \<le> 2 ^ 32" using zone_end_le [OF vmm_wfD(1) [OF wf]] i(2) order_trans by blast
qed

lemma MapPhysicalAddress_run_shows:
  assumes wf: "vmm_wf s" and can: "can_map_address s (frame phys) n z" and flags: "bit flags 0"
    and v: "unat (last_vaddr (vzones s z)) mod 4096 = 0"
  shows "\<exists>p t. MapPhysicalAddress s phys n flags z = Inr (p, t) \<and> vmm_wf t \<and>
    (\<forall>k. unat (phys AND 0xfff) + k < 4096 * unat n \<longrightarrow> virtual_mem t (p + of_nat k) = phys_byte (pmem s) (phys + of_nat k)) \<and>
    (\<forall>w a. page_number w < 1047552 \<and> \<not> in_run w (last_vaddr (vzones s z)) n \<and> translate s w = Some a \<and> frame a \<notin> tables t \<longrightarrow>
       virtual_mem t w = virtual_mem s w)"
proof -
  define b where "b = last_vaddr (vzones s z)"
  obtain t where t: "MapPhysicalAddress s phys n flags z = Inr (b + (phys AND 0xfff), t)" "vmm_wf t"
    "\<forall>w. page_number w < 1047552 \<longrightarrow> translate t w =
      (if page_number b \<le> page_number w \<and> page_number w < page_number b + unat n
       then Some (frame phys + 4096 * of_nat (page_number w - page_number b) + (w AND 0xfff))
       else translate s w)"
    "\<forall>a. frame a \<notin> tables t \<longrightarrow> pmem t a = pmem s a"
    "\<forall>f\<in>tables t - tables s. unat f \<notin> used_frames (vmm_pmm s) \<union> frames (unat (frame phys)) (unat n)"
    using MapPhysicalAddress_run [OF wf can flags] unfolding b_def by metis
  have same: "phys_byte (pmem t) a = phys_byte (pmem s) a" if "frame a \<notin> tables t" for a
    by (rule phys_byte_cong) (use that t(4) in simp)
  note room = can_map_address_bounds [OF wf can v, folded b_def]
  have "virtual_mem t (b + (phys AND 0xfff) + of_nat k) = phys_byte (pmem s) (phys + of_nat k)"
    if k: "unat (phys AND 0xfff) + k < 4096 * unat n" for k
  proof -
    note r = run_address [OF v [folded b_def] room(1) k room(3)]
    have "unat (frame (phys + of_nat k)) \<in> frames (unat (frame phys)) (unat n)"
      using r(2,4) by (auto simp: frames_iff)
    then have "frame (phys + of_nat k) \<notin> tables t" using t(5) tables_used [OF wf] room(4) by blast
    then show ?thesis using t(3) r room(2) same by (simp add: virtual_mem_def)
  qed
  moreover have "virtual_mem t w = virtual_mem s w"
    if "page_number w < 1047552" "\<not> in_run w b n" "translate s w = Some a" "frame a \<notin> tables t" for w a
  proof -
    have "translate t w = Some a" using that t(3) unfolding in_run_def by metis
    then show ?thesis using that same by (simp add: virtual_mem_def)
  qed
  ultimately show ?thesis using t(1,2) unfolding b_def by blast
qed

text \<open>
  C11. \<open>MapPhysicalAddress\<close> makes a physical range visible: the kernel reads at the address it gets
  exactly the bytes of the range, to the end of the last page. Everywhere else it reads what it read
  before, except in the page tables themselves.
\<close>

theorem MapPhysicalAddress_shows:
  assumes wf: "vmm_wf s" and can: "can_map_address s (frame phys) n z" and flags: "bit flags 0"
    and v: "unat (last_vaddr (vzones s z)) mod 4096 = 0"
  shows "\<exists>p t. MapPhysicalAddress s phys n flags z = Inr (p, t) \<and> vmm_wf t \<and>
    (\<forall>k. unat (phys AND 0xfff) + k < 4096 * unat n \<longrightarrow> virtual_mem t (p + of_nat k) = phys_byte (pmem s) (phys + of_nat k)) \<and>
    (\<forall>w a. page_number w < 1047552 \<and> \<not> in_run w (last_vaddr (vzones s z)) n \<and> translate s w = Some a \<and> frame a \<notin> tables t \<longrightarrow>
       virtual_mem t w = virtual_mem s w)"
  using MapPhysicalAddress_run_shows [OF assms] .

text \<open>States with the tables of the sample and other memory.\<close>

definition sample_tables :: "VMM \<Rightarrow> bool" where
  "sample_tables s \<longleftrightarrow> vmm_pmm s = table_pmm \<and> vzones s = initial_vzones \<and> cr3 s = cr3 sample_vmm \<and>
     (\<forall>a. frame a = 0x110000 \<longrightarrow> pmem s a = pmem sample_vmm a)"

lemma sample_tables_pde:
  assumes "sample_tables s" "d < 1024"
  shows "pde s d = pde sample_vmm d"
proof -
  have "frame (0x110000 + 4 * of_nat d) = 0x110000"
    using frame_slot [OF assms(2), of "0x110000"] by (simp add: frame_def)
  then show ?thesis using assms(1) by (simp add: sample_tables_def pde_def) (simp add: sample_vmm_def frame_def)
qed

lemma sample_tables_wf: "sample_tables s \<Longrightarrow> vmm_wf s"
  using sample_vmm_wf by (simp add: vmm_wf_def sample_tables_pde) (simp add: sample_tables_def)

lemma sample_tables_can:
  assumes "sample_tables s"
  shows "can_map_address s (frame 0x103456) 2 ZKernel"
proof -
  note fields = assms [unfolded sample_tables_def]
  have "can_map (s\<lparr>vmm_pmm := x\<rparr>) 787456 2 \<longleftrightarrow> can_map (sample_vmm\<lparr>vmm_pmm := x\<rparr>) 787456 2" for x
  proof -
    have "p div 1024 < 1024" if "p \<le> 787458" for p :: nat using that by auto
    then have "pde s (p div 1024) = pde sample_vmm (p div 1024)" if "p \<le> 787458" for p
      using that sample_tables_pde [OF assms] by simp
    then show ?thesis using sample_tables_pde [OF assms, of 769] by (auto simp: can_map_def)
  qed
  moreover have "frame 0x103456 = 0x103000" by (simp add: frame_def)
  ultimately show ?thesis
    using sample_can_map_address fields by (simp add: can_map_address_def page_number_def split: option.splits)
qed

definition data_vmm :: VMM where
  "data_vmm = sample_vmm\<lparr>pmem := (pmem sample_vmm)(0x103454 := 0x12345678)\<rparr>"

lemma data_vmm: "sample_tables data_vmm"
  by (auto simp: sample_tables_def data_vmm_def frame_def)

theorem MapPhysicalAddress_shows_witness:
  "\<exists>p t. MapPhysicalAddress data_vmm 0x103456 2 3 ZKernel = Inr (p, t) \<and> virtual_mem t p = 0x34 \<and> virtual_mem t (p + 1) = 0x12"
proof -
  have "phys_byte (pmem data_vmm) 0x103456 = 0x34" "phys_byte (pmem data_vmm) 0x103457 = 0x12"
    by (simp_all add: phys_byte_def data_vmm_def)
  moreover obtain p t where t: "MapPhysicalAddress data_vmm 0x103456 2 3 ZKernel = Inr (p, t)"
    "\<forall>k. 0x456 + k < 8192 \<longrightarrow> virtual_mem t (p + of_nat k) = phys_byte (pmem data_vmm) (0x103456 + of_nat k)"
    using MapPhysicalAddress_shows [OF sample_tables_wf [OF data_vmm] sample_tables_can [OF data_vmm], of 3] data_vmm
    by (auto simp: bit_simps sample_tables_def)
  ultimately show ?thesis using t(2) [rule_format, of 0] t(2) [rule_format, of 1] by auto
qed

end
