(* ===== verification/SMBIOS_Memory.thy ===== *)
theory SMBIOS_Memory
  imports SMBIOS_Init SMBIOS_Layout VMM_Memory
begin

text \<open>
  The SMBIOS reader and the memory manager: the table the reader walks over is the one in
  physical memory.
\<close>

unbundle bit_operations_syntax

text \<open>The pages mapped hold the table, wherever in its first page it begins.\<close>

lemma table_pages:
  fixes len :: u16
  shows "unat (ucast len div 4096 + 2 :: u32) = unat len div 4096 + 2"
    "unat (a AND 0xfff :: u32) + unat len \<le> 4096 * unat (ucast len div 4096 + 2 :: u32)"
proof -
  have len: "unat len < 65536" using unsigned_less [of len, where 'a = nat] by simp
  have "unat (ucast len div 4096 :: u32) = unat len div 4096" using len by (simp add: unat_div_distrib unat_ucast_mod)
  then show pages: "unat (ucast len div 4096 + 2 :: u32) = unat len div 4096 + 2"
    using len by (subst unat_add_small) simp_all
  define q where "q = unat len div 4096"
  have "unat len < 4096 + 4096 * q" using dividend_less_times_div [of 4096 "unat len"] by (simp add: q_def)
  moreover have "unat (a AND 0xfff) < 4096" by (simp add: unat_and_0xfff)
  ultimately show "unat (a AND 0xfff) + unat len \<le> 4096 * unat (ucast len div 4096 + 2 :: u32)"
    unfolding pages q_def [symmetric] by simp
qed

text \<open>
  The bytes of the entry point are mapped, not in the pages that are mapped next, and in no frame that
  holds a page table, then or after the mapping.
\<close>

definition entry_apart :: "VMM \<Rightarrow> u32 \<Rightarrow> u32 \<Rightarrow> VMM \<Rightarrow> bool" where
  "entry_apart s e n t \<longleftrightarrow>
     (\<forall>i<31. let w = e + of_nat i in page_number w < 1047552 \<and> \<not> in_run w (last_vaddr (vzones s ZKernel)) n \<and>
        (case translate s w of None \<Rightarrow> False | Some a \<Rightarrow> frame a \<notin> tables t))"

lemma read_SMBiosEntry_cong:
  assumes "\<And>i. i < 31 \<Longrightarrow> m (e + of_nat i) = m' (e' + of_nat i)"
  shows "read_SMBiosEntry m e = read_SMBiosEntry m' e'"
proof -
  have "m e = m' e'" "\<forall>i\<in>set [1..<31]. m (e + of_nat i) = m' (e' + of_nat i)" using assms [of 0] assms by auto
  then show ?thesis
    by (simp add: read_SMBiosEntry_def bytes_at_def load32_def load16_def add.assoc upt_rec)
qed

text \<open>
  C36. For an entry point that is apart from the page tables, \<open>Initialize\<close> walks over the table in
  physical memory: it maps the pages of the table, sees every byte of the table at the address it
  walks from, still reads the same entry point, and leaves the memory manager in order. The page
  added for a table near the end of a page is what this needs.
\<close>

theorem SMBios_Initialize_maps_table:
  fixes s :: VMM and e :: u32
  defines "sm_entry \<equiv> read_SMBiosEntry (virtual_mem s) e"
  defines "phys \<equiv> ep_struct_addr sm_entry" and "n \<equiv> ucast (ep_struct_len sm_entry) div 4096 + 2"
  assumes wf: "vmm_wf s" and e: "e \<noteq> 0" and addr: "phys > 0xf0000"
    and can: "can_map_address s (frame phys) n ZKernel" and v: "unat (last_vaddr (vzones s ZKernel)) mod 4096 = 0"
    and apart: "\<And>p t. MapPhysicalAddress s phys n 3 ZKernel = Inr (p, t) \<Longrightarrow> entry_apart s e n t"
  shows "\<exists>p t. SMBios_Initialize s e =
      and_then (walk (unat (ep_struct_count sm_entry)) (virtual_mem t) e p) (\<lambda>report. Inr (report, e, t)) \<and>
    (\<forall>k<unat (ep_struct_len sm_entry). virtual_mem t (p + of_nat k) = phys_byte (pmem s) (phys + of_nat k)) \<and>
    read_SMBiosEntry (virtual_mem t) e = sm_entry \<and> vmm_wf t"
proof -
  have flags: "bit (3 :: u8) 0" by simp
  obtain p t where t: "MapPhysicalAddress s phys n 3 ZKernel = Inr (p, t)" "vmm_wf t"
    "\<forall>k. unat (phys AND 0xfff) + k < 4096 * unat n \<longrightarrow> virtual_mem t (p + of_nat k) = phys_byte (pmem s) (phys + of_nat k)"
    "\<forall>w a. page_number w < 1047552 \<and> \<not> in_run w (last_vaddr (vzones s ZKernel)) n \<and>
       translate s w = Some a \<and> frame a \<notin> tables t \<longrightarrow> virtual_mem t w = virtual_mem s w"
    using MapPhysicalAddress_run_shows [OF wf can flags v] by blast
  have "virtual_mem t (e + of_nat i) = virtual_mem s (e + of_nat i)" if "i < 31" for i
    using t(4) apart [OF t(1)] that unfolding entry_apart_def Let_def by (force split: option.splits)
  then have sm_entry: "read_SMBiosEntry (virtual_mem t) e = sm_entry"
    unfolding sm_entry_def by (rule read_SMBiosEntry_cong)
  have "virtual_mem t (p + of_nat k) = phys_byte (pmem s) (phys + of_nat k)" if "k < unat (ep_struct_len sm_entry)" for k
    using t(3) that table_pages(2) [of phys "ep_struct_len sm_entry"] unfolding n_def by (meson add_strict_left_mono less_le_trans)
  moreover have "SMBios_Initialize s e =
      and_then (walk (unat (ep_struct_count sm_entry)) (virtual_mem t) e p) (\<lambda>report. Inr (report, e, t))"
    using e addr t(1) sm_entry
    by (simp add: SMBios_Initialize_def smbios_struct_addr_def smbios_struct_len_def smbios_struct_count_def Let_def
        sm_entry_def [symmetric] phys_def [symmetric] n_def [symmetric])
  ultimately show ?thesis using sm_entry t(2) by blast
qed

text \<open>
  An entry point at 0x103400, mapped at 0xC0405400, and a table at 0x103456 with one structure, the
  one that ends a table.
\<close>

definition table_entry :: SMBiosEntry where
  "table_entry = \<lparr>anchor = [0x5f, 0x53, 0x4d, 0x5f], checksum = 0, ep_length = 31, major = 2, minor = 8, max_structure_size = 6,
     entry_point_revision = 0, entry_point_fmtd_area = [0, 0, 0, 0, 0], interm_anchor = [0x5f, 0x44, 0x4d, 0x49, 0x5f],
     interm_checksum = 0, ep_struct_len = 6, ep_struct_addr = 0x103456, ep_struct_count = 1, smbios_bcd_revision = 0x28\<rparr>"

definition bios_image :: mem where
  "bios_image = store_bytes 0x103456 [127, 4, 0, 0, 0, 0] (store_bytes 0x103400 (SMBiosEntry_bytes table_entry) (\<lambda>_. 0))"

definition bios_vmm :: VMM where
  "bios_vmm = sample_vmm\<lparr>pmem := (\<lambda>a. if frame a = 0x103000 then load32 bios_image a
     else if a = 0x111014 then 0x103003 else pmem sample_vmm a)\<rparr>"

lemma bios_image:
  "read_SMBiosEntry bios_image 0x103400 = table_entry"
  "\<forall>i<6. bios_image (0x103456 + of_nat i) = [127, 4, 0, 0, 0, 0] ! i"
proof -
  let ?m = "store_bytes 0x103400 (SMBiosEntry_bytes table_entry) (\<lambda>_. 0)"
  have lengths: "length (anchor table_entry) = 4" "length (entry_point_fmtd_area table_entry) = 5" "length (interm_anchor table_entry) = 5"
    by (simp_all add: table_entry_def)
  have "read_SMBiosEntry ?m 0x103400 = table_entry"
    by (intro read_SMBiosEntry chars_store_bytes) (simp_all add: lengths SMBiosEntry_size)
  moreover have "bios_image (0x103400 + of_nat i) = ?m (0x103400 + of_nat i)" if "i < 31" for i
  proof -
    have "unat (of_nat i :: u32) = i" using that by (intro unat_of_nat_small) simp
    then have "unat (0x103400 + of_nat i - 0x103456 :: u32) \<ge> 6" using that by (simp add: unat_sub_if_size word_size)
    then show ?thesis unfolding bios_image_def by (subst store_bytes_at) (simp_all add: in_region_def)
  qed
  ultimately show "read_SMBiosEntry bios_image 0x103400 = table_entry"
    using read_SMBiosEntry_cong [of bios_image "0x103400" ?m "0x103400"] by simp
  show "\<forall>i<6. bios_image (0x103456 + of_nat i) = [127, 4, 0, 0, 0, 0] ! i"
  proof (intro allI impI)
    fix i :: nat assume "i < 6"
    then have "i \<in> {0, 1, 2, 3, 4, 5}" by auto
    then show "bios_image (0x103456 + of_nat i) = [127, 4, 0, 0, 0, 0] ! i" by (auto simp: bios_image_def)
  qed
qed

lemma bios_vmm: "sample_tables bios_vmm"
  by (auto simp: sample_tables_def bios_vmm_def frame_def)

lemma bios_bytes:
  assumes "unat (phys AND 0xfff) + k < 4096" "frame phys = 0x103000"
  defines "w \<equiv> 0xC0405000 + (phys AND 0xfff) + of_nat k"
  shows "page_number w = 0xC0405" "translate bios_vmm w = Some (phys + of_nat k)" "frame (phys + of_nat k) = 0x103000"
    "phys_byte (pmem bios_vmm) (phys + of_nat k) = bios_image (phys + of_nat k)"
proof -
  have frame: "unat (frame phys) = 0x103000" using assms(2) by simp
  have "unat (0xC0405000 :: u32) mod 4096 = 0" by simp
  note r = run_address [OF this _ _ , where n = 1 and phys = phys and k = k, folded w_def]
  have j: "(unat (phys AND 0xfff) + k) div 4096 = 0" using assms(1) by simp
  have page: "page_number w = 0xC0405" using r(1) j assms(1) frame by (simp add: page_number_def)
  then show "page_number w = 0xC0405" .
  have addr: "0x103000 + (w AND 0xfff) = phys + of_nat k" using r(3) j assms frame by simp
  have fr: "unat (frame (phys + of_nat k)) = 0x103000" using r(4) j assms(1) frame by simp
  then show fr: "frame (phys + of_nat k) = 0x103000" by (intro unat_inj) simp
  have "entry bios_vmm 0xC0405 = Some 0x103003"
    using sample_tables_pde [OF bios_vmm, of 769] by (simp add: entry_def pte_def sample_pde frame_def present_def) (simp add: bios_vmm_def frame_def)
  then show "translate bios_vmm w = Some (phys + of_nat k)"
    unfolding translate_entry page using addr by (simp add: present_def frame_def)
  have "phys_byte (pmem bios_vmm) (phys + of_nat k) = phys_byte (load32 bios_image) (phys + of_nat k)"
    by (rule phys_byte_cong) (simp add: fr bios_vmm_def)
  then show "phys_byte (pmem bios_vmm) (phys + of_nat k) = bios_image (phys + of_nat k)" by (simp add: phys_byte_load32)
qed

theorem SMBios_Initialize_maps_table_witness:
  "\<exists>t. SMBios_Initialize bios_vmm 0xC0405400 = Inr ([[]], 0xC0405400, t) \<and> vmm_wf t"
proof -
  have off: "0xC0405000 + (0x103400 AND 0xfff) = (0xC0405400 :: u32)" "unat (0x103400 AND 0xfff :: u32) = 0x400" "frame 0x103400 = 0x103000"
    by (simp_all add: frame_def)
  note bytes = bios_bytes [of "0x103400", unfolded off]
  have seen: "virtual_mem bios_vmm (0xC0405400 + of_nat i) = bios_image (0x103400 + of_nat i)" if "i < 31" for i
    using bytes [of i] that by (simp add: virtual_mem_def)
  then have point: "read_SMBiosEntry (virtual_mem bios_vmm) 0xC0405400 = table_entry"
    using read_SMBiosEntry_cong bios_image(1) by metis
  have fields: "ep_struct_addr table_entry = 0x103456" "ucast (ep_struct_len table_entry) div 4096 + 2 = (2 :: u32)"
    "unat (ep_struct_len table_entry) = 6" "unat (ep_struct_count table_entry) = 1" "last_vaddr (vzones bios_vmm ZKernel) = 0xC0400000"
    using bios_vmm by (simp_all add: table_entry_def sample_tables_def)
  have "entry_apart bios_vmm 0xC0405400 2 t" if "MapPhysicalAddress bios_vmm 0x103456 2 3 ZKernel = Inr (p, t)" for p t
  proof -
    obtain t' where t': "MapPhysicalAddress bios_vmm 0x103456 2 3 ZKernel = Inr (0xC0400456, t')"
      "\<forall>f\<in>tables t' - tables bios_vmm. unat f \<notin> used_frames (vmm_pmm bios_vmm) \<union> frames 0x103000 2"
    proof (rule MapPhysicalAddress_run [OF sample_tables_wf [OF bios_vmm] sample_tables_can [OF bios_vmm], where flags = 3])
      fix t' assume t': "MapPhysicalAddress bios_vmm 0x103456 2 3 ZKernel =
          Inr (last_vaddr (vzones bios_vmm ZKernel) + (0x103456 AND 0xfff), t')"
        "\<forall>f\<in>tables t' - tables bios_vmm. unat f \<notin> used_frames (vmm_pmm bios_vmm) \<union> frames (unat (frame 0x103456)) (unat (2 :: u32))"
      show thesis by (rule that) (use t' fields(5) in \<open>simp_all add: frame_def\<close>)
    qed simp
    have run: "0x103000 \<in> frames 0x103000 2" by (auto simp: frames_iff)
    then have "0x103000 \<notin> used_frames (vmm_pmm bios_vmm)"
      using sample_tables_can [OF bios_vmm] by (auto simp: can_map_address_def frame_def)
    then have "0x103000 \<notin> tables bios_vmm" using tables_used [OF sample_tables_wf [OF bios_vmm], of "0x103000"] by auto
    then have "unat (0x103000 :: u32) \<notin> frames 0x103000 2" if "0x103000 \<in> tables t'" using that t'(2) by blast
    then have "0x103000 \<notin> tables t" using t'(1) run that by auto
    then show ?thesis
      using bytes fields(5) by (simp add: entry_apart_def Let_def in_run_def) (simp add: page_number_def)
  qed
  then obtain p t where t: "SMBios_Initialize bios_vmm 0xC0405400 =
      and_then (walk 1 (virtual_mem t) 0xC0405400 p) (\<lambda>report. Inr (report, 0xC0405400, t))" "vmm_wf t"
    "\<forall>k<6. virtual_mem t (p + of_nat k) = phys_byte (pmem bios_vmm) (0x103456 + of_nat k)"
    using SMBios_Initialize_maps_table [OF sample_tables_wf [OF bios_vmm], of "0xC0405400", unfolded point fields]
      sample_tables_can [OF bios_vmm] by auto
  have "phys_byte (pmem bios_vmm) (0x103456 + of_nat k) = bios_image (0x103456 + of_nat k)" if "k < 6" for k
    using bios_bytes(4) [of "0x103456" k] that by (simp add: frame_def)
  then have table: "\<forall>k<6. virtual_mem t (p + of_nat k) = [127, 4, 0, 0, 0, 0] ! k" using t(3) bios_image(2) by simp
  then have "virtual_mem t p = 127" "virtual_mem t (p + 1) = 4" "virtual_mem t (p + 4) = 0" "virtual_mem t (p + 5) = 0"
    using table [rule_format, of 0] table [rule_format, of 1] table [rule_format, of 4] table [rule_format, of 5] by simp_all
  then have "walk 1 (virtual_mem t) 0xC0405400 p = Inr [[]]"
    by (simp add: parse_structure_def next_structure_def table_fields GetSMBiosString_def strings_loop.simps add.assoc)
  then show ?thesis using t(1,2) by simp
qed

end
