(* ===== verification/PS2.thy ===== *)
theory PS2
  imports PortIO
begin

text \<open>
  The driver of the 8042 keyboard controller (arch/x86/PS2.cpp). Its log lines are left out; the
  results its functions return, and which bytes go to which port, are what is modelled. The key
  queue of the class is never used.
\<close>

unbundle bit_operations_syntax

record ps2 = machine +
  max_channels :: u8

abbreviation (input) "DATA_PORT \<equiv> 0x60 :: u16"
abbreviation (input) "STATUS_REG \<equiv> 0x64 :: u16"
abbreviation (input) "COMMAND_REG \<equiv> 0x64 :: u16"

section \<open>Commands to a device\<close>

text \<open>\<open>while (in8(STATUS_REG) & 0x1) in8(DATA_PORT);\<close> runs as long as the controller has data.\<close>

partial_function (option) flush :: "ps2 \<Rightarrow> ps2 option" where
  "flush s =
     (let (status, s) = in8 STATUS_REG s
      in if status AND 0x1 \<noteq> 0 then flush (snd (in8 DATA_PORT s)) else Some s)"

definition select_port :: "u32 \<Rightarrow> ps2 \<Rightarrow> ps2" where
  "select_port port s = (if port = 2 then iodelay 100 (out8 COMMAND_REG 0xd4 s) else s)"

text \<open>
  The wait for the answer, by what \<open>timeout\<close> lacks to 20: whether data came.
\<close>

fun wait_answer :: "nat \<Rightarrow> ps2 \<Rightarrow> bool \<times> ps2" where
  "wait_answer left s =
     (let (status, s) = in8 STATUS_REG s
      in if status AND 0x1 \<noteq> 0 then (True, s)
         else case left of
                0 \<Rightarrow> (False, s)
              | Suc left \<Rightarrow> wait_answer left (iodelay (10000 * (20 - left)) s))"

declare wait_answer.simps [simp del]

definition SendCommand :: "u8 \<Rightarrow> u32 \<Rightarrow> int \<Rightarrow> ps2 \<Rightarrow> (bool \<times> ps2) result" where
  "SendCommand code port val s =
     and_then (returns (flush s)) (\<lambda>s.
       let s = select_port port s;
           s = iodelay 100 (out8 DATA_PORT code s);
           s = (if val > 0 then out8 DATA_PORT (of_int val) s else s);
           (answered, s) = wait_answer 20 s
       in if \<not> answered then Inr (False, s)
          else let (res, s) = in8 DATA_PORT (iodelay 50000 s)
               in if res = 0xAA \<or> res = 0xFA then Inr (True, s) else Inr (False, s))"

definition Reset_port :: "u32 \<Rightarrow> ps2 \<Rightarrow> (bool \<times> ps2) result" where
  "Reset_port port s =
     and_then (returns (flush s)) (\<lambda>s.
       let s = select_port port s;
           s = iodelay 50000 (out8 DATA_PORT 0xff s);
           (res, s) = in8 DATA_PORT s
       in if res \<noteq> 0xAA \<and> res \<noteq> 0xFA then Inr (False, s)
          else let s = iodelay 1000 s;
                   (status, s) = in8 STATUS_REG s;
                   (res, s) = (if status AND 0x1 \<noteq> 0 then in8 DATA_PORT s else (0xAA, s))
               in if res \<noteq> 0xAA \<and> res \<noteq> 0xFA then Inr (False, s)
                  else let s = iodelay 1000 s;
                           (status, s) = in8 STATUS_REG s;
                           (res, s) = (if status AND 0x1 \<noteq> 0 then in8 DATA_PORT s else (0, s))
                       in if res \<noteq> 0 then Inr (False, s) else Inr (True, s))"

text \<open>
  \<open>InitKeyboard\<close> is declared to return \<open>bool\<close> and has no return statement; its only caller ignores
  the value, so only the state is modelled.
\<close>

definition InitKeyboard :: "ps2 \<Rightarrow> ps2 result" where
  "InitKeyboard s =
     and_then (SendCommand 0xf0 1 2 s) (\<lambda>(_, s).
     and_then (SendCommand 0xf4 1 (-1) s) (\<lambda>(_, s). Inr s))"

section \<open>Initialisation\<close>

text \<open>The device type behind an identify command: one byte, or two if the first is above 0x80.\<close>

definition read_devtype :: "ps2 \<Rightarrow> u16 \<times> ps2" where
  "read_devtype s =
     (let (b, s) = in8 DATA_PORT s; devtype = ucast b :: u16
      in if devtype > 0x80 then let (b2, s) = in8 DATA_PORT s in (devtype OR push_bit 8 (ucast b2), s)
         else (devtype, s))"

definition identify :: "u32 \<Rightarrow> ps2 \<Rightarrow> (u16 \<times> ps2) result" where
  "identify port s =
     and_then (SendCommand 0xf5 port (-1) s) (\<lambda>(_, s).
     and_then (SendCommand 0xf2 port (-1) s) (\<lambda>(_, s). Inr (read_devtype s)))"

text \<open>Steps 1 to 5: ports off, buffer emptied, interrupts off, number of channels, tests.\<close>

definition init_controller :: "ps2 \<Rightarrow> ps2" where
  "init_controller s =
     (let s = iodelay 5000 (out8 COMMAND_REG 0xAD s);
          s = iodelay 5000 (out8 COMMAND_REG 0xA7 s);
          s = for_upto (\<lambda>_ s. snd (in8 DATA_PORT s)) 16 s;
          s = out8 COMMAND_REG 0x20 s;
          (ccb, s) = in8 DATA_PORT s;
          s = s\<lparr>max_channels := 1\<rparr>;
          s = (if ccb AND push_bit 4 1 \<noteq> 0 then s\<lparr>max_channels := 1\<rparr> else s);
          s = (if ccb AND push_bit 5 1 \<noteq> 0 then s\<lparr>max_channels := 2\<rparr> else s);
          s = out8 COMMAND_REG 0x60 s;
          ccb = ccb AND NOT (0x1 OR 0x2 OR 0x40);
          s = iodelay 50000 (out8 DATA_PORT ccb s);
          s = out8 COMMAND_REG 0xAA s;
          (st_res, s) = in8 DATA_PORT s;
          s = out8 COMMAND_REG 0xAB s;
          (res, s) = in8 DATA_PORT s
      in if max_channels s \<ge> 2 then snd (in8 DATA_PORT (out8 COMMAND_REG 0xA9 s)) else s)"

text \<open>The last step: interrupts and ports on.\<close>

definition enable_ports :: "ps2 \<Rightarrow> ps2" where
  "enable_ports s =
     (let s = iodelay 100 (out8 COMMAND_REG 0x20 s);
          (ccb, s) = in8 DATA_PORT s;
          s = out8 COMMAND_REG 0x60 s;
          ccb = ccb OR 0x3;
          s = out8 DATA_PORT ccb s;
          s = iodelay 1000 (out8 COMMAND_REG 0xAE s)
      in if max_channels s = 2 then out8 COMMAND_REG 0xA8 s else s)"

text \<open>\<open>Initialize\<close> returns the device types it logs for the two ports.\<close>

definition PS2_Initialize :: "ps2 \<Rightarrow> ((u16 \<times> u16) \<times> ps2) result" where
  "PS2_Initialize s =
     (let s = init_controller s
      in and_then (Reset_port 1 s) (\<lambda>(_, s).
         and_then (if max_channels s \<ge> 2 then Reset_port 2 s else Inr (False, s)) (\<lambda>(_, s).
         and_then (identify 1 s) (\<lambda>(type1, s).
         and_then (identify 2 s) (\<lambda>(type2, s).
         and_then (InitKeyboard s) (\<lambda>s.
         and_then (SendCommand 0xf4 2 (-1) s) (\<lambda>(_, s). Inr ((type1, type2), enable_ports s))))))))"

definition PS2_Reset :: "ps2 \<Rightarrow> ps2 result" where
  "PS2_Reset s = and_then (PS2_Initialize s) (\<lambda>(_, s). Inr s)"

definition PS2_Detect :: bool where "PS2_Detect = True"

text \<open>The handler: what it logs of the key or the mouse, and the state.\<close>

definition PS2_OnIRQ :: "u32 \<Rightarrow> 'a machine_scheme \<Rightarrow> u16 option \<times> 'a machine_scheme" where
  "PS2_OnIRQ irq_no s =
     (if irq_no = 1 then let (key, s) = in8 DATA_PORT s in (Some (ucast key), s)
      else if irq_no = 12
      then let (b, s) = in8 DATA_PORT s; (b2, s) = in8 DATA_PORT s
           in (Some (ucast b OR push_bit 8 (ucast b2)), s)
      else (None, s))"

section \<open>What is sent\<close>

definition writes :: "io_history \<Rightarrow> (u16 \<times> u8) list" where
  "writes h = rev (List.map_filter (\<lambda>e. case e of Out8 p v \<Rightarrow> Some (p, v) | _ \<Rightarrow> None) h)"

lemma writes_Cons: "writes (e # h) = writes h @ (case e of Out8 p v \<Rightarrow> [(p, v)] | _ \<Rightarrow> [])"
  by (auto simp: writes_def List.map_filter_def split: io_event.splits)

lemma in8_unfold: "in8 p s = (answer8 s (history s) p, s\<lparr>history := In8 p (answer8 s (history s) p) # history s\<rparr>)"
  by (simp add: in8_def Let_def)

text \<open>The controller has at most \<open>n\<close> bytes to hand out before its status says that it has none.\<close>

fun drains :: "nat \<Rightarrow> ps2 \<Rightarrow> bool" where
  "drains 0 s \<longleftrightarrow> fst (in8 STATUS_REG s) AND 0x1 = 0"
| "drains (Suc n) s \<longleftrightarrow> fst (in8 STATUS_REG s) AND 0x1 = 0 \<or> drains n (snd (in8 DATA_PORT (snd (in8 STATUS_REG s))))"

text \<open>What an operation may have done: some accesses, of which only reads where nothing is written.\<close>

definition reads_only :: "ps2 \<Rightarrow> ps2 \<Rightarrow> nat \<Rightarrow> bool" where
  "reads_only s t n \<longleftrightarrow> writes (history t) = writes (history s) \<and>
     length (history t) \<le> length (history s) + n \<and> t = s\<lparr>history := history t\<rparr>"

lemma flush_drains: "drains n s \<Longrightarrow> \<exists>t. flush s = Some t \<and> reads_only s t (2 * n + 1)"
proof (induction n arbitrary: s)
  case 0
  then show ?case by (subst flush.simps) (auto simp: in8_unfold reads_only_def writes_Cons)
next
  case (Suc n)
  let ?s = "snd (in8 DATA_PORT (snd (in8 STATUS_REG s)))"
  have s: "reads_only s ?s 2" by (simp add: in8_unfold reads_only_def writes_Cons)
  show ?case
  proof (cases "fst (in8 STATUS_REG s) AND 0x1 = 0")
    case True
    then show ?thesis by (subst flush.simps) (auto simp: in8_unfold reads_only_def writes_Cons)
  next
    case False
    then obtain t where t: "flush ?s = Some t" "reads_only ?s t (2 * n + 1)" using Suc by auto
    have "flush s = flush ?s" using False by (subst flush.simps) (simp add: Let_def split_def)
    moreover have "reads_only s t (2 * Suc n + 1)" using s t(2) by (auto simp: reads_only_def)
    ultimately show ?thesis using t(1) by auto
  qed
qed

lemma wait_answer_bounded: "reads_only s (snd (wait_answer left s)) (Suc left)"
proof (induction left arbitrary: s)
  case 0
  then show ?case by (subst wait_answer.simps) (simp add: in8_unfold reads_only_def writes_Cons)
next
  case (Suc left)
  let ?s = "snd (in8 STATUS_REG s)"
  have "reads_only ?s (snd (wait_answer left ?s)) (Suc left)" by (rule Suc)
  then show ?case
    by (subst wait_answer.simps) (auto simp: in8_unfold reads_only_def writes_Cons iodelay_def Let_def)
qed

end
