(* ===== verification/PS2_Properties.thy ===== *)
theory PS2_Properties
  imports PS2
begin

text \<open>
  The properties of the keyboard controller driver: its waits end, and it sends what it should
  whatever the controller answers.
\<close>

unbundle bit_operations_syntax

abbreviation ps2_ports :: "u16 set" where "ps2_ports \<equiv> {0x60, 0x64}"

section \<open>Waits\<close>

lemma max_channels_io [simp]:
  "max_channels (out8 p v s) = max_channels s" "max_channels (snd (in8 p s)) = max_channels s"
  "max_channels (iodelay n s) = max_channels s"
  by (simp_all add: out8_def in8_def iodelay_def Let_def)

lemma flush_ports: "drains n s \<Longrightarrow> flush s = Some t \<Longrightarrow> only_ports ps2_ports s t \<and> max_channels t = max_channels s"
proof (induction n arbitrary: s)
  case 0
  then show ?case by (subst (asm) flush.simps) (auto simp: Let_def split_def intro!: only_ports_io only_ports_refl split: if_splits)
next
  case (Suc n)
  let ?s = "snd (in8 DATA_PORT (snd (in8 STATUS_REG s)))"
  show ?case
  proof (cases "fst (in8 STATUS_REG s) AND 0x1 = 0")
    case True
    then show ?thesis using Suc.prems(2)
      by (subst (asm) flush.simps) (auto simp: Let_def split_def intro!: only_ports_io only_ports_refl split: if_splits)
  next
    case False
    have "flush s = flush ?s" using False by (subst flush.simps) (simp add: Let_def split_def)
    then have "only_ports ps2_ports ?s t \<and> max_channels t = max_channels ?s" using False Suc by simp
    moreover have "only_ports ps2_ports s ?s" by (intro only_ports_io only_ports_refl) simp_all
    ultimately show ?thesis by (auto intro: only_ports_trans)
  qed
qed

lemma wait_answer_ports: "only_ports ps2_ports s (snd (wait_answer left s)) \<and> max_channels (snd (wait_answer left s)) = max_channels s"
proof (induction left arbitrary: s)
  case 0
  then show ?case
    by (subst (1 2) wait_answer.simps) (auto simp: Let_def split_def intro!: only_ports_io only_ports_refl)
next
  case (Suc left)
  let ?s = "snd (in8 STATUS_REG s)"
  have "only_ports ps2_ports s ?s" by (intro only_ports_io only_ports_refl) simp_all
  then have "only_ports ps2_ports s (snd (wait_answer left ?s))" "max_channels (snd (wait_answer left ?s)) = max_channels s"
    using Suc [of ?s] by (auto intro: only_ports_trans)
  then show ?case
    using \<open>only_ports ps2_ports s ?s\<close>
    by (subst (1 2) wait_answer.simps) (simp add: Let_def split_def iodelay_def)
qed

lemma wait_answer_last: "\<not> fst (wait_answer left s) \<Longrightarrow> \<exists>v. hd (history (snd (wait_answer left s))) = In8 STATUS_REG v"
proof (induction left arbitrary: s)
  case 0
  then show ?case by (subst wait_answer.simps) (simp add: Let_def split_def)
next
  case (Suc left)
  have "\<not> fst (wait_answer left (snd (in8 STATUS_REG s)))" "fst (in8 STATUS_REG s) AND 1 = 0"
    using Suc.prems by (subst (asm) wait_answer.simps; simp add: Let_def split_def iodelay_def split: if_splits)+
  then show ?case using Suc.IH by (subst wait_answer.simps) (simp add: Let_def split_def iodelay_def)
qed

section \<open>Commands\<close>

definition command_bytes :: "u8 \<Rightarrow> u32 \<Rightarrow> int \<Rightarrow> (u16 \<times> u8) list" where
  "command_bytes code port val =
     (if port = 2 then [(0x64, 0xd4)] else []) @ [(0x60, code)] @ (if val > 0 then [(0x60, of_int val)] else [])"

lemma SendCommand_char:
  assumes "drains n s"
  shows "\<exists>r t. SendCommand code port val s = Inr (r, t) \<and>
    writes (history t) = writes (history s) @ command_bytes code port val \<and>
    length (history t) \<le> length (history s) + 2 * n + 26 \<and>
    r = (hd (history t) \<in> {In8 0x60 0xAA, In8 0x60 0xFA}) \<and>
    only_ports ps2_ports s t \<and> max_channels t = max_channels s"
proof -
  obtain a where a: "flush s = Some a" "reads_only s a (2 * n + 1)" using flush_drains [OF assms] by blast
  note a_ports = flush_ports [OF assms a(1)]
  define b where "b = (let c = out8 0x60 code (select_port port a) in if val > 0 then out8 0x60 (of_int val) c else c)"
  have b: "writes (history b) = writes (history a) @ command_bytes code port val"
    "length (history b) \<le> length (history a) + 3" "max_channels b = max_channels a"
    by (auto simp: b_def select_port_def iodelay_def command_bytes_def writes_Cons Let_def)
  have b_ports: "only_ports ps2_ports s b"
    unfolding b_def Let_def select_port_def using a_ports by (auto intro!: only_ports_io)
  define w where "w = wait_answer 20 b"
  have w: "reads_only b (snd w) 21" "only_ports ps2_ports b (snd w)" "max_channels (snd w) = max_channels b"
    using wait_answer_bounded [of b 20] wait_answer_ports [of b 20] by (simp_all add: w_def)
  have run: "SendCommand code port val s =
      (if \<not> fst w then Inr (False, snd w)
       else let res = answer8 (snd w) (history (snd w)) 0x60; t = snd (in8 0x60 (snd w))
            in if res = 0xAA \<or> res = 0xFA then Inr (True, t) else Inr (False, t))"
    unfolding SendCommand_def a(1)
    by (simp add: iodelay_def w_def b_def Let_def split_def cong: if_cong)
  have total: "length (history (snd w)) \<le> length (history s) + 2 * n + 25"
    "writes (history (snd w)) = writes (history s) @ command_bytes code port val"
    using a(2) b w(1) by (simp_all add: reads_only_def)
  show ?thesis
  proof (cases "fst w")
    case True
    let ?t = "snd (in8 0x60 (snd w))"
    have "only_ports ps2_ports s ?t" using only_ports_trans [OF b_ports w(2)] by (intro only_ports_io) simp_all
    moreover have "SendCommand code port val s = Inr (hd (history ?t) \<in> {In8 0x60 0xAA, In8 0x60 0xFA}, ?t)"
      using True run by (auto simp: Let_def)
    ultimately show ?thesis
      using total w(3) b(3) a_ports by (intro exI [of _ "hd (history ?t) \<in> {In8 0x60 0xAA, In8 0x60 0xFA}"] exI [of _ ?t] conjI) (simp_all add: writes_Cons)
  next
    case False
    then obtain v where "hd (history (snd w)) = In8 STATUS_REG v" using wait_answer_last [of 20 b] by (auto simp: w_def)
    then show ?thesis using False run total w b(3) a_ports only_ports_trans [OF b_ports w(2)] by auto
  qed
qed

text \<open>
  C37. A command to a device always returns if the controller has finitely many bytes in its buffer:
  after at most 26 port accesses more than emptying the buffer takes. Whatever the controller
  answers, exactly the bytes of the command go out, in their order, and the result is true
  exactly if the last access read an acknowledgement.
\<close>

theorem SendCommand_returns:
  assumes "drains n s"
  shows "\<exists>r t. SendCommand code port val s = Inr (r, t) \<and>
    writes (history t) = writes (history s) @ command_bytes code port val \<and>
    length (history t) \<le> length (history s) + 2 * n + 26 \<and>
    r = (hd (history t) \<in> {In8 0x60 0xAA, In8 0x60 0xFA})"
  using SendCommand_char [OF assms] by blast

definition silent_ps2 :: ps2 where
  "silent_ps2 = \<lparr>history = [], answer8 = (\<lambda>_ p. if p = 0x64 then 0 else 0xFA), answer16 = (\<lambda>_ _. 0), answer32 = (\<lambda>_ _. 0), max_channels = 1\<rparr>"

theorem SendCommand_returns_witness:
  "\<exists>r t. SendCommand 0xf4 2 (-1) silent_ps2 = Inr (r, t) \<and> writes (history t) = [(0x64, 0xd4), (0x60, 0xf4)]"
proof -
  have "drains 0 silent_ps2" by (simp add: silent_ps2_def)
  from SendCommand_returns [OF this, of "0xf4" 2 "-1"]
  show ?thesis by (auto simp: silent_ps2_def command_bytes_def writes_def)
qed

section \<open>Initialisation\<close>

text \<open>The bytes in the buffer are at most \<open>n\<close> whenever the driver empties it.\<close>

definition controller_drains :: "nat \<Rightarrow> (io_history \<Rightarrow> u16 \<Rightarrow> u8) \<Rightarrow> bool" where
  "controller_drains n ans \<longleftrightarrow> (\<forall>s. answer8 s = ans \<longrightarrow> drains n s)"

definition ps2_runs :: "ps2 \<Rightarrow> ('r \<times> ps2) result \<Rightarrow> bool" where
  "ps2_runs s r \<longleftrightarrow> (\<exists>v t. r = Inr (v, t) \<and> only_ports ps2_ports s t)"

lemma ps2_runs_Inr: "only_ports ps2_ports s t \<Longrightarrow> ps2_runs s (Inr (v, t))"
  by (simp add: ps2_runs_def)

lemma ps2_runs_and_then:
  assumes "ps2_runs s r" "\<And>v t. only_ports ps2_ports s t \<Longrightarrow> ps2_runs t (k (v, t))"
  shows "ps2_runs s (and_then r k)"
proof -
  obtain v t where t: "r = Inr (v, t)" "only_ports ps2_ports s t" using assms(1) by (auto simp: ps2_runs_def)
  then show ?thesis using assms(2) [OF t(2), of v] by (auto simp: ps2_runs_def intro: only_ports_trans)
qed

lemma only_ports_drains: "controller_drains n (answer8 s) \<Longrightarrow> only_ports P s t \<Longrightarrow> controller_drains n (answer8 t)"
  by (simp add: only_ports_def)

lemma SendCommand_runs: "controller_drains n (answer8 s) \<Longrightarrow> ps2_runs s (SendCommand code port val s)"
  using SendCommand_char [of n s code port val] by (auto simp: controller_drains_def ps2_runs_def)

lemma select_port_ports: "only_ports ps2_ports s t \<Longrightarrow> only_ports ps2_ports s (select_port port t)"
  by (simp add: select_port_def only_ports_io)

text \<open>The steps of a run in which every state is reached through the ports of the controller.\<close>

lemma ps2_runs_let:
  "only_ports ps2_ports s t \<Longrightarrow> (\<And>u. only_ports ps2_ports s u \<Longrightarrow> ps2_runs s (k u)) \<Longrightarrow> ps2_runs s (let u = t in k u)"
  by simp

lemma ps2_runs_read:
  "p \<in> ps2_ports \<Longrightarrow> only_ports ps2_ports s t \<Longrightarrow> (\<And>v u. only_ports ps2_ports s u \<Longrightarrow> ps2_runs s (k v u)) \<Longrightarrow>
    ps2_runs s (let (v, u) = in8 p t in k v u)"
  "p \<in> ps2_ports \<Longrightarrow> only_ports ps2_ports s t \<Longrightarrow> (\<And>v u. only_ports ps2_ports s u \<Longrightarrow> ps2_runs s (k v u)) \<Longrightarrow>
    ps2_runs s (let (v, u) = if c then in8 p t else (w, t) in k v u)"
  by (simp_all add: Let_def split_def only_ports_io)

lemma ps2_runs_if: "ps2_runs s a \<Longrightarrow> ps2_runs s b \<Longrightarrow> ps2_runs s (if c then a else b)"
  by simp

lemma Reset_port_runs:
  assumes "controller_drains n (answer8 s)"
  shows "ps2_runs s (Reset_port port s)"
proof -
  have "drains n s" using assms by (simp add: controller_drains_def)
  then obtain a where a: "flush s = Some a" "only_ports ps2_ports s a"
    using flush_drains [of n s] flush_ports [of n s] by blast
  show ?thesis
    unfolding Reset_port_def a(1) returns.simps and_then.simps
    by (intro ps2_runs_let ps2_runs_read ps2_runs_if ps2_runs_Inr select_port_ports a(2))
      (simp_all add: only_ports_io)
qed

lemma only_ports_max_channels [simp]: "only_ports P s (t\<lparr>max_channels := v\<rparr>) = only_ports P s t"
  by (simp add: only_ports_def)

lemma for_upto_reads: "p \<in> P \<Longrightarrow> only_ports P s t \<Longrightarrow> only_ports P s (for_upto (\<lambda>_ s. snd (in8 p s)) n t)"
  by (induction n) (simp_all add: only_ports_io)

lemma only_ports_self: "only_ports P s s"
  by (simp add: only_ports_def)

lemmas only_ports_intros = only_ports_io for_upto_reads only_ports_self

lemma init_controller_ports: "only_ports ps2_ports s (init_controller s)"
  unfolding init_controller_def Let_def split_def
  by (auto intro!: only_ports_intros simp del: for_upto.simps)

lemma enable_ports_ports: "only_ports ps2_ports s (enable_ports s)"
  unfolding enable_ports_def Let_def split_def by (auto intro!: only_ports_intros)

lemma read_devtype_runs: "ps2_runs s (Inr (read_devtype s))"
  unfolding read_devtype_def Let_def split_def
  by (auto intro!: ps2_runs_Inr only_ports_io only_ports_refl)

lemma identify_runs:
  assumes "controller_drains n (answer8 s)"
  shows "ps2_runs s (identify port s)"
proof -
  note drains = only_ports_drains [OF assms]
  have "ps2_runs t (and_then (SendCommand 0xf2 port (-1) t) (\<lambda>(_, s). Inr (read_devtype s)))"
    if "only_ports ps2_ports s t" for t
    by (rule ps2_runs_and_then [OF SendCommand_runs [OF drains [OF that]]]) (simp add: read_devtype_runs)
  then show ?thesis
    unfolding identify_def by (intro ps2_runs_and_then [OF SendCommand_runs [OF assms]]) simp
qed

lemma InitKeyboard_runs:
  assumes "controller_drains n (answer8 s)"
  shows "\<exists>t. InitKeyboard s = Inr t \<and> only_ports ps2_ports s t"
proof -
  obtain v t where t: "SendCommand 0xf0 1 2 s = Inr (v, t)" "only_ports ps2_ports s t"
    using SendCommand_runs [OF assms] unfolding ps2_runs_def by blast
  obtain w u where u: "SendCommand 0xf4 1 (-1) t = Inr (w, u)" "only_ports ps2_ports t u"
    using SendCommand_runs [OF only_ports_drains [OF assms t(2)]] unfolding ps2_runs_def by blast
  show ?thesis using t u by (auto simp: InitKeyboard_def intro: only_ports_trans)
qed

lemma PS2_Initialize_runs:
  assumes "controller_drains n (answer8 s)"
  shows "ps2_runs s (PS2_Initialize s)"
proof -
  define S where "S = {t :: ps2. controller_drains n (answer8 t)}"
  have keep: "t \<in> S" if "only_ports ps2_ports u t" "u \<in> S" for t u :: ps2
    using only_ports_drains [OF _ that(1)] that(2) by (simp add: S_def)
  have send: "ps2_runs t (SendCommand code port val t)" and reset: "ps2_runs t (Reset_port port t)"
    and ident: "ps2_runs t (identify port t)" if "t \<in> S" for t :: ps2 and code port val
    using that SendCommand_runs Reset_port_runs identify_runs by (simp_all add: S_def)
  have last: "ps2_runs t (and_then (InitKeyboard t) (\<lambda>s.
      and_then (SendCommand 0xf4 2 (-1) s) (\<lambda>(_, s). Inr (ty, enable_ports s))))" if t: "t \<in> S" for t :: ps2 and ty :: "u16 \<times> u16"
  proof -
    obtain u where u: "InitKeyboard t = Inr u" "only_ports ps2_ports t u"
      using InitKeyboard_runs [of n t] t unfolding S_def by blast
    have "ps2_runs u (and_then (SendCommand 0xf4 2 (-1) u) (\<lambda>(_, s). Inr (ty, enable_ports s)))"
      by (intro ps2_runs_and_then [OF send]) (auto intro: keep [OF u(2) t] ps2_runs_Inr enable_ports_ports)
    then show ?thesis using u by (auto simp: ps2_runs_def intro: only_ports_trans)
  qed
  have start: "only_ports ps2_ports s (init_controller s)" by (rule init_controller_ports)
  have s: "s \<in> S" using assms by (simp add: S_def)
  have second: "ps2_runs t (if max_channels t \<ge> 2 then Reset_port 2 t else Inr (False, t))" if "t \<in> S" for t
    using reset [OF that] by (auto intro: ps2_runs_Inr only_ports_refl)
  have begins: "init_controller s \<in> S" by (rule keep [OF start s])
  have "ps2_runs (init_controller s) (PS2_Initialize s)"
    unfolding PS2_Initialize_def Let_def
    by (rule ps2_runs_and_then [OF reset [OF begins]], unfold prod.case,
        rule ps2_runs_and_then [OF second [OF keep [OF _ begins]]], assumption, unfold prod.case,
        rule ps2_runs_and_then [OF ident], erule keep, erule keep [OF _ begins], unfold prod.case,
        rule ps2_runs_and_then [OF ident], erule keep, erule keep, erule keep [OF _ begins], unfold prod.case,
        rule last, erule keep, erule keep, erule keep, erule keep [OF _ begins])
  then show ?thesis using start by (auto simp: ps2_runs_def intro: only_ports_trans)
qed

end
