(* ===== verification/Runtime.thy ===== *)
theory Runtime
  imports IRQHandler Timer PS2
begin

text \<open>
  The kernel and the interrupts. After the boot it waits in a loop of \<open>hlt\<close> instructions, and everything that happens
  is an interrupt: the processor enters the dispatcher (arch/x86/IRQHandler.cpp), which calls
  \<open>OnIRQ\<close> of the registered devices, the timer (arch/x86/PIT.cpp) and the keyboard controller
  (arch/x86/PS2.cpp), and acknowledges the interrupt.
\<close>

unbundle bit_operations_syntax

text \<open>The clock, and the values the keyboard controller has logged, the newest first.\<close>

record runtime = irq_machine +
  clock :: timer
  logged :: "u16 list"

text \<open>The virtual call of \<open>OnIRQ\<close>, on the two objects that are registered.\<close>

definition device_irq :: "u32 \<Rightarrow> u32 \<Rightarrow> u32 \<Rightarrow> u32 \<Rightarrow> runtime \<Rightarrow> runtime result" where
  "device_irq pit kbd h irq_no s =
     (if h = pit then Inr (s\<lparr>clock := PIT_OnIRQ (clock s)\<rparr>)
      else if h = kbd
      then (case PS2_OnIRQ irq_no s of
              (None, s) \<Rightarrow> Inr s
            | (Some v, s) \<Rightarrow> Inr (s\<lparr>logged := v # logged s\<rparr>))
      else Inl (Undefined ''IRQDispatcher: not a device''))"

text \<open>
  The interrupts the processor takes: those of the lines that are not masked, and the spurious
  ones, which the controllers raise on their last lines whatever the masks.
\<close>

inductive irq_step :: "u32 \<Rightarrow> u32 \<Rightarrow> nat \<Rightarrow> runtime \<Rightarrow> runtime \<Rightarrow> bool" for pit kbd where
  Interrupt: "irq_step pit kbd j s t"
    if "j < 16" "\<not> masked s j" "IRQDispatcher (device_irq pit kbd) (of_nat j) s = Inr t"
| Spurious: "irq_step pit kbd j s t"
    if "j = 7 \<or> j = 15" "IRQDispatcher (device_irq pit kbd) (of_nat j) s = Inr t"

inductive irq_run :: "u32 \<Rightarrow> u32 \<Rightarrow> nat list \<Rightarrow> runtime \<Rightarrow> runtime \<Rightarrow> bool" for pit kbd where
  Idle: "irq_run pit kbd [] s s"
| Next: "irq_run pit kbd (j # js) s u"
    if "irq_step pit kbd j s t" "irq_run pit kbd js t u"

inductive_simps irq_step_iff: "irq_step pit kbd j s t"
inductive_cases irq_run_NilE: "irq_run pit kbd [] s t"
inductive_cases irq_run_ConsE: "irq_run pit kbd (j # js) s u"

text \<open>
  The same interrupts as a function, for the code that runs while they come: an interrupt that the
  controllers do not pass on changes nothing.
\<close>

definition take_irq :: "u32 \<Rightarrow> u32 \<Rightarrow> nat \<Rightarrow> runtime \<Rightarrow> runtime result" where
  "take_irq pit kbd j s =
     (if j < 16 \<and> (\<not> masked s j \<or> j = 7 \<or> j = 15)
      then IRQDispatcher (device_irq pit kbd) (of_nat j) s else Inr s)"

fun take_irqs :: "u32 \<Rightarrow> u32 \<Rightarrow> nat list \<Rightarrow> runtime \<Rightarrow> runtime result" where
  "take_irqs pit kbd [] s = Inr s"
| "take_irqs pit kbd (j # js) s = and_then (take_irq pit kbd j s) (take_irqs pit kbd js)"

end
