(* ===== verification/Boot.thy ===== *)
theory Boot
  imports PMM_Init VMM_Init I8259_Correct Runtime SMBIOS_Init PCI_Discovery
begin

text \<open>
  What the kernel's entry point (main.cpp) initialises: the memory map of the boot loader, from which
  the memory managers are set up, and the order in which the devices are initialised and their
  interrupt handlers registered, while interrupts come. Boot_Output has the texts it prints.
\<close>

unbundle bit_operations_syntax

section \<open>What the boot loader leaves\<close>

record BootStruct =
  magic :: u32
  multiboot_phys_ptr :: u32
  phys_kernel_start :: u32
  phys_kernel_end :: u32
  phys_virt_offset :: u32
  phys_cr3_addr :: u32

text \<open>\<open>MultibootBIF\<close>, with the four words of \<open>elf_sym\<close>, and one element of the array in \<open>MultibootMmap\<close>.\<close>

record MultibootBIF =
  flags :: u32
  mem_lower :: u32
  mem_upper :: u32
  boot_device :: u32
  cmdline :: u32
  mods_count :: u32
  mods_addr :: u32
  elf_num :: u32
  elf_size :: u32
  elf_addr :: u32
  elf_shndx :: u32
  mmap_length :: u32
  mmap_addr :: u32

definition read_MultibootBIF :: "mem \<Rightarrow> u32 \<Rightarrow> MultibootBIF" where
  "read_MultibootBIF m p =
     \<lparr>flags = load32 m p, mem_lower = load32 m (p + 4), mem_upper = load32 m (p + 8), boot_device = load32 m (p + 12),
      cmdline = load32 m (p + 16), mods_count = load32 m (p + 20), mods_addr = load32 m (p + 24),
      elf_num = load32 m (p + 28), elf_size = load32 m (p + 32), elf_addr = load32 m (p + 36),
      elf_shndx = load32 m (p + 40), mmap_length = load32 m (p + 44), mmap_addr = load32 m (p + 48)\<rparr>"

record MultibootArea =
  area_addr :: u64
  area_len :: u64
  area_type :: u32
  area_size :: u32

definition read_MultibootArea :: "mem \<Rightarrow> u32 \<Rightarrow> MultibootArea" where
  "read_MultibootArea m p =
     \<lparr>area_addr = load64 m p, area_len = load64 m (p + 8), area_type = load32 m (p + 16), area_size = load32 m (p + 20)\<rparr>"

text \<open>The size field of \<open>MultibootMmap\<close> and its element \<open>map[i]\<close>.\<close>

definition mmap_size :: "mem \<Rightarrow> u32 \<Rightarrow> u32" where
  "mmap_size m mb = load32 m mb"

definition mmap_area :: "mem \<Rightarrow> u32 \<Rightarrow> u32 \<Rightarrow> MultibootArea" where
  "mmap_area m mb i = read_MultibootArea m (mb + 4 + 24 * i)"

section \<open>Memory\<close>

text \<open>
  The copy of the map: \<open>entcount\<close> is a signed number, a negative one a size no array can have.
  The conversions to \<open>uintptr_t\<close> and \<open>size_t\<close> keep the lower 32 bits.
\<close>

definition memory_map :: "mem \<Rightarrow> BootStruct \<Rightarrow> MemoryMap list result" where
  "memory_map m bs =
     (let bif = read_MultibootBIF m (multiboot_phys_ptr bs); mb_mmap = mmap_addr bif
      in if mmap_size m mb_mmap = 0 then Inl DivideError
         else let entcount = (mmap_length bif - 4) div mmap_size m mb_mmap
              in if entcount <s 0 then Inl (Undefined ''mmap: negative array size'')
                 else Inr (map (\<lambda>i. let area = mmap_area m mb_mmap (of_nat i)
                                in \<lparr>mm_start = ucast (area_addr area), mm_len = ucast (area_len area),
                                    mm_type = area_type area\<rparr>)
                            [0..<unat entcount]))"

definition init_memory :: "mem \<Rightarrow> VMM \<Rightarrow> BootStruct \<Rightarrow> VMM result" where
  "init_memory m vmm bs =
     and_then (memory_map m bs) (\<lambda>mmap.
     and_then (PMM_init (phys_kernel_start bs) (phys_virt_offset bs) (phys_kernel_end bs + phys_virt_offset bs) mmap m) (\<lambda>pmm.
       VMM.Init vmm pmm (phys_cr3_addr bs)))"

section \<open>Devices\<close>

text \<open>
  The objects of the drivers join the machine for their operations and leave the accesses they
  made behind. \<open>pit\<close> and \<open>ps2\<close> are the addresses of the objects, \<open>devs\<close> is what the array of
  the bus object holds when it is created.
\<close>

definition with_pci :: "PCIDev list \<Rightarrow> runtime \<Rightarrow> pci" where
  "with_pci devs s = machine.extend (machine.truncate s) \<lparr>pcidevs = devs, pcidev_count = 0\<rparr>"

definition with_ps2 :: "runtime \<Rightarrow> ps2" where
  "with_ps2 s = machine.extend (machine.truncate s) \<lparr>max_channels = 1\<rparr>"

definition resume :: "runtime \<Rightarrow> 'a machine_scheme \<Rightarrow> runtime" where
  "resume s t = s\<lparr>history := history t\<rparr>"

text \<open>The SMBIOS reader, which may map pages for its table.\<close>

definition detect_smbios :: "VMM \<Rightarrow> (smbios_line list list \<times> u32 \<times> VMM) result" where
  "detect_smbios vmm =
     (let (detected, entry_addr) = Detect (virtual_mem vmm) 0
      in if detected then SMBios_Initialize vmm entry_addr else Inr ([], entry_addr, vmm))"

text \<open>
  From the PIT on, in the order of the code; \<open>smbios\<close> is what the SMBIOS reader comes to. Interrupts
  are enabled: \<open>js n\<close> are those that come behind the \<open>n\<close>-th step, counted from \<open>sti\<close> on.
\<close>

definition init_devices :: "u32 \<Rightarrow> u32 \<Rightarrow> PCIDev list \<Rightarrow> (nat \<Rightarrow> nat list) \<Rightarrow> 'r result \<Rightarrow> runtime \<Rightarrow>
    ('r \<times> pci \<times> ps2 \<times> runtime) result" where
  "init_devices pit ps2 devs js smbios s =
     and_then (PIT_Initialize s (clock s)) (\<lambda>(s, t).
     and_then (take_irqs pit ps2 (js 2) (s\<lparr>clock := t\<rparr>)) (\<lambda>s.
     and_then (SetHandler 0 pit s) (\<lambda>(_, s).
     and_then (take_irqs pit ps2 (js 3) s) (\<lambda>s.
     and_then smbios (\<lambda>r.
     and_then (take_irqs pit ps2 (js 4) s) (\<lambda>s.
     and_then (PCIBus_Initialize (with_pci devs s)) (\<lambda>(_, pcibus).
     and_then (take_irqs pit ps2 (js 5) (resume s pcibus)) (\<lambda>s.
     and_then (PS2_Initialize (with_ps2 s)) (\<lambda>(_, kbd).
     and_then (take_irqs pit ps2 (js 6) (resume s kbd)) (\<lambda>s.
     and_then (SetHandler 1 ps2 s) (\<lambda>(_, s).
     and_then (take_irqs pit ps2 (js 7) s) (\<lambda>s.
     and_then (SetHandler 12 ps2 s) (\<lambda>(_, s).
     and_then (take_irqs pit ps2 (js 8) s) (\<lambda>s. Inr (r, pcibus, kbd, s)))))))))))))))"

section \<open>The initialisations\<close>

record kernel =
  kvmm :: VMM
  kidt :: IDT
  krun :: runtime

text \<open>
  The initialisations of \<open>kernel_main\<close> in their order, without the output between them, which is in
  Boot_Output. The parameters are what the linker decides and what an array holds when it is
  created: the address \<open>base\<close> of the descriptor table, the fault stubs, the interrupt stubs, and
  the addresses of the objects. Interrupts come from \<open>sti\<close> on, between the steps.
\<close>

definition kernel_init ::
  "u32 \<Rightarrow> (nat \<Rightarrow> u32) \<Rightarrow> u32 list \<Rightarrow> u32 \<Rightarrow> u32 \<Rightarrow> PCIDev list \<Rightarrow> (nat \<Rightarrow> nat list) \<Rightarrow> BootStruct \<Rightarrow> kernel \<Rightarrow> kernel result" where
  "kernel_init base stub irqs pit ps2 devs js bs k =
     (if magic bs \<noteq> 0x2badb002 then Inl (Panic ''invalid boot magic number'')
      else let idt = Register base (kidt k); s = I8259.Initialize (krun k)
           in and_then (FaultHandler_Init stub idt (replicate 20 None)) (\<lambda>f.
              and_then (IRQHandler_Init irqs (fault_idt f)) (\<lambda>idt.
              and_then (take_irqs pit ps2 (js 0) s) (\<lambda>s.
              and_then (init_memory (virtual_mem (kvmm k)) (kvmm k) bs) (\<lambda>vmm.
              and_then (take_irqs pit ps2 (js 1) s) (\<lambda>s.
              and_then (init_devices pit ps2 devs js (detect_smbios vmm) s) (\<lambda>((_, _, vmm), _, _, s).
                Inr (k\<lparr>kvmm := vmm, kidt := idt, krun := s\<rparr>))))))))"

end
