(* ===== verification/Boot_Output.thy ===== *)
theory Boot_Output
  imports Boot Panic
begin

text \<open>
  What \<open>kernel_main\<close> prints on the text console (main.cpp), as the list of its calls of \<open>kprintf\<close> in
  their order, and how far it gets.
\<close>

unbundle bit_operations_syntax

section \<open>The code\<close>

type_synonym message = "u8 list \<times> u32 list"

text \<open>The messages up to the one that starts the interrupts; \<open>tag\<close> is the tag of the 8259 driver.\<close>

definition start_messages :: "BootStruct \<Rightarrow> u32 \<Rightarrow> message list" where
  "start_messages bs tag =
     [(10 # 10 # literal '' Kernel starts at 0x%x, ends at 0x%x'' @ [10], [phys_kernel_start bs, phys_kernel_end bs]),
      (literal ''Page base directory is at 0x%x'' @ [10], [phys_cr3_addr bs]),
      (escape ''1m'' @ 9 # literal ''Starting... '' @ escape ''0m'' @ literal '' '', []),
      (literal ''...idt '', []),
      (literal ''...%s '', [tag]),
      (literal ''...faulthandler '', []),
      (literal ''...irqhandler'' @ 10 # literal '' '', [])]"

text \<open>The messages about the boot loader, and those of the devices.\<close>

definition loader_messages :: "BootStruct \<Rightarrow> MultibootBIF \<Rightarrow> message list" where
  "loader_messages bs bif =
     [(10 # literal '' Magic value is 0x%08x, multiboot is at address 0x%x'' @ [10], [magic bs, multiboot_phys_ptr bs]),
      (9 # literal ''-> Bootloader flags: '' @ escape ''1m'' @ literal ''0x%08x'' @ escape ''0m'' @ [10], [flags bif]),
      (9 # literal ''-> Memory total: '' @ escape ''1m'' @ literal ''%d kB'' @ escape ''0m'' @ [10], [mem_lower bif + mem_upper bif]),
      (9 # literal ''-> Boot device: '' @ escape ''1m'' @ literal '' %x '' @ escape ''0m'' @ [10], [boot_device bif]),
      (9 # literal ''-> Command line: '' @ escape ''1m'' @ literal ''%s'' @ escape ''0m'' @ [10], [cmdline bif]),
      (9 # literal ''-> '' @ escape ''1m'' @ literal ''%d'' @ escape ''0m'' @ literal '' boot modules, pointer at 0x%08x'' @ [10],
        [mods_count bif, mods_addr bif]),
      (9 # literal ''-> Memory map pointer: at '' @ escape ''1m'' @ literal ''0x%08x'' @ escape ''0m'' @ literal '', with '' @
        escape ''1m'' @ literal ''%d'' @ escape ''0m'' @ literal '' bytes'' @ [10], [mmap_addr bif, mmap_length bif])]"

definition device_messages :: "bool \<Rightarrow> message list" where
  "device_messages detected =
     (if detected then [(literal '' ...smbios'', [])] else []) @
     [(literal '' ...pcibus'', []), (literal '' ...ps2'', []),
      (10 # 10 # escape ''32m'' @ literal ''System loaded'' @ escape ''0m'' @ [10], [])]"

fun kprintf_all ::
  "(u32 \<Rightarrow> BaseColors \<Rightarrow> 's \<Rightarrow> 's result) \<Rightarrow> ('s \<Rightarrow> mem) \<Rightarrow> (mem \<Rightarrow> 's \<Rightarrow> 's) \<Rightarrow> u32 \<Rightarrow> message list \<Rightarrow> 's \<Rightarrow> 's result"
where
  "kprintf_all write_vga memory set_memory buf [] st = Inr st"
| "kprintf_all write_vga memory set_memory buf ((fmt, args) # ms) st =
     and_then (kprintf write_vga memory set_memory buf fmt args st) (kprintf_all write_vga memory set_memory buf ms)"

text \<open>
  All output of a boot with the right magic number. \<open>name\<close> and \<open>notice\<close> are the addresses of the two
  strings of the banner, \<open>buf\<close> is that of the array in \<open>kprintf\<close>.
\<close>

definition banner :: "u32 \<Rightarrow> u32 \<Rightarrow> vga \<Rightarrow> vga result" where
  "banner name notice v = and_then (WriteVGA name LightBlue (Clear v)) (WriteVGA notice LightGrey)"

definition kernel_output :: "u32 \<Rightarrow> u32 \<Rightarrow> u32 \<Rightarrow> u32 \<Rightarrow> BootStruct \<Rightarrow> MultibootBIF \<Rightarrow> bool \<Rightarrow> vga \<Rightarrow> vga result" where
  "kernel_output name notice buf tag bs bif detected v =
     and_then (banner name notice v)
       (kprintf_all WriteVGA vmem (\<lambda>m s. s\<lparr>vmem := m\<rparr>) buf
         (start_messages bs tag @ loader_messages bs bif @ device_messages detected))"

section \<open>Several messages\<close>

lemma and_then_assoc: "and_then (and_then r f) g = and_then r (\<lambda>x. and_then (f x) g)"
  by (cases r) simp_all

lemma kprintf_all_append:
  "kprintf_all w rd wr buf (ms @ ns) st = and_then (kprintf_all w rd wr buf ms st) (kprintf_all w rd wr buf ns)"
proof (induction ms arbitrary: st)
  case (Cons m ms)
  then have "kprintf_all w rd wr buf (ms @ ns) = (\<lambda>st. and_then (kprintf_all w rd wr buf ms st) (kprintf_all w rd wr buf ns))"
    by (intro ext)
  then show ?case by (cases m) (simp add: and_then_assoc)
qed simp

definition message_of :: "piece list \<Rightarrow> message" where
  "message_of ps = (pieces_format ps, pieces_args ps)"

lemma piece_ok_cong: "piece_ok B m x \<Longrightarrow> (\<And>a. a \<notin> B \<Longrightarrow> m' a = m a) \<Longrightarrow> piece_ok B m' x"
  by (cases x) (auto simp: cstr_nth)

context console
begin

text \<open>
  A list of messages, each with the text it comes to. They are printed one below the other, and the strings
  they print stay what they are.
\<close>

lemma kprintf_all_shows:
  assumes "ok s" "list_all (\<lambda>(ps, t). chars_of t = pieces_text ps \<and> proper t \<and> length (pieces_text ps) + 2 \<le> n \<and>
      length (pieces_text ps) + 2 \<le> 256 + length (pieces_format ps) \<and>
      list_all (piece_ok {a. device a \<or> in_region buf n a} (memory s)) ps) msgs"
    and "\<forall>k<n. \<not> device (buf + of_nat k)" "n < 2 ^ 31"
  shows "\<exists>s'. kprintf_all write_vga memory set_memory buf (map (message_of \<circ> fst) msgs) s = Inr s' \<and> ok s' \<and>
    shown s' = fold (render LightGrey \<circ> snd) msgs (shown s) \<and>
    (\<forall>a. \<not> device a \<and> \<not> in_region buf n a \<longrightarrow> memory s' a = memory s a)"
  using assms(1,2)
proof (induction msgs arbitrary: s)
  case (Cons x msgs)
  obtain ps t where x: "x = (ps, t)" by fastforce
  let ?B = "{a. device a \<or> in_region buf n a}"
  have ps: "chars_of t = pieces_text ps" "proper t" "length (pieces_text ps) + 2 \<le> n"
    "length (pieces_text ps) + 2 \<le> 256 + length (pieces_format ps)" "list_all (piece_ok ?B (memory s)) ps"
    using Cons.prems(2) by (simp_all add: x)
  have "{a. in_region buf (length (pieces_text ps) + 2) a} \<subseteq> ?B" using region_mono [OF ps(3)] by blast
  then have "list_all (piece_ok {a. in_region buf (length (pieces_text ps) + 2) a} (memory s)) ps"
    using ps(5) piece_ok_mono by (auto simp: list_all_iff)
  moreover have "\<forall>k<length (pieces_text ps) + 2. \<not> device (buf + of_nat k)" using assms(3) ps(3) by simp
  moreover have "length (pieces_text ps) + 2 < 2 ^ 31" using ps(3) assms(4) by simp
  ultimately obtain u where u:
    "kprintf write_vga memory set_memory buf (pieces_format ps) (pieces_args ps) s = Inr u" "ok u"
    "shown u = render LightGrey t (shown s)"
    "\<forall>a. \<not> device a \<longrightarrow> memory u a = store_bytes buf (pieces_text ps @ [0, 0]) (memory s) a"
    using kprintf_shows [OF Cons.prems(1) ps(1,2) _ _ ps(4)] by blast
  have same: "memory u a = memory s a" if "a \<notin> ?B" for a
  proof -
    have "\<not> in_region buf (length (pieces_text ps @ [0, 0])) a" using that region_mono [OF ps(3)] by auto
    then show ?thesis using u(4) that assms(4) ps(3) by (simp add: store_bytes_at)
  qed
  have "piece_ok ?B (memory u) x" if "piece_ok ?B (memory s) x" for x
    using that by (rule piece_ok_cong) (rule same)
  then have "list_all (\<lambda>(ps, t). chars_of t = pieces_text ps \<and> proper t \<and> length (pieces_text ps) + 2 \<le> n \<and>
      length (pieces_text ps) + 2 \<le> 256 + length (pieces_format ps) \<and> list_all (piece_ok ?B (memory u)) ps) msgs"
    using Cons.prems(2) by (fastforce simp: list_all_iff)
  from Cons.IH [OF u(2) this] show ?case using u(1,3) same by (auto simp: x message_of_def)
qed simp

end

section \<open>The print that overflows\<close>

lemma magic_message_overflows:
  "kprintf_all w rd wr buf (loader_messages bs bif @ ms) st = Inl (Undefined ''vsprintf: num overflows'')"
proof -
  let ?pre = "10 # literal '' Magic value is 0x''" and ?post = "literal '', multiboot is at address 0x%x'' @ [10]"
  have fmt: "10 # literal '' Magic value is 0x%08x, multiboot is at address 0x%x'' @ [10] = ?pre @ [37, 48, 56, 120] @ ?post"
    by (simp add: literal_def)
  have "37 \<notin> set ?pre" by (simp add: literal_def)
  then have "vsprintf_loop (?pre @ [37, 48, 56, 120] @ ?post) (i # args) out = Inl (Undefined ''vsprintf: num overflows'')" for i args out
    using vsprintf_loop_08x vsprintf_loop_plain by (metis surj_pair)
  then show ?thesis unfolding loader_messages_def by (simp only: fmt kprintf_all.simps append.simps kprintf_def and_then.simps)
qed

section \<open>The start of the boot on the screen\<close>

text \<open>The messages as pieces, each with the text it shows.\<close>

definition plain :: "piece list \<Rightarrow> piece list \<times> item list" where
  "plain ps = (ps, map Plain (pieces_text ps))"

definition start_texts :: "BootStruct \<Rightarrow> u32 \<Rightarrow> u8 list \<Rightarrow> (piece list \<times> item list) list" where
  "start_texts bs tag t =
     [plain [Chars (10 # 10 # literal '' Kernel starts at 0x''), Hexadecimal (phys_kernel_start bs),
        Chars (literal '', ends at 0x''), Hexadecimal (phys_kernel_end bs), Chars [10]],
      plain [Chars (literal ''Page base directory is at 0x''), Hexadecimal (phys_cr3_addr bs), Chars [10]],
      ([Chars (escape ''1m'' @ 9 # literal ''Starting... '' @ escape ''0m'' @ literal '' '')],
        [Styled [Bold] 9] @ map Plain (literal ''Starting... '') @ [Styled [code.Normal] 32]),
      plain [Chars (literal ''...idt '')],
      plain [Chars (literal ''...''), Str tag t, Chars [32]],
      plain [Chars (literal ''...faulthandler '')],
      plain [Chars (literal ''...irqhandler'' @ 10 # literal '' '')]]"

lemma start_messages: "map (message_of \<circ> fst) (start_texts bs tag t) = start_messages bs tag"
  by (simp add: start_texts_def start_messages_def plain_def message_of_def literal_def)

definition boot_name :: "u8 list" where "boot_name = literal ''annos v0.1.0'' @ [10]"
definition boot_notice :: "u8 list" where "boot_notice = literal ''Copyright (C) 2018 Arthur M'' @ [10]"

definition boot_screen :: "BootStruct \<Rightarrow> u8 list \<Rightarrow> screen" where
  "boot_screen bs t =
     fold (vga_shows LightGrey \<circ> snd) (start_texts bs 0 t)
       (vga_shows LightGrey (map Plain boot_notice)
         (vga_shows LightBlue (map Plain boot_name)
           \<lparr>cells = (\<lambda>i. if i < 2000 then 0x0720 else 0), row = 0, col = 0\<rparr>))"

lemma hex_length:
  assumes "i < (0x10000000 :: u32)"
  shows "length (digits 16 (unat i)) \<le> 7" "c \<in> set (numeral_str 16 (unat i)) \<Longrightarrow> c \<noteq> 27"
  using assms numeral_str_char [of 16 c "unat i"] by (auto simp: digits_length_iff word_less_nat_alt)

lemma start_texts_ok:
  assumes "phys_kernel_start bs < 0x10000000" "phys_kernel_end bs < 0x10000000" "phys_cr3_addr bs < 0x10000000"
    and "cstr m tag t" "27 \<notin> set t" "length t \<le> 64" "\<forall>k\<le>length t. tag + of_nat k \<notin> B"
  shows "list_all (\<lambda>(ps, items). text_chars items = pieces_text ps \<and> list_all item_ok items \<and> length (pieces_text ps) + 2 \<le> 128 \<and>
    length (pieces_text ps) + 2 \<le> 256 + length (pieces_format ps) \<and> list_all (piece_ok B m) ps) (start_texts bs tag t)"
  using hex_length(1) [OF assms(1)] hex_length(1) [OF assms(2)] hex_length(1) [OF assms(3)] assms
  by (auto simp: start_texts_def plain_def literal_def escape_def list_all_iff hex_length(2))

lemma banner_shows:
  assumes "cstr (vmem s) name boot_name" "cstr (vmem s) notice boot_notice"
    and "off_screen name (length boot_name)" "off_screen notice (length boot_notice)"
  shows "\<exists>v. banner name notice s = Inr v \<and> on_screen v \<and>
    screen_of v = vga_shows LightGrey (map Plain boot_notice) (vga_shows LightBlue (map Plain boot_name) (screen_of (Clear s))) \<and>
    (\<forall>a. \<not> in_framebuffer a \<longrightarrow> vmem v a = vmem s a)"
proof -
  have ok: "on_screen (Clear s)" by (simp add: Clear_def on_screen_def)
  have proper: "list_all item_ok (map Plain boot_name)" "list_all item_ok (map Plain boot_notice)"
    by (simp_all add: boot_name_def boot_notice_def literal_def)
  note clear = Clear_screen(2) [of _ s]
  have "cstr (vmem (Clear s)) name boot_name" using cstr_off_screen [OF clear assms(3)] assms(1) by simp
  then obtain v1 where v1: "WriteVGA name LightBlue (Clear s) = Inr v1" "on_screen v1"
    "screen_of v1 = vga_shows LightBlue (map Plain boot_name) (screen_of (Clear s))"
    "\<forall>a. \<not> in_framebuffer a \<longrightarrow> vmem v1 a = vmem (Clear s) a"
    using vga.writes [OF ok _ proper(1), of name LightBlue] assms(3) by (auto simp: off_screen_def)
  then have m1: "vmem v1 a = vmem s a" if "\<not> in_framebuffer a" for a using clear that by simp
  have "cstr (vmem v1) notice boot_notice" using cstr_off_screen [OF m1 assms(4)] assms(2) by simp
  then obtain v2 where "WriteVGA notice LightGrey v1 = Inr v2" "on_screen v2"
    "screen_of v2 = vga_shows LightGrey (map Plain boot_notice) (screen_of v1)"
    "\<forall>a. \<not> in_framebuffer a \<longrightarrow> vmem v2 a = vmem v1 a"
    using vga.writes [OF v1(2) _ proper(2), of notice LightGrey] assms(4) by (auto simp: off_screen_def)
  then show ?thesis using v1(1,3) m1 by (simp add: banner_def)
qed

text \<open>
  C40. Every boot with the right magic number shows the banner and the first seven messages on a cleared
  screen, and then comes to the message with the magic number: its \<open>%08x\<close> writes behind the local
  array of the formatter, and what happens from there on is undefined.
\<close>

theorem boot_output:
  assumes "cstr (vmem s) name boot_name" "cstr (vmem s) notice boot_notice" "cstr (vmem s) tag t"
    and "off_screen name (length boot_name)" "off_screen notice (length boot_notice)" "off_screen tag (length t)"
    and "\<forall>k<128. \<not> in_framebuffer (buf + of_nat k)" "\<forall>k\<le>length t. \<not> in_region buf 128 (tag + of_nat k)"
    and "27 \<notin> set t" "length t \<le> 64"
    and "phys_kernel_start bs < 0x10000000" "phys_kernel_end bs < 0x10000000" "phys_cr3_addr bs < 0x10000000"
  shows "(\<exists>v. and_then (banner name notice s) (kprintf_all WriteVGA vmem (\<lambda>m s. s\<lparr>vmem := m\<rparr>) buf (start_messages bs tag)) = Inr v \<and>
      screen_of v = boot_screen bs t) \<and>
    kernel_output name notice buf tag bs bif detected s = Inl (Undefined ''vsprintf: num overflows'')"
proof -
  obtain v2 where v2: "banner name notice s = Inr v2" "on_screen v2"
    "screen_of v2 = vga_shows LightGrey (map Plain boot_notice) (vga_shows LightBlue (map Plain boot_name) (screen_of (Clear s)))"
    "\<forall>a. \<not> in_framebuffer a \<longrightarrow> vmem v2 a = vmem s a"
    using banner_shows [OF assms(1,2,4,5)] by (elim exE conjE) (rule that)
  have tag: "cstr (vmem v2) tag t" using cstr_off_screen [of "vmem v2" "vmem s" tag t] v2(4) assms(3,6) by blast
  have "\<forall>k\<le>length t. tag + of_nat k \<notin> {a. in_framebuffer a \<or> in_region buf 128 a}"
    using assms(6,8) by (simp add: off_screen_def)
  note texts = start_texts_ok [OF assms(11-13) tag assms(9,10) this]
  have "(128 :: nat) < 2 ^ 31" by simp
  note on_vga = vga.kprintf_all_shows [OF v2(2) texts assms(7) this, unfolded start_messages]
  obtain v where v: "kprintf_all WriteVGA vmem (\<lambda>m s. s\<lparr>vmem := m\<rparr>) buf (start_messages bs tag) v2 = Inr v"
    "screen_of v = fold (vga_shows LightGrey \<circ> snd) (start_texts bs tag t) (screen_of v2)"
    using on_vga by (elim exE conjE) (rule that)
  have "map snd (start_texts bs tag t) = map snd (start_texts bs 0 t)" by (simp add: start_texts_def plain_def)
  then have "fold (vga_shows LightGrey) (map snd (start_texts bs tag t)) = fold (vga_shows LightGrey) (map snd (start_texts bs 0 t))"
    by (rule arg_cong)
  then have "screen_of v = boot_screen bs t" using v(2) v2(3) by (simp add: boot_screen_def Clear_screen(1) fold_map)
  moreover have "kprintf_all WriteVGA vmem (\<lambda>m s. s\<lparr>vmem := m\<rparr>) buf
      (start_messages bs tag @ loader_messages bs bif @ device_messages detected) v2 = Inl (Undefined ''vsprintf: num overflows'')"
    unfolding kprintf_all_append [of _ _ _ _ "start_messages bs tag"] using v(1) by (simp add: magic_message_overflows)
  ultimately show ?thesis using v(1) v2(1) by (simp add: kernel_output_def)
qed

definition output_boot :: BootStruct where
  "output_boot = \<lparr>magic = 0x2badb002, multiboot_phys_ptr = 0x9000, phys_kernel_start = 0x100000,
     phys_kernel_end = 0x120000, phys_virt_offset = 0xc0000000, phys_cr3_addr = 0x110000\<rparr>"

definition output_vga :: vga where
  "output_vga = \<lparr>history = [], answer8 = (\<lambda>_ _. 0), answer16 = (\<lambda>_ _. 0), answer32 = (\<lambda>_ _. 0),
     vmem = store_bytes 0x1000 (boot_name @ [0]) (store_bytes 0x1100 (boot_notice @ [0])
       (store_bytes 0x1200 (literal ''i8259'' @ [0]) (\<lambda>_. 0))), xPos = 3, yPos = 7\<rparr>"

theorem boot_output_witness:
  "\<exists>v. and_then (banner 0x1000 0x1100 output_vga)
      (kprintf_all WriteVGA vmem (\<lambda>m s. s\<lparr>vmem := m\<rparr>) 0x7000 (start_messages output_boot 0x1200)) = Inr v \<and>
    screen_of v = boot_screen output_boot (literal ''i8259'')"
proof -
  have "cstr (vmem output_vga) 0x1000 boot_name" "cstr (vmem output_vga) 0x1100 boot_notice"
    "cstr (vmem output_vga) 0x1200 (literal ''i8259'')"
    by (simp_all add: output_vga_def boot_name_def boot_notice_def literal_def)
  moreover have "off_screen 0x1000 (length boot_name)" "off_screen 0x1100 (length boot_notice)" "off_screen 0x1200 (length (literal ''i8259''))"
    unfolding off_screen_def by (intro allI impI below_framebuffer; simp add: boot_name_def boot_notice_def literal_def)+
  moreover have "\<forall>k<128. \<not> in_framebuffer (0x7000 + of_nat k)" by (intro allI impI below_framebuffer) simp
  moreover have "\<forall>k\<le>length (literal ''i8259''). \<not> in_region 0x7000 128 (0x1200 + of_nat k)"
  proof -
    have "k = 0 \<or> k = 1 \<or> k = 2 \<or> k = 3 \<or> k = 4 \<or> k = 5" if "k \<le> 5" for k :: nat using that by auto
    then have "\<forall>k\<le>5. \<not> in_region 0x7000 128 (0x1200 + of_nat k)" by (fastforce simp: in_region_def)
    then show ?thesis by (simp add: literal_def)
  qed
  moreover have "27 \<notin> set (literal ''i8259'')" "length (literal ''i8259'') \<le> 64" by (simp_all add: literal_def)
  ultimately show ?thesis
    by (intro boot_output [THEN conjunct1]) (simp_all add: output_boot_def)
qed

end
