(* ===== verification/Boot_Entry.thy ===== *)
theory Boot_Entry
  imports Boot
begin

text \<open>
  The boot code (boot/x86/entry.S): the multiboot header, the structure for \<open>kernel_main\<close>, the page
  tables the kernel starts with, the switch to paging, the segments and the call of \<open>kernel_main\<close>. The
  registers it uses on the way are not part of the state: each is loaded before it is used.
\<close>

unbundle bit_operations_syntax

section \<open>The image\<close>

definition multiboot_header :: "u32 list" where
  "multiboot_header =
     (let ALIGN = push_bit 0 1; MEMINFO = push_bit 1 1; FLAGS = ALIGN OR MEMINFO; MAGIC = 0x1BADB002
      in [MAGIC, FLAGS, - (MAGIC + FLAGS)])"

abbreviation (input) KERNEL_VIRT_OFFSET :: u32 where "KERNEL_VIRT_OFFSET \<equiv> 0xc0000000"

text \<open>
  The labels of the section .bss, from the address \<open>b\<close> of \<open>stack_bottom\<close> on, which the linker decides:
  the stack, the structure with its six words, and the tables at the next page.
\<close>

definition stack_top :: "u32 \<Rightarrow> u32" where "stack_top b = b + 32768"
definition kboot_struct :: "u32 \<Rightarrow> u32" where "kboot_struct b = stack_top b"
definition BootPageDirectory :: "u32 \<Rightarrow> u32" where "BootPageDirectory b = (kboot_struct b + 24 + 0xfff) AND NOT 0xfff"
definition BootPageTableLow :: "u32 \<Rightarrow> u32" where "BootPageTableLow b = BootPageDirectory b + 4096"
definition BootPageTableHigh :: "u32 \<Rightarrow> u32" where "BootPageTableHigh b = BootPageTableLow b + 4096"

text \<open>The start of the image (linker.ld); its end \<open>kend\<close> is again decided by the linker.\<close>

definition p_kernel_start :: u32 where "p_kernel_start = 0xc0100000"

section \<open>The global descriptor table\<close>

definition gdt_tables :: "(u32 \<times> u32) list" where
  "gdt_tables = [(0, 0), (0x0000ffff, 0x00CF9A00), (0x0000ffff, 0x00CF9200)]"

text \<open>The size field of \<open>gdt_descriptor\<close>: \<open>(gdt_tables_end - gdt_tables) - 1\<close>.\<close>

definition gdt_limit :: u16 where "gdt_limit = of_nat (8 * length gdt_tables) - 1"

text \<open>
  The processor's view of a selector: base, last byte (with the granularity bit in pages), whether
  the segment is code, and the privilege level; \<open>None\<close> if there is no present descriptor.
\<close>

definition segment :: "u16 \<Rightarrow> (u32 \<times> u32 \<times> bool \<times> u32) option" where
  "segment sel =
     (let i = unat (sel AND NOT 7)
      in if i + 7 > unat gdt_limit \<or> i = 0 then None
         else let (low, high) = gdt_tables ! (i div 8);
                  base = drop_bit 16 low OR push_bit 16 (high AND 0xff) OR (high AND 0xff000000);
                  limit = (low AND 0xffff) OR (high AND 0xf0000);
                  limit = (if bit high 23 then push_bit 12 limit OR 0xfff else limit)
              in if bit high 15 then Some (base, limit, bit high 11, drop_bit 13 high AND 3) else None)"

section \<open>Before paging\<close>

text \<open>
  The code runs at physical addresses, so it subtracts the offset from every label. The pointer
  to the boot loader's structure goes through the stack; \<open>a0\<close> and \<open>b0\<close> are what EAX and EBX hold at the start.
\<close>

definition fill_boot_struct :: "u32 \<Rightarrow> u32 \<Rightarrow> u32 \<Rightarrow> u32 \<Rightarrow> (u32 \<Rightarrow> u32) \<Rightarrow> u32 \<Rightarrow> u32" where
  "fill_boot_struct b kend a0 b0 m =
     (let sp = stack_top b - KERNEL_VIRT_OFFSET;
          m = m(sp - 4 := b0);
          p = kboot_struct b - KERNEL_VIRT_OFFSET;
          bif = m (sp - 4)
      in m(p := a0, p + 4 := bif, p + 8 := p_kernel_start - KERNEL_VIRT_OFFSET,
           p + 12 := kend - KERNEL_VIRT_OFFSET))"

definition fill_boot_page_dir :: "u32 \<Rightarrow> (u32 \<Rightarrow> u32) \<Rightarrow> u32 \<Rightarrow> u32" where
  "fill_boot_page_dir b m =
     (let dir = BootPageDirectory b - KERNEL_VIRT_OFFSET
      in m(dir := 0x03 OR (BootPageTableLow b - KERNEL_VIRT_OFFSET),
           dir + 0xc00 := 0x03 OR (BootPageTableHigh b - KERNEL_VIRT_OFFSET)))"

definition fill_boot_page_tables :: "u32 \<Rightarrow> (u32 \<Rightarrow> u32) \<Rightarrow> u32 \<Rightarrow> u32" where
  "fill_boot_page_tables b m =
     (let low = BootPageTableLow b - KERNEL_VIRT_OFFSET;
          high = BootPageTableHigh b - KERNEL_VIRT_OFFSET
      in for_upto (\<lambda>i m. let e = push_bit 12 (of_nat i) OR 3
                         in m(high + 4 * of_nat i := e, low + 4 * of_nat i := e)) 0x400 m)"

definition enable_paging :: "u32 \<Rightarrow> VMM \<Rightarrow> VMM" where
  "enable_paging b s =
     (let p = kboot_struct b - KERNEL_VIRT_OFFSET;
          dir = BootPageDirectory b - KERNEL_VIRT_OFFSET
      in s\<lparr>pmem := (pmem s)(p + 20 := dir), cr3 := dir\<rparr>)"

section \<open>With paging\<close>

text \<open>A letter in a corner of the screen: the lower half of the word at \<open>v\<close>.\<close>

definition vwrite16 :: "VMM \<Rightarrow> u32 \<Rightarrow> u16 \<Rightarrow> VMM result" where
  "vwrite16 s v x = and_then (vread s v) (\<lambda>old. vwrite s v ((old AND 0xffff0000) OR ucast x))"

text \<open>
  From \<open>_start\<close> to the call of \<open>kernel_main\<close>, which gets its argument on the stack: \<open>a0\<close> and \<open>b0\<close> are
  what the boot loader passes in EAX and EBX, \<open>link\<close> is the address behind the call. EBX still holds
  the physical address of the structure when its last field is filled. The result is the argument.
\<close>

definition boot_entry :: "u32 \<Rightarrow> u32 \<Rightarrow> u32 \<Rightarrow> u32 \<Rightarrow> u32 \<Rightarrow> VMM \<Rightarrow> (u32 \<times> VMM) result" where
  "boot_entry b kend link a0 b0 s =
     (let s = s\<lparr>pmem := fill_boot_page_tables b (fill_boot_page_dir b (fill_boot_struct b kend a0 b0 (pmem s)))\<rparr>;
          s = enable_paging b s
      in and_then (vwrite s (kboot_struct b - KERNEL_VIRT_OFFSET + 16) 0xc0000000) (\<lambda>s.
         and_then (vwrite16 s 0xb8004 0x0f41) (\<lambda>s.
         and_then (vwrite s (stack_top b - 4) (kboot_struct b)) (\<lambda>s.
         and_then (vwrite s (stack_top b - 8) link) (\<lambda>s.
           Inr (kboot_struct b, s))))))"

text \<open>How \<open>kernel_main\<close> reads its argument.\<close>

definition read_BootStruct :: "mem \<Rightarrow> u32 \<Rightarrow> BootStruct" where
  "read_BootStruct m p =
     \<lparr>magic = load32 m p, multiboot_phys_ptr = load32 m (p + 4), phys_kernel_start = load32 m (p + 8),
      phys_kernel_end = load32 m (p + 12), phys_virt_offset = load32 m (p + 16), phys_cr3_addr = load32 m (p + 20)\<rparr>"

end
