(* ===== verification/Boot_Memory.thy ===== *)
theory Boot_Memory
  imports Boot Libk_Format PMM_Properties VMM_Memory
begin

text \<open>
  The boot and the memory: what the kernel makes of the boot loader's memory map, and the two
  memory managers it sets up from it.
\<close>

unbundle bit_operations_syntax

section \<open>The memory map\<close>

text \<open>Where the loader says the map lies and how long it is.\<close>

definition bif_mmap_length :: "mem \<Rightarrow> u32 \<Rightarrow> u32" where "bif_mmap_length m bif = mmap_length (read_MultibootBIF m bif)"
definition bif_mmap_addr :: "mem \<Rightarrow> u32 \<Rightarrow> u32" where "bif_mmap_addr m bif = mmap_addr (read_MultibootBIF m bif)"

lemma bif_loads: "bif_mmap_length m bif = load32 m (bif + 44)" "bif_mmap_addr m bif = load32 m (bif + 48)"
  by (simp_all add: bif_mmap_length_def bif_mmap_addr_def read_MultibootBIF_def)

text \<open>
  Entry \<open>i\<close> of the map as the boot loader lays it out: 24 bytes each, the size field first. The
  kernel keeps the lower halves of the 64-bit fields.
\<close>

definition multiboot_area :: "mem \<Rightarrow> u32 \<Rightarrow> nat \<Rightarrow> MemoryMap" where
  "multiboot_area m a i =
     (let e = a + of_nat (24 * i)
      in \<lparr>mm_start = ucast (load64 m (e + 4)), mm_len = ucast (load64 m (e + 12)), mm_type = load32 m (e + 20)\<rparr>)"

text \<open>A map of \<open>n\<close> entries, each with 20 bytes behind its size field.\<close>

definition multiboot_map :: "mem \<Rightarrow> u32 \<Rightarrow> nat \<Rightarrow> bool" where
  "multiboot_map m bif n \<longleftrightarrow> mmap_size m (bif_mmap_addr m bif) = 20 \<and>
     unat (bif_mmap_length m bif) = 24 * n \<and> 0 < n"

lemma memory_map_entries:
  assumes "multiboot_map m (multiboot_phys_ptr bs) n"
  shows "memory_map m bs =
    Inr (map (multiboot_area m (bif_mmap_addr m (multiboot_phys_ptr bs))) [0..<n + (n - 1) div 5])"
proof -
  let ?bif = "multiboot_phys_ptr bs"
  let ?len = "bif_mmap_length m ?bif"
  have len: "unat ?len = 24 * n" "0 < n" "mmap_size m (bif_mmap_addr m ?bif) = 20"
    using assms by (simp_all add: multiboot_map_def)
  then have "4 \<le> ?len" by (simp add: word_le_nat_alt)
  then have "unat (?len - 4) = 24 * n - 4" using len(1) by (simp add: unat_sub_le)
  then have "unat ((?len - 4) div 20) = (24 * n - 4) div 20" by (simp add: unat_div_distrib)
  also have "24 * n - 4 = 20 * n + 4 * (n - 1)" using len(2) by simp
  also have "\<dots> div 20 = n + (n - 1) div 5" by simp
  finally have count: "unat ((?len - 4) div 20) = n + (n - 1) div 5" .
  have "n + (n - 1) div 5 < 2 ^ 31" using unat_less_u32 [of ?len] len(1) by simp
  then have "\<not> (?len - 4) div 20 <s 0"
    using count by (simp add: word_sless_alt sint_u32)
  moreover have "\<lparr>mm_start = ucast (area_addr (mmap_area m a (of_nat i))), mm_len = ucast (area_len (mmap_area m a (of_nat i))),
      mm_type = area_type (mmap_area m a (of_nat i))\<rparr> = multiboot_area m a i" for a i
    by (simp add: multiboot_area_def mmap_area_def read_MultibootArea_def Let_def ac_simps)
  ultimately show ?thesis
    using len(3) count by (simp add: memory_map_def Let_def bif_mmap_length_def bif_mmap_addr_def)
qed

text \<open>
  C38. The kernel divides the length of the map by the 20 of the size field, not by the 24 bytes an
  entry takes: of a map of \<open>n\<close> entries it makes \<open>n + (n - 1) div 5\<close>. Up to five entries the map is
  exact but for the upper halves of addresses and lengths; from six on it ends with areas made
  of whatever lies behind the map.
\<close>

theorem memory_map_overcounts:
  assumes "multiboot_map m (multiboot_phys_ptr bs) n"
  shows "\<exists>areas extra. memory_map m bs = Inr (areas @ extra) \<and>
    areas = map (multiboot_area m (bif_mmap_addr m (multiboot_phys_ptr bs))) [0..<n] \<and>
    length extra = (n - 1) div 5 \<and> (extra = [] \<longleftrightarrow> n \<le> 5) \<and>
    (\<forall>i<n. unat (mm_start (areas ! i)) =
      unat (load64 m (bif_mmap_addr m (multiboot_phys_ptr bs) + of_nat (24 * i) + 4)) mod 2 ^ 32)"
proof -
  let ?area = "multiboot_area m (bif_mmap_addr m (multiboot_phys_ptr bs))"
  have split: "[0..<n + (n - 1) div 5] = [0..<n] @ [n..<n + (n - 1) div 5]" by (rule upt_add_eq_append) simp
  have "memory_map m bs = Inr (map ?area [0..<n] @ map ?area [n..<n + (n - 1) div 5])"
    unfolding memory_map_entries [OF assms] split by simp
  moreover have "(n - 1) div 5 = 0 \<longleftrightarrow> n \<le> 5" by auto
  moreover have "unat (mm_start (?area i)) = unat (load64 m (bif_mmap_addr m (multiboot_phys_ptr bs) + of_nat (24 * i) + 4)) mod 2 ^ 32" for i
    by (simp add: multiboot_area_def Let_def unat_ucast_mod)
  ultimately show ?thesis by (intro exI [of _ "map ?area [0..<n]"] exI [of _ "map ?area [n..<n + (n - 1) div 5]"]) auto
qed

text \<open>
  A boot structure, and a loader's map of \<open>n\<close> entries at 0x9100, of which the first two are 640 kB
  below 1 MB and 16 MB from 1 MB on.
\<close>

definition sample_boot :: BootStruct where
  "sample_boot = \<lparr>magic = 0x2badb002, multiboot_phys_ptr = 0x9000, phys_kernel_start = 0x100000,
     phys_kernel_end = 0x120000, phys_virt_offset = 0xc0000000, phys_cr3_addr = 0x110000\<rparr>"

definition loader_mem :: "u8 \<Rightarrow> mem" where
  "loader_mem map_bytes = (\<lambda>_. 0)
     (0x902c := map_bytes, 0x9031 := 0x91,
      0x9100 := 20, 0x910d := 0xf0, 0x910e := 0x09, 0x9114 := 1,
      0x9118 := 20, 0x911e := 0x10, 0x9127 := 0x01, 0x912c := 1)"

lemma loader_map:
  assumes m: "\<And>v. v < 0x10000 \<Longrightarrow> m v = loader_mem b v"
  shows "unat b = 24 * n \<Longrightarrow> 0 < n \<Longrightarrow> multiboot_map m 0x9000 n"
    "bif_mmap_addr m 0x9000 = 0x9100" "map (multiboot_area m 0x9100) [0..<2] = sample_mmap"
proof -
  show addr: "bif_mmap_addr m 0x9000 = 0x9100"
    by (simp add: bif_loads load32_def load16_def m loader_mem_def)
  have "unat (ucast b :: u32) = unat b" using unsigned_less [of b, where 'a = nat] by (simp add: unat_ucast_mod)
  moreover have "bif_mmap_length m 0x9000 = ucast b"
    by (simp add: bif_loads load32_def load16_def m loader_mem_def) (rule bit_word_eqI; auto simp: bit_simps dest: bit_imp_le_length)
  moreover have "mmap_size m 0x9100 = 20"
    by (simp add: mmap_size_def load32_def load16_def m loader_mem_def)
  ultimately show "unat b = 24 * n \<Longrightarrow> 0 < n \<Longrightarrow> multiboot_map m 0x9000 n"
    by (simp add: multiboot_map_def addr)
  show "map (multiboot_area m 0x9100) [0..<2] = sample_mmap"
    by (simp add: multiboot_area_def load64_def load32_def load16_def m loader_mem_def sample_mmap_def upt_rec)
qed

theorem memory_map_overcounts_witness:
  "\<exists>areas extra. memory_map (loader_mem 144) sample_boot = Inr (areas @ extra) \<and> length areas = 6 \<and> length extra = 1"
proof -
  have "multiboot_map (loader_mem 144) (multiboot_phys_ptr sample_boot) 6"
    using loader_map(1) [of "loader_mem 144" 144 6] by (simp add: sample_boot_def)
  from memory_map_overcounts [OF this] show ?thesis by fastforce
qed

section \<open>The memory managers\<close>

lemma init_zones_starts: "map start (fst (init_zones areas kend m)) = map mm_start areas"
  by (induction areas arbitrary: kend m) (simp_all add: Let_def split_def)

lemma MapPages_starts: "map start (zones (snd (MapPages s a n))) = map start (zones s)"
  by (auto simp: MapPages_def Let_def list_eq_iff_nth_eq intro!: nth_list_update_field split: option.split)

lemma PMM_init_starts: "PMM_init ks off pool areas m = Inr s \<Longrightarrow> map start (zones s) = map mm_start areas"
proof -
  assume init: "PMM_init ks off pool areas m = Inr s"
  obtain zs kend m' where z: "init_zones areas (pool + sizeof_PMMZone * of_nat (length areas)) m = (zs, kend, m')"
    by (cases "init_zones areas (pool + sizeof_PMMZone * of_nat (length areas)) m") auto
  then obtain x n where "MapPages \<lparr>zones = zs, bitmap_mem = m'\<rparr> ks n = (x, s)"
    using init by (auto simp: PMM_init_def Let_def split: prod.splits if_splits)
  then show "map start (zones s) = map mm_start areas"
    using MapPages_starts [of "\<lparr>zones = zs, bitmap_mem = m'\<rparr>" ks n]
      init_zones_starts [of areas "pool + sizeof_PMMZone * of_nat (length areas)" m] z by simp
qed

text \<open>The page tables of the boot code lie in the frames \<open>F\<close>.\<close>

definition tables_inside :: "VMM \<Rightarrow> nat set \<Rightarrow> bool" where
  "tables_inside vmm F \<longleftrightarrow>
     (\<forall>pmm. pmm_wf pmm \<longrightarrow> aligned_zones pmm \<longrightarrow> F \<subseteq> used_frames pmm \<longrightarrow> boot_tables vmm pmm)"

text \<open>The frames of the kernel's image and of the tables of the memory manager behind it.\<close>

definition kernel_frames :: "BootStruct \<Rightarrow> MemoryMap list \<Rightarrow> nat set" where
  "kernel_frames bs areas = frames (unat (phys_kernel_start bs))
     (unat (reserved_pages (phys_kernel_start bs) (phys_virt_offset bs) (phys_kernel_end bs + phys_virt_offset bs) areas))"

text \<open>
  A boot loader's map of at most five page-aligned areas that do not overlap, area \<open>i\<close> with room
  for the kernel and for the bitmaps behind it.
\<close>

definition loader_areas :: "mem \<Rightarrow> BootStruct \<Rightarrow> nat \<Rightarrow> MemoryMap list" where
  "loader_areas m bs n = map (multiboot_area m (bif_mmap_addr m (multiboot_phys_ptr bs))) [0..<n]"

definition loader_ok :: "mem \<Rightarrow> BootStruct \<Rightarrow> nat \<Rightarrow> nat \<Rightarrow> bool" where
  "loader_ok m bs n i \<longleftrightarrow>
     (let areas = loader_areas m bs n; ks = phys_kernel_start bs; pool = phys_kernel_end bs + phys_virt_offset bs
      in multiboot_map m (multiboot_phys_ptr bs) n \<and> n \<le> 5 \<and> mmap_ok areas \<and>
         (\<forall>a\<in>set areas. unat (mm_start a) mod 4096 = 0) \<and> unat ks mod 4096 = 0 \<and>
         unat (tables_start pool areas) + bitmaps_size areas < 2 ^ 32 \<and>
         i < n \<and> unat (mm_start (areas ! i)) \<le> unat ks \<and>
         (unat ks - unat (mm_start (areas ! i))) div 4096 + unat (reserved_pages ks (phys_virt_offset bs) pool areas)
           \<le> unat (mmap_pagecount (areas ! i)))"

text \<open>What the boot makes of the translations: page 0 and the pages 0xf0 to 0x3ef are unmapped.\<close>

definition identity_removed :: "VMM \<Rightarrow> VMM \<Rightarrow> bool" where
  "identity_removed s t \<longleftrightarrow> (\<forall>v. page_number v < 1047552 \<longrightarrow> translate t v =
     (if page_number v = 0 \<or> 0xf0 \<le> page_number v \<and> page_number v < 0x3f0 then None else translate s v))"

text \<open>Memory is what it was wherever it is still mapped, but for the page tables.\<close>

definition memory_kept :: "VMM \<Rightarrow> VMM \<Rightarrow> bool" where
  "memory_kept s t \<longleftrightarrow> (\<forall>v a. page_number v < 1047552 \<and> translate t v = Some a \<and>
     frame a \<notin> insert (cr3 s) (tables s) \<longrightarrow> virtual_mem t v = virtual_mem s v)"

lemma memory_kept:
  assumes "identity_removed s t" "\<forall>a. frame a \<notin> insert (cr3 s) (tables s) \<longrightarrow> pmem t a = pmem s a"
  shows "memory_kept s t"
  unfolding memory_kept_def
proof (intro allI impI)
  fix v a
  assume a: "page_number v < 1047552 \<and> translate t v = Some a \<and> frame a \<notin> insert (cr3 s) (tables s)"
  then have "translate s v = Some a" using assms(1) unfolding identity_removed_def by (metis option.distinct(1))
  moreover have "phys_byte (pmem t) a = phys_byte (pmem s) a" by (rule phys_byte_cong) (use assms(2) a in auto)
  ultimately show "virtual_mem t v = virtual_mem s v" using a by (simp add: virtual_mem_def)
qed

text \<open>
  From a boot loader's map of at most five page-aligned areas that do not overlap, the boot
  sets up both memory managers: the pages in use are those of the kernel and of the tables, the
  invariants of both managers hold, and the addresses translate as before but for the part of
  the identity mapping that is removed. Memory that is still mapped is what it was, but for the
  page tables.
\<close>

lemma init_memory_char:
  fixes bs :: BootStruct and m :: mem and n i :: nat
  defines "areas \<equiv> loader_areas m bs n" and "pool \<equiv> phys_kernel_end bs + phys_virt_offset bs"
  assumes ok: "loader_ok m bs n i"
    and tables: "tables_inside vmm (kernel_frames bs (loader_areas m bs n))" "phys_cr3_addr bs = cr3 vmm"
  shows "\<exists>t. init_memory m vmm bs = Inr t \<and> vmm_wf t \<and>
    used_frames (vmm_pmm t) = kernel_frames bs (loader_areas m bs n) \<and> identity_removed vmm t \<and> memory_kept vmm t"
proof -
  have map: "multiboot_map m (multiboot_phys_ptr bs) n" "n \<le> 5" "mmap_ok areas"
      "\<forall>a\<in>set areas. unat (mm_start a) mod 4096 = 0"
    and room: "unat (tables_start pool areas) + bitmaps_size areas < 2 ^ 32" "i < n"
      "unat (mm_start (areas ! i)) \<le> unat (phys_kernel_start bs)" "unat (phys_kernel_start bs) mod 4096 = 0"
      "(unat (phys_kernel_start bs) - unat (mm_start (areas ! i))) div 4096 +
         unat (reserved_pages (phys_kernel_start bs) (phys_virt_offset bs) pool areas) \<le> unat (mmap_pagecount (areas ! i))"
    using ok unfolding loader_ok_def Let_def areas_def pool_def by blast+
  note areas = areas_def [unfolded loader_areas_def]
  have "(n - 1) div 5 = 0" using map(2) by simp
  then have mm: "memory_map m bs = Inr areas" by (simp add: memory_map_entries [OF map(1)] areas)
  have len: "i < length areas" using room(2) by (simp add: areas)
  have aligned: "unat (mm_start (areas ! i)) mod 4096 = 0" using map(4) len by simp
  have ks: "phys_kernel_start bs \<noteq> MAP_FAILED" using room(4) by auto
  have "4096 dvd unat (phys_kernel_start bs) - unat (mm_start (areas ! i))"
    by (rule dvd_diff_nat) (use aligned room(4) in \<open>simp_all add: mod_eq_0_iff_dvd\<close>)
  then have start: "unat (mm_start (areas ! i)) + 4096 * ((unat (phys_kernel_start bs) - unat (mm_start (areas ! i))) div 4096) =
      unat (phys_kernel_start bs)"
    using room(3) by simp
  obtain pmm where pmm: "PMM_init (phys_kernel_start bs) (phys_virt_offset bs) pool areas m = Inr pmm" "pmm_wf pmm"
    and "used_frames pmm = frames (unat (mm_start (areas ! i)) +
        4096 * ((unat (phys_kernel_start bs) - unat (mm_start (areas ! i))) div 4096))
      (unat (reserved_pages (phys_kernel_start bs) (phys_virt_offset bs) pool areas))"
    by (rule PMM_init_char [OF map(3) room(1) len room(3) ks room(5), of m])
  then have used: "used_frames pmm = kernel_frames bs areas"
    by (simp only: start kernel_frames_def pool_def)
  have "\<forall>x\<in>set (map start (zones pmm)). unat x mod 4096 = 0"
    unfolding PMM_init_starts [OF pmm(1)] using map(4) by simp
  then have "aligned_zones pmm" by (simp add: aligned_zones_def)
  then have "boot_tables vmm pmm" using tables(1) pmm(2) used by (simp add: tables_inside_def areas_def)
  from Init_translates [OF this] obtain t where t: "VMM.Init vmm pmm (cr3 vmm) = Inr t" "vmm_wf t" "vmm_pmm t = pmm"
    "identity_removed vmm t" "memory_kept vmm t"
    using memory_kept unfolding identity_removed_def by blast
  have "init_memory m vmm bs = Inr t"
    using mm pmm(1) t(1) tables(2) by (simp add: init_memory_def pool_def)
  then show ?thesis using t used by (intro exI [of _ t]) (simp add: areas_def)
qed

lemma boot_tables_transfer:
  assumes "boot_tables vmm pmm" "pmm_wf pmm'" "aligned_zones pmm'" "unat (cr3 vmm) \<in> used_frames pmm'"
    "\<forall>d<1023. VMM.present (pde vmm d) \<longrightarrow> unat (frame (pde vmm d)) \<in> used_frames pmm'"
  shows "boot_tables vmm pmm'"
  using assms unfolding boot_tables_def by blast

text \<open>The boot tables with the loader's memory below 1 MB.\<close>

definition loader_vmm :: VMM where
  "loader_vmm = boot_vmm\<lparr>pmem := (\<lambda>a. if a < 0x110000 then load32 (loader_mem 48) a else pmem boot_vmm a)\<rparr>"

lemma loader_slot: "t < 1024 \<Longrightarrow> 0x110000 \<le> unat f \<Longrightarrow> unat f mod 4096 = 0 \<Longrightarrow>
   pmem loader_vmm (f + 4 * of_nat t) = pmem boot_vmm (f + 4 * of_nat t)"
  using unat_slot [of f t] by (simp add: loader_vmm_def word_less_nat_alt)

lemma loader_tables:
  "d < 1024 \<Longrightarrow> pde loader_vmm d = pde boot_vmm d" "cr3 loader_vmm = 0x110000"
  "d \<in> {0, 768} \<Longrightarrow> t < 1024 \<Longrightarrow> pte loader_vmm d t = pte boot_vmm d t"
proof -
  show pd: "pde loader_vmm d = pde boot_vmm d" if "d < 1024" for d
    using loader_slot [OF that, of "0x110000"] by (simp add: pde_def) (simp add: loader_vmm_def boot_vmm_def frame_def)
  show "cr3 loader_vmm = 0x110000" by (simp add: loader_vmm_def boot_vmm_def)
  show "d \<in> {0, 768} \<Longrightarrow> t < 1024 \<Longrightarrow> pte loader_vmm d t = pte boot_vmm d t"
    using loader_slot [of t "frame (pde boot_vmm d)"] pd [of d] by (auto simp: pte_def boot_pde frame_def)
qed

lemma loader_frames: "tables loader_vmm = {0x111000, 0x112000}"
proof -
  have "VMM.present (pde loader_vmm d) \<longleftrightarrow> d = 0 \<or> d = 768" if "d < 1024" for d
    using that by (simp add: loader_tables boot_pde VMM.present_def)
  then have "{d. d < 1024 \<and> VMM.present (pde loader_vmm d)} = {0, 768}" by auto
  then show ?thesis by (simp add: tables_def loader_tables boot_pde frame_def)
qed

lemma boot_tables_cong:
  assumes "cr3 t = cr3 s" "\<And>d. d < 1024 \<Longrightarrow> pde t d = pde s d" "\<And>q. q < 1024 \<Longrightarrow> pte t 0 q = pte s 0 q"
  shows "boot_tables t pmm \<longleftrightarrow> boot_tables s pmm"
  unfolding boot_tables_def using assms by simp

lemma loader_vmm_boot: "boot_tables loader_vmm pmm \<longleftrightarrow> boot_tables boot_vmm pmm"
proof (rule boot_tables_cong)
  show "cr3 loader_vmm = cr3 boot_vmm" by (simp add: loader_vmm_def)
qed (simp_all add: loader_tables)

lemma boot_vmm_inside: "tables_inside loader_vmm (frames 0x100000 33)"
  unfolding tables_inside_def loader_vmm_boot
proof (intro allI impI)
  fix pmm assume pmm: "pmm_wf pmm" "aligned_zones pmm" "frames 0x100000 33 \<subseteq> used_frames pmm"
  have inside: "0x110000 \<in> frames 0x100000 33" "0x111000 \<in> frames 0x100000 33" "0x112000 \<in> frames 0x100000 33"
    unfolding frames_iff by (rule exI [of _ 16], simp) (rule exI [of _ 17], simp, rule exI [of _ 18], simp)
  have frame: "frame (pde boot_vmm 0) = 0x111000" "frame (pde boot_vmm 768) = 0x112000" "cr3 boot_vmm = 0x110000"
    by (simp_all add: boot_pde frame_def) (simp add: boot_vmm_def)
  have "unat (frame (pde boot_vmm d)) \<in> used_frames pmm" if d: "d < 1023" "VMM.present (pde boot_vmm d)" for d
  proof -
    have "d = 0 \<or> d = 768" using d by (simp add: boot_pde VMM.present_def split: if_splits)
    then show ?thesis using frame inside pmm(3) by (auto simp del: One_nat_def)
  qed
  moreover have "unat (cr3 boot_vmm) \<in> used_frames pmm" using frame(3) inside(1) pmm(3) by auto
  ultimately show "boot_tables boot_vmm pmm" using boot_tables_transfer [OF boot_vmm_tables pmm(1,2)] by blast
qed

text \<open>The first 4 MB are seen at their addresses and from 0xC0000000 on.\<close>

lemma loader_translate:
  assumes "page_number v < 1024 \<or> page_number v div 1024 = 768"
  shows "translate loader_vmm v = Some (of_nat (4096 * (page_number v mod 1024)) + (v AND 0xfff))"
proof -
  have q: "page_number v mod 1024 < 1024" by simp
  have d: "page_number v div 1024 \<in> {0, 768}" using assms by auto
  have "pte loader_vmm (page_number v div 1024) (page_number v mod 1024) = of_nat (4096 * (page_number v mod 1024)) OR 3"
    using loader_tables(3) [OF d q] boot_pte [OF d q] by simp
  moreover have "VMM.present (pde loader_vmm (page_number v div 1024))"
    using d by (auto simp: loader_tables boot_pde VMM.present_def)
  ultimately have "VMM_Tables.entry loader_vmm (page_number v) = Some (of_nat (4096 * (page_number v mod 1024)) OR 3)"
    by (simp add: VMM_Tables.entry_def)
  moreover have "unat (of_nat (4096 * (page_number v mod 1024)) :: u32) mod 4096 = 0"
    using q unat_of_nat_small [where 'a = 32, of "4096 * (page_number v mod 1024)"] by simp
  then have "frame (of_nat (4096 * (page_number v mod 1024))) = of_nat (4096 * (page_number v mod 1024))" by (rule frame_id)
  ultimately show ?thesis unfolding translate_entry by simp
qed

lemma loader_frame:
  assumes "q < 0x110"
  shows "unat (frame (of_nat (4096 * q) + (v AND 0xfff))) = 4096 * q"
proof (rule unat_frame_split)
  show off: "unat (v AND 0xfff) < 4096" by (simp add: unat_and_0xfff)
  have "unat (of_nat (4096 * q) :: u32) = 4096 * q" using assms by (intro unat_of_nat_small) simp
  then show "unat (of_nat (4096 * q) + (v AND 0xfff)) = 4096 * q + unat (v AND 0xfff)"
    using off assms by (subst unat_add_small) simp_all
qed

lemma loader_memory:
  assumes "page_number v < 1024 \<or> page_number v div 1024 = 768" "page_number v mod 1024 < 0x110"
  shows "virtual_mem loader_vmm v = loader_mem 48 (of_nat (4096 * (page_number v mod 1024)) + (v AND 0xfff))"
proof -
  let ?q = "page_number v mod 1024"
  let ?a = "of_nat (4096 * ?q) + (v AND 0xfff) :: u32"
  note frame = loader_frame [OF assms(2), of v]
  have "b < 0x110000" if "frame b = frame ?a" for b
  proof -
    have "unat b < unat (frame b) + 4096" by (simp add: unat_frame)
    then show ?thesis using that frame assms(2) by (simp add: word_less_nat_alt)
  qed
  then have "phys_byte (pmem loader_vmm) ?a = phys_byte (load32 (loader_mem 48)) ?a"
    by (intro phys_byte_cong) (simp add: loader_vmm_def)
  then show ?thesis unfolding virtual_mem_def loader_translate [OF assms(1)] by (simp add: phys_byte_load32)
qed

lemma loader_kept:
  assumes "identity_removed loader_vmm t" "memory_kept loader_vmm t"
    and "page_number v < 1024 \<or> page_number v div 1024 = 768" "page_number v mod 1024 < 0x110"
    and "\<not> (page_number v = 0 \<or> 0xf0 \<le> page_number v \<and> page_number v < 0x3f0)" "page_number v < 1047552"
  shows "virtual_mem t v = virtual_mem loader_vmm v"
proof -
  have "translate t v = Some (of_nat (4096 * (page_number v mod 1024)) + (v AND 0xfff))"
    using assms(1,5,6) loader_translate [OF assms(3)] by (simp add: identity_removed_def)
  moreover have "unat (frame (of_nat (4096 * (page_number v mod 1024)) + (v AND 0xfff))) = 4096 * (page_number v mod 1024)"
    by (rule loader_frame [OF assms(4)])
  then have "frame (of_nat (4096 * (page_number v mod 1024)) + (v AND 0xfff)) \<notin> insert (cr3 loader_vmm) (tables loader_vmm)"
    using assms(4) by (auto simp: loader_tables loader_frames)
  ultimately show ?thesis using assms(2,6) unfolding memory_kept_def by blast
qed

lemma sample_loader:
  "loader_areas (virtual_mem loader_vmm) sample_boot 2 = sample_mmap" "loader_ok (virtual_mem loader_vmm) sample_boot 2 1"
  "kernel_frames sample_boot sample_mmap = frames 0x100000 33"
  "tables_inside loader_vmm (kernel_frames sample_boot sample_mmap)" "phys_cr3_addr sample_boot = cr3 loader_vmm"
proof -
  have m: "virtual_mem loader_vmm v = loader_mem 48 v" if "v < 0x10000" for v
  proof -
    have page: "page_number v < 16" using that by (simp add: page_number_def word_less_nat_alt)
    then show ?thesis using loader_memory [of v] page_split [of v] by simp
  qed
  show areas: "loader_areas (virtual_mem loader_vmm) sample_boot 2 = sample_mmap"
    using loader_map(2,3) [OF m] by (simp add: loader_areas_def sample_boot_def)
  have "multiboot_map (virtual_mem loader_vmm) (multiboot_phys_ptr sample_boot) 2"
    using loader_map(1) [OF m, of 2] by (simp add: sample_boot_def)
  moreover have "mm_start (sample_mmap ! Suc 0) = 0x100000" "\<forall>e\<in>set sample_mmap. unat (mm_start e) mod 4096 = 0"
    by (simp_all add: sample_mmap_def)
  ultimately show "loader_ok (virtual_mem loader_vmm) sample_boot 2 1"
    using sample_mmap_facts [unfolded One_nat_def]
    by (simp add: loader_ok_def areas Let_def) (simp add: sample_boot_def)
  show frames: "kernel_frames sample_boot sample_mmap = frames 0x100000 33"
    by (simp add: kernel_frames_def sample_boot_def sample_mmap_facts)
  show "tables_inside loader_vmm (kernel_frames sample_boot sample_mmap)" using boot_vmm_inside by (simp only: frames)
  show "phys_cr3_addr sample_boot = cr3 loader_vmm" by (simp add: sample_boot_def loader_tables)
qed

lemma init_memory_example:
  "\<exists>t. init_memory (virtual_mem loader_vmm) loader_vmm sample_boot = Inr t \<and> vmm_wf t \<and>
    used_frames (vmm_pmm t) = frames 0x100000 33 \<and> translate t 0x100000 = None"
proof -
  obtain t where t: "init_memory (virtual_mem loader_vmm) loader_vmm sample_boot = Inr t" "vmm_wf t"
    "used_frames (vmm_pmm t) = frames 0x100000 33" "identity_removed loader_vmm t"
    using init_memory_char [OF sample_loader(2), unfolded sample_loader(1), OF sample_loader(4,5)]
    unfolding sample_loader(3) by blast
  have "translate t 0x100000 = None" using t(4) by (simp add: identity_removed_def page_number_def)
  then show ?thesis using t by blast
qed

end
