(* ===== verification/SMBIOS_Properties.thy ===== *)
theory SMBIOS_Properties
  imports SMBIOS Libk_Format
begin

text \<open>
  The properties of the SMBIOS reader: which entry point it finds, which strings it returns, and
  where it looks for the next structure.
\<close>

unbundle bit_operations_syntax

section \<open>The entry point\<close>

definition valid_entry :: "mem \<Rightarrow> u32 \<Rightarrow> bool" where
  "valid_entry m a \<longleftrightarrow> anchored m a \<and> (\<Sum>i<unat (entry_length m a). m (a + of_nat i)) = 0"

lemma checksum_sum: "CheckIfChecksumValid m e \<longleftrightarrow> (\<Sum>i<unat (entry_length m e). m (e + of_nat i)) = 0"
proof -
  have "for_upto (\<lambda>i t. t + m (e + of_nat i)) n 0 = (\<Sum>i<n. m (e + of_nat i))" for n
    by (induction n) simp_all
  then show ?thesis by (simp add: CheckIfChecksumValid_def)
qed

lemma detect_loop_index:
  "k \<le> 4096 \<Longrightarrow> detect_loop m (0xc00f0000 + of_nat (16 * (4096 - k))) =
    map_option (\<lambda>i. 0xc00f0000 + of_nat (16 * (4096 - k + i)))
      (first_index (\<lambda>i. valid_entry m (0xc00f0000 + of_nat (16 * i))) [4096 - k..<4096])"
proof (induction k)
  case 0
  then show ?case by (subst detect_loop.simps) simp
next
  case (Suc k)
  let ?i = "4096 - Suc k"
  let ?a = "0xc00f0000 + of_nat (16 * ?i) :: u32"
  have i: "Suc ?i = 4096 - k" "?i < 4096" using Suc.prems by simp_all
  have range: "[?i..<4096] = ?i # [4096 - k..<4096]" using i by (metis upt_conv_Cons)
  have "unat (of_nat (16 * ?i) :: u32) = 16 * ?i" using i(2) by (intro unat_of_nat_small) simp
  then have "unat ?a = 0xc00f0000 + 16 * ?i" using i(2) by (subst unat_add_small) (simp_all del: of_nat_mult)
  then have "?a < 0xc0100000" using i(2) by (simp add: word_less_nat_alt)
  moreover have nxt: "?a + 0x10 = 0xc00f0000 + of_nat (16 * (4096 - k))" unfolding i(1) [symmetric] by simp
  ultimately have "detect_loop m ?a =
      (if valid_entry m ?a then Some ?a else detect_loop m (0xc00f0000 + of_nat (16 * (4096 - k))))"
    by (subst detect_loop.simps) (simp only: nxt valid_entry_def checksum_sum Let_def if_True, simp)
  moreover have "16 * (4096 - k + j) = 16 * (?i + Suc j)" for j using i(1) by simp
  ultimately show ?case
    using Suc unfolding range by (simp add: option.map_comp o_def del: of_nat_add of_nat_mult)
qed

text \<open>
  C34. \<open>Detect\<close> always returns. It finds the lowest 16-byte boundary between 0xf0000 and 0xfffff, as
  the kernel sees it, at which both anchors stand and the bytes of the entry add up to 0, and
  remembers its address; if there is none it reports so and remembers nothing.
\<close>

theorem Detect_first_valid_entry:
  "Detect m entry_addr =
    (case first_index (\<lambda>i. valid_entry m (0xc00f0000 + of_nat (16 * i))) [0..<4096] of
       Some i \<Rightarrow> (True, 0xc00f0000 + of_nat (16 * i))
     | None \<Rightarrow> (False, entry_addr))"
  using detect_loop_index [of 4096 m] by (simp add: Detect_def split: option.split)

section \<open>Strings\<close>

text \<open>
  What stands behind a structure: its strings, each with a NUL, and one more NUL; without strings
  two NULs.
\<close>

definition string_set :: "u8 list list \<Rightarrow> u8 list" where
  "string_set ss = (if ss = [] then [0, 0] else concat (map (\<lambda>s. s @ [0]) ss) @ [0])"

definition printable :: "u8 \<Rightarrow> bool" where
  "printable c \<longleftrightarrow> 31 < unat c \<and> unat c < 127"

definition good_strings :: "u8 list list \<Rightarrow> bool" where
  "good_strings ss \<longleftrightarrow> list_all (\<lambda>s. s \<noteq> [] \<and> list_all printable s) ss"

text \<open>The offset of the string with number \<open>k + 1\<close>.\<close>

definition string_offset :: "u8 list list \<Rightarrow> nat \<Rightarrow> nat" where
  "string_offset ss k = (\<Sum>s\<leftarrow>take k ss. length s + 1)"

lemma printable_signed: "printable c \<Longrightarrow> c \<noteq> 0 \<and> \<not> (sint c \<le> 31 \<or> sint c \<ge> 127)"
proof -
  assume c: "printable c"
  have "uint c = int (unat c)" by simp
  then have u: "31 < uint c" "uint c < 127" using c unfolding printable_def by linarith+
  then have "uint c div 2 ^ 7 = 0" by (intro div_pos_pos_trivial) simp_all
  then have "\<not> bit (uint c) 7" by (simp add: bit_iff_odd)
  then have "sint c = uint c"
    using u by (simp add: sint_uint signed_take_bit_eq_take_bit_minus take_bit_eq_mod mod_pos_pos_trivial)
  moreover have "c \<noteq> 0" using u by auto
  ultimately show ?thesis using u by simp
qed

text \<open>One string is scanned, and what follows it decides whether another one begins.\<close>

lemma get_string_skip:
  assumes "chars m (start + of_nat off) (s @ [0])" "s \<noteq> []" "list_all printable s"
    and "unat hlen + off + length s \<le> unat struct_len" "idx \<noteq> str_idx"
  shows "get_string m start hlen struct_len idx str_idx (of_nat off) =
    (let e = start + of_nat (off + length s)
     in if m (e + 1) = 0 \<and> m (e + 2) \<noteq> 0 then None
        else get_string m start hlen struct_len idx (str_idx + 1) (of_nat (off + length s + 1)))"
  using assms
proof (induction s arbitrary: off)
  case (Cons c s)
  have small: "unat struct_len < 65536" "unat hlen < 256"
    using unsigned_less [of struct_len, where 'a = nat] unsigned_less [of hlen, where 'a = nat] by simp_all
  have "unat (ucast hlen + of_nat off :: u32) = unat hlen + off"
    using Cons.prems(4) small by (subst unat_add_small) (simp_all add: unat_ucast_mod unat_of_nat_small)
  then have bound: "ucast hlen + of_nat off < (ucast struct_len :: u32)"
    using Cons.prems(4) small by (simp add: word_less_nat_alt unat_ucast_mod)
  have nxt: "of_nat off + 1 = (of_nat (off + 1) :: u32)" by simp
  show ?case
  proof (cases s)
    case Nil
    then have "m (start + of_nat (off + 1)) = 0" using Cons.prems(1) by (simp add: add.assoc add.commute add.left_commute)
    then show ?thesis
      using bound Cons.prems(5) Nil
      by (subst get_string.simps) (simp add: Let_def add.assoc add.commute add.left_commute)
  next
    case (Cons d s')
    have d: "m (start + of_nat (off + 1)) = d" "d \<noteq> 0" "\<not> (sint d \<le> 31 \<or> sint d \<ge> 127)"
      using Cons.prems(1,3) printable_signed [of d] Cons by (simp_all add: add.assoc add.commute add.left_commute)
    have "get_string m start hlen struct_len idx str_idx (of_nat off) =
        get_string m start hlen struct_len idx str_idx (of_nat (off + 1))"
      using bound Cons.prems(5) d
      by (subst get_string.simps) (simp only: Let_def nxt if_True if_False simp_thms)
    also have "\<dots> = (let e = start + of_nat (off + 1 + length s)
        in if m (e + 1) = 0 \<and> m (e + 2) \<noteq> 0 then None
           else get_string m start hlen struct_len idx (str_idx + 1) (of_nat (off + 1 + length s + 1)))"
      using Cons.prems Cons by (intro Cons.IH) (simp_all add: add.assoc add.commute add.left_commute)
    finally show ?thesis by (simp add: add.assoc add.commute add.left_commute)
  qed
qed simp

text \<open>A string whose number is reached is found where the scan stands.\<close>

lemma get_string_found:
  assumes "unat hlen + off < unat struct_len"
  shows "get_string m start hlen struct_len idx idx (of_nat off) = Some (start + of_nat off)"
proof -
  have small: "unat struct_len < 65536" "unat hlen < 256"
    using unsigned_less [of struct_len, where 'a = nat] unsigned_less [of hlen, where 'a = nat] by simp_all
  have "unat (ucast hlen + of_nat off :: u32) = unat hlen + off"
    using assms small by (subst unat_add_small) (simp_all add: unat_ucast_mod unat_of_nat_small)
  then have "ucast hlen + of_nat off < (ucast struct_len :: u32)"
    using assms small by (simp add: word_less_nat_alt unat_ucast_mod)
  then show ?thesis by (subst get_string.simps) simp
qed

lemma string_offset_Cons:
  "string_offset (s # ss) (length (s # ss)) = length s + 1 + string_offset ss (length ss)"
  "j < k \<Longrightarrow> string_offset (s # ss) (k - j) = length s + 1 + string_offset ss (k - (j + 1))"
  "string_offset ss 0 = 0"
  by (simp_all add: string_offset_def take_Cons' diff_diff_left [symmetric])

text \<open>The first byte behind the strings is that of a further string, or the second NUL with \<open>t\<close> behind it.\<close>

lemma strings_head:
  assumes "chars m p (concat (map (\<lambda>s. s @ [0]) ss) @ [0, t])" "good_strings ss"
  shows "if ss = [] then m p = 0 \<and> m (p + 1) = t else m p \<noteq> 0"
proof (cases ss)
  case Nil
  then show ?thesis using assms(1) by (simp add: add.assoc)
next
  case (Cons s ss')
  then obtain c cs where "s = c # cs" "printable c" using assms(2) by (cases s) (auto simp: good_strings_def)
  then show ?thesis using assms(1) Cons printable_signed [of c] by auto
qed

text \<open>
  All strings of a structure: a string with a number in range is found, and behind the last one
  the byte after the two NULs decides.
\<close>

lemma get_string_all:
  assumes "chars m (start + of_nat off) (concat (map (\<lambda>s. s @ [0]) ss) @ [0, t])" "good_strings ss" "ss \<noteq> []"
    and "unat hlen + off + string_offset ss (length ss) \<le> unat struct_len" "j + length ss < 2 ^ 32"
  shows "get_string m start hlen struct_len idx (of_nat j) (of_nat off) =
    (if j \<le> unat idx \<and> unat idx < j + length ss then Some (start + of_nat (off + string_offset ss (unat idx - j)))
     else if t \<noteq> 0 then None
     else get_string m start hlen struct_len idx (of_nat (j + length ss)) (of_nat (off + string_offset ss (length ss))))"
  using assms
proof (induction ss arbitrary: off j)
  case (Cons s ss)
  have idx: "idx = of_nat j \<longleftrightarrow> unat idx = j"
    using Cons.prems(5) by (auto simp: unat_of_nat_small)
  note offset = string_offset_Cons(1) [of s ss] string_offset_Cons(2) [of j "unat idx" s ss]
  show ?case
  proof (cases "unat idx = j")
    case True
    then have "idx = of_nat j" using idx by blast
    then show ?thesis using get_string_found [of hlen off struct_len m start idx] Cons.prems(4) True offset(1)
      by (simp add: string_offset_Cons(3))
  next
    case False
    have s: "chars m (start + of_nat off) (s @ [0])" "s \<noteq> []" "list_all printable s"
      and good: "good_strings ss"
      using Cons.prems(1,2) by (simp_all add: good_strings_def)
    let ?p = "start + of_nat (off + length s + 1)"
    have skip: "get_string m start hlen struct_len idx (of_nat j) (of_nat off) =
        (if m ?p = 0 \<and> m (?p + 1) \<noteq> 0 then None
         else get_string m start hlen struct_len idx (of_nat (j + 1)) (of_nat (off + length s + 1)))"
      using get_string_skip [OF s, of hlen struct_len idx "of_nat j"] False idx Cons.prems(4) offset(1)
      by (simp add: Let_def ac_simps)
    have rest: "chars m ?p (concat (map (\<lambda>s. s @ [0]) ss) @ [0, t])"
      using Cons.prems(1) by (simp add: add.assoc add.commute add.left_commute)
    note head = strings_head [OF rest good]
    show ?thesis
    proof (cases "ss = []")
      case True
      then show ?thesis using skip head False by (auto simp: string_offset_def add.assoc)
    next
      case more: False
      then have "get_string m start hlen struct_len idx (of_nat j) (of_nat off) =
          get_string m start hlen struct_len idx (of_nat (j + 1)) (of_nat (off + length s + 1))"
        using skip head by simp
      also have "\<dots> = (if j + 1 \<le> unat idx \<and> unat idx < j + 1 + length ss
            then Some (start + of_nat (off + length s + 1 + string_offset ss (unat idx - (j + 1))))
            else if t \<noteq> 0 then None
            else get_string m start hlen struct_len idx (of_nat (j + 1 + length ss)) (of_nat (off + length s + 1 + string_offset ss (length ss))))"
        using Cons.prems(4,5) offset(1) by (intro Cons.IH [OF rest good more]) simp_all
      finally show ?thesis using False offset by (auto simp: ac_simps simp del: of_nat_add of_nat_Suc)
    qed
  qed
qed simp

section \<open>The walk\<close>

text \<open>A structure at \<open>hdr\<close> with the strings \<open>ss\<close> behind it and the byte \<open>t\<close> behind those.\<close>

definition structure_at :: "mem \<Rightarrow> u32 \<Rightarrow> u8 list list \<Rightarrow> u8 \<Rightarrow> bool" where
  "structure_at m hdr ss t \<longleftrightarrow> chars m (hdr + ucast (hdr_length m hdr)) (string_set ss @ [t])"

definition fits_table :: "mem \<Rightarrow> u32 \<Rightarrow> u32 \<Rightarrow> u8 list list \<Rightarrow> bool" where
  "fits_table m entry_addr hdr ss \<longleftrightarrow>
     unat (hdr_length m hdr) + length (string_set ss) \<le> unat (smbios_struct_len m entry_addr)"

lemma length_concat_strings: "length (concat (map (\<lambda>s. s @ [0]) ss)) = string_offset ss (length ss)"
  by (induction ss) (simp_all add: string_offset_def)

lemma length_string_set: "length (string_set ss) = (if ss = [] then 2 else string_offset ss (length ss) + 1)"
  using length_concat_strings [of ss] by (simp add: string_set_def)

lemma length_le_offset: "k \<le> length ss \<Longrightarrow> k \<le> string_offset ss k"
proof (induction ss arbitrary: k)
  case (Cons s ss)
  then show ?case by (cases k) (force simp: string_offset_def)+
qed simp

lemma string_number_bound: "fits_table m e hdr ss \<Longrightarrow> ss \<noteq> [] \<Longrightarrow> length ss + 1 < 2 ^ 16"
proof -
  assume "fits_table m e hdr ss" "ss \<noteq> []"
  then have "length ss + 1 \<le> unat (smbios_struct_len m e)"
    using length_le_offset [of "length ss" ss] by (simp add: fits_table_def length_string_set)
  then show ?thesis using unsigned_less [of "smbios_struct_len m e", where 'a = nat] by simp
qed

lemma GetSMBiosString_all:
  assumes "structure_at m hdr ss t" "good_strings ss" "fits_table m e hdr ss"
  shows "GetSMBiosString m e hdr idx =
    (if 1 \<le> unat idx \<and> unat idx \<le> length ss
     then Some (hdr + ucast (hdr_length m hdr) + of_nat (string_offset ss (unat idx - 1)))
     else if t \<noteq> 0 \<or> ss = [] then None
     else get_string m (hdr + ucast (hdr_length m hdr)) (hdr_length m hdr) (smbios_struct_len m e) idx
            (of_nat (1 + length ss)) (of_nat (string_offset ss (length ss))))"
proof (cases "ss = []")
  case True
  then show ?thesis
    using assms(1) by (simp add: structure_at_def string_set_def GetSMBiosString_def Let_def)
next
  case False
  let ?start = "hdr + ucast (hdr_length m hdr)"
  have chars: "chars m (?start + of_nat 0) (concat (map (\<lambda>s. s @ [0]) ss) @ [0, t])"
    using assms(1) False by (simp add: structure_at_def string_set_def)
  obtain c cs ss' where "ss = (c # cs) # ss'" "printable c"
    using assms(2) False by (cases ss; cases "hd ss") (auto simp: good_strings_def)
  then have "m ?start \<noteq> 0" using chars printable_signed [of c] by simp
  then have "GetSMBiosString m e hdr idx =
      get_string m ?start (hdr_length m hdr) (smbios_struct_len m e) idx (of_nat 1) (of_nat 0)"
    by (simp add: GetSMBiosString_def Let_def)
  also have "\<dots> = (if 1 \<le> unat idx \<and> unat idx < 1 + length ss then Some (?start + of_nat (0 + string_offset ss (unat idx - 1)))
     else if t \<noteq> 0 then None
     else get_string m ?start (hdr_length m hdr) (smbios_struct_len m e) idx (of_nat (1 + length ss)) (of_nat (0 + string_offset ss (length ss))))"
    using assms(2,3) False string_number_bound [OF assms(3) False]
    by (intro get_string_all [OF chars]) (simp_all add: fits_table_def length_string_set)
  finally show ?thesis using False by (simp add: less_Suc_eq_le)
qed

lemma string_in_memory:
  assumes "structure_at m hdr ss t" "good_strings ss" "k < length ss"
  shows "cstr m (hdr + ucast (hdr_length m hdr) + of_nat (string_offset ss k)) (ss ! k)"
proof -
  have "concat (map (\<lambda>s. s @ [0]) ss) = concat (map (\<lambda>s. s @ [0]) (take k ss)) @ (ss ! k @ [0]) @ concat (map (\<lambda>s. s @ [0]) (drop (Suc k) ss))"
    by (subst id_take_nth_drop [OF assms(3)]) simp
  moreover have "length (concat (map (\<lambda>s. s @ [0]) (take k ss))) = string_offset ss k"
    using length_concat_strings [of "take k ss"] assms(3) by (simp add: string_offset_def)
  ultimately have "chars m (hdr + ucast (hdr_length m hdr) + of_nat (string_offset ss k)) (ss ! k @ [0])"
    using assms(1,3) by (auto simp: structure_at_def string_set_def split: if_splits)
  moreover have "0 \<notin> set (ss ! k)"
    using assms(2) nth_mem [OF assms(3)] by (fastforce simp: good_strings_def list_all_iff printable_def)
  ultimately show ?thesis by (simp add: cstr_chars)
qed

lemma strings_loop_total:
  assumes "structure_at m hdr ss t" "good_strings ss" "fits_table m e hdr ss" "t \<noteq> 0" "k \<le> length ss"
  shows "strings_loop m e hdr (of_nat (k + 1)) (of_nat (string_offset ss k)) (GetSMBiosString m e hdr (of_nat (k + 1))) =
    Some (of_nat (string_offset ss (length ss)))"
  using assms(5)
proof (induction "length ss - k" arbitrary: k)
  case 0
  then have k: "k = length ss" by simp
  have "ss \<noteq> [] \<Longrightarrow> unat (of_nat (k + 1) :: u32) = k + 1"
    using string_number_bound [OF assms(3)] k by (intro unat_of_nat_small) simp
  then have "GetSMBiosString m e hdr (of_nat (k + 1)) = None"
    using GetSMBiosString_all [OF assms(1-3)] assms(4) k by (cases "ss = []") (simp_all del: of_nat_add)
  then show ?case unfolding k by (subst strings_loop.simps) simp
next
  case (Suc d)
  then have k: "k < length ss" by simp
  then have "ss \<noteq> []" by auto
  then have "unat (of_nat (k + 1) :: u32) = k + 1"
    using string_number_bound [OF assms(3)] k by (intro unat_of_nat_small) simp
  then have found: "GetSMBiosString m e hdr (of_nat (k + 1)) =
      Some (hdr + ucast (hdr_length m hdr) + of_nat (string_offset ss k))"
    using GetSMBiosString_all [OF assms(1-3)] k by (simp del: of_nat_add)
  have len: "strlen_from m (hdr + ucast (hdr_length m hdr) + of_nat (string_offset ss k)) 0 = Some (of_nat (length (ss ! k)))"
    using strlen_from_cstr [OF string_in_memory [OF assms(1,2) k], of 0] by simp
  have "string_offset ss (Suc k) = string_offset ss k + (length (ss ! k) + 1)"
    using k by (simp add: string_offset_def take_Suc_conv_app_nth)
  then have next_offset: "of_nat (string_offset ss k) + (of_nat (length (ss ! k)) + 1) = (of_nat (string_offset ss (Suc k)) :: u32)"
    by simp
  have next_idx: "of_nat (k + 1) + 1 = (of_nat (Suc k + 1) :: u32)" by simp
  have IH: "strings_loop m e hdr (of_nat (Suc k + 1)) (of_nat (string_offset ss (Suc k)))
      (GetSMBiosString m e hdr (of_nat (Suc k + 1))) = Some (of_nat (string_offset ss (length ss)))"
    using Suc.hyps(2) k by (intro Suc.hyps(1)) simp_all
  show ?case
    unfolding found by (subst strings_loop.simps) (simp only: option.case bind.bind_lunit len next_offset next_idx IH)
qed

text \<open>
  C35. For a structure in the table, with printable and nonempty strings behind it and a next
  structure of another type than 0: string number \<open>k\<close> is found for every \<open>k\<close> from 1 to the number of
  strings, any other number gives \<open>NULL\<close>, and the walk goes on at the next structure.
\<close>

theorem SMBios_structure_walk:
  assumes "structure_at m hdr ss t" "good_strings ss" "fits_table m e hdr ss" "t \<noteq> 0"
  shows "(if 1 \<le> unat idx \<and> unat idx \<le> length ss
      then \<exists>p. GetSMBiosString m e hdr idx = Some p \<and> cstr m p (ss ! (unat idx - 1))
      else GetSMBiosString m e hdr idx = None) \<and>
    next_structure m e hdr = Inr (hdr + (ucast (hdr_length m hdr) + of_nat (length (string_set ss))))"
proof -
  let ?n = "string_offset ss (length ss)"
  have "strings_loop m e hdr 1 0 (GetSMBiosString m e hdr 1) = Some (of_nat ?n)"
    using strings_loop_total [OF assms, of 0] by (simp add: string_offset_def)
  moreover have "0 <s (of_nat ?n :: u32) \<longleftrightarrow> ss \<noteq> []"
  proof -
    have n: "?n < 2 ^ 16"
      using assms(3) unsigned_less [of "smbios_struct_len m e", where 'a = nat]
      by (cases "ss = []") (simp_all add: string_offset_def fits_table_def length_string_set)
    then have "sint (of_nat ?n :: u32) = int ?n" by (simp add: sint_u32 unat_of_nat_small)
    moreover have "?n = 0 \<longleftrightarrow> ss = []" using length_le_offset [of "length ss" ss] by (cases ss) (auto simp: string_offset_def)
    ultimately show ?thesis by (simp add: word_sless_alt flip: neq0_conv)
  qed
  ultimately have "next_structure m e hdr = Inr (hdr + (ucast (hdr_length m hdr) + of_nat (length (string_set ss))))"
    by (simp add: next_structure_def Let_def length_string_set) (simp add: string_offset_def)
  then show ?thesis
    using GetSMBiosString_all [OF assms(1-3), of idx] assms(4) string_in_memory [OF assms(1,2), of "unat idx - 1"] by auto
qed

definition table_memory :: mem where
  "table_memory = store_bytes 0x1000 [1, 4, 0, 0, 97, 98, 0, 99, 0, 0, 127] ((\<lambda>_. 0)(0x2016 := 100))"

theorem SMBios_structure_walk_witness:
  "(\<exists>p. GetSMBiosString table_memory 0x2000 0x1000 2 = Some p \<and> cstr table_memory p [99]) \<and>
   GetSMBiosString table_memory 0x2000 0x1000 3 = None \<and> next_structure table_memory 0x2000 0x1000 = Inr 0x100A"
proof -
  have "structure_at table_memory 0x1000 [[97, 98], [99]] 127"
    by (simp add: structure_at_def table_fields table_memory_def string_set_def)
  moreover have "good_strings [[97, 98], [99]]" by (simp add: good_strings_def printable_def)
  moreover have "fits_table table_memory 0x2000 0x1000 [[97, 98], [99]]"
    by (simp add: fits_table_def table_fields load16_def table_memory_def string_set_def)
  moreover have "(127 :: u8) \<noteq> 0" by simp
  ultimately show ?thesis
    using SMBios_structure_walk [of table_memory "0x1000" "[[97, 98], [99]]" 127 "0x2000" 2]
      SMBios_structure_walk [of table_memory "0x1000" "[[97, 98], [99]]" 127 "0x2000" 3]
    by (simp add: string_set_def table_fields table_memory_def)
qed

text \<open>
  In front of a structure of type 0 the list of strings does not end: the byte behind the two NULs
  is 0, so one more, empty string is found at the second of them.
\<close>

lemma GetSMBiosString_phantom:
  assumes "structure_at m hdr ss 0" "good_strings ss" "fits_table m e hdr ss" "ss \<noteq> []"
  shows "GetSMBiosString m e hdr (of_nat (length ss + 1)) =
    Some (hdr + ucast (hdr_length m hdr) + of_nat (string_offset ss (length ss)))"
proof -
  let ?n = "string_offset ss (length ss)"
  have idx: "unat (of_nat (length ss + 1) :: u32) = length ss + 1"
    using string_number_bound [OF assms(3,4)] by (intro unat_of_nat_small) simp
  have n: "unat (hdr_length m hdr) + ?n < unat (smbios_struct_len m e)"
    using assms(3,4) by (simp add: fits_table_def length_string_set)
  have len: "unat (smbios_struct_len m e) < 65536" using unsigned_less [of "smbios_struct_len m e", where 'a = nat] by simp
  have "unat (ucast (hdr_length m hdr) + of_nat ?n :: u32) = unat (hdr_length m hdr) + ?n"
    using n len by (subst unat_add_small) (simp_all add: unat_ucast_mod unat_of_nat_small)
  then have "ucast (hdr_length m hdr) + of_nat ?n < (ucast (smbios_struct_len m e) :: u32)"
    using n len by (simp add: word_less_nat_alt unat_ucast_mod)
  then have "get_string m (hdr + ucast (hdr_length m hdr)) (hdr_length m hdr) (smbios_struct_len m e)
      (of_nat (length ss + 1)) (of_nat (1 + length ss)) (of_nat ?n) = Some (hdr + ucast (hdr_length m hdr) + of_nat ?n)"
    by (subst get_string.simps) (simp add: add.commute)
  then show ?thesis
    unfolding GetSMBiosString_all [OF assms(1-3)] idx using assms(4) by (simp del: of_nat_add)
qed

end
