(* ===== verification/Device.thy ===== *)
theory Device
  imports PCIBus PS2
begin

text \<open>
  The base classes of the devices (Device.cpp, KeyboardDevice.cpp): the ioctl that returns the
  names of a device, and the keyboard layer that keeps which keys are held down.
\<close>

section \<open>Names\<close>

text \<open>The pointers to the two strings of a device.\<close>

record Device =
  tag :: u32
  name :: u32

definition GetTag :: "Device \<Rightarrow> u32" where "GetTag d = tag d"
definition GetName :: "Device \<Rightarrow> u32" where "GetName d = name d"

datatype DeviceIoctl = DEVICE_GET_TAG | DEVICE_GET_NAME

fun ioctl_code :: "DeviceIoctl \<Rightarrow> u32" where
  "ioctl_code DEVICE_GET_TAG = 1"
| "ioctl_code DEVICE_GET_NAME = 2"

text \<open>
  The result, and \<open>*ret\<close> after the call; the other arguments are not used. The compiler extends
  the sign of a pointer that is converted to a wider integer.
\<close>

definition ProcessIoctl :: "Device \<Rightarrow> u32 \<Rightarrow> u64 \<Rightarrow> u64 \<Rightarrow> u64 \<Rightarrow> u32 \<Rightarrow> int \<times> u64" where
  "ProcessIoctl d function_name v0 v1 ret ptr =
     (if function_name = ioctl_code DEVICE_GET_TAG then (0, scast (tag d))
      else if function_name = ioctl_code DEVICE_GET_NAME then (0, scast (name d))
      else (-1, ret))"

lemma ucast_scast_word: "ucast (scast (w :: u32) :: u64) = w"
  by (rule bit_word_eqI) (auto simp: bit_simps)

text \<open>A request that succeeds returns a pointer that fits, and any other changes nothing.\<close>

lemma ProcessIoctl_result:
  "ProcessIoctl d f v0 v1 ret ptr = (r, ret') \<Longrightarrow>
     (r = 0 \<longrightarrow> ucast ret' = (if f = 1 then GetTag d else GetName d)) \<and>
     (r = 0 \<longleftrightarrow> f \<in> {1, 2}) \<and> (r \<noteq> 0 \<longrightarrow> r = -1 \<and> ret' = ret)"
  by (auto simp: ProcessIoctl_def GetTag_def GetName_def ucast_scast_word split: if_splits)

section \<open>Keys\<close>

datatype KeyCode =
    KeyNull | KeyA | KeyB | KeyC | KeyD | KeyE | KeyF | KeyG | KeyH | KeyI | KeyJ | KeyK
  | KeyL | KeyM | KeyN | KeyO | KeyP | KeyQ | KeyR | KeyS | KeyT | KeyU | KeyV
  | KeyW | KeyX | KeyY | KeyZ
  | Key1 | Key2 | Key3 | Key4 | Key5 | Key6 | Key7 | Key8 | Key9 | Key0
  | KeySlash | KeyMinus | KeyPlus | KeyEnter | KeySpace | KeySuper
  | KeyCapsLock | KeyNumLock | KeyScrollLock | KeyCtrl | KeyAlt | KeyShift

text \<open>The keys in the order of their codes: consecutive from 0, and from 0x80 on for the locks.\<close>

definition plain_keys :: "KeyCode list" where
  "plain_keys =
     [KeyNull, KeyA, KeyB, KeyC, KeyD, KeyE, KeyF, KeyG, KeyH, KeyI, KeyJ, KeyK, KeyL, KeyM, KeyN, KeyO, KeyP, KeyQ,
      KeyR, KeyS, KeyT, KeyU, KeyV, KeyW, KeyX, KeyY, KeyZ, Key1, Key2, Key3, Key4, Key5, Key6, Key7, Key8, Key9, Key0,
      KeySlash, KeyMinus, KeyPlus, KeyEnter, KeySpace, KeySuper]"

definition lock_keys :: "KeyCode list" where
  "lock_keys = [KeyCapsLock, KeyNumLock, KeyScrollLock, KeyCtrl, KeyAlt, KeyShift]"

definition key_code :: "KeyCode \<Rightarrow> u32" where
  "key_code k =
     (case first_index (\<lambda>j. j = k) plain_keys of
        Some i \<Rightarrow> of_nat i
      | None \<Rightarrow> (case first_index (\<lambda>j. j = k) lock_keys of Some i \<Rightarrow> 0x80 + of_nat i | None \<Rightarrow> 0))"

text \<open>\<open>KeyMaxKeys\<close>, the number after the last key, is the size of the map of held keys.\<close>

abbreviation (input) "KeyMaxKeys \<equiv> 134 :: nat"

lemma all_keys: "k \<in> set (plain_keys @ lock_keys)"
  by (cases k) (simp_all add: plain_keys_def lock_keys_def)

lemma key_codes: "map key_code (plain_keys @ lock_keys) = map of_nat ([0..<43] @ [128..<134])"
  unfolding key_code_def by code_simp

text \<open>Different keys have different codes, and all of them are in the map.\<close>

lemma key_code_inj: "inj key_code"
proof -
  have "distinct (map key_code (plain_keys @ lock_keys))" unfolding key_codes by code_simp
  then show ?thesis using all_keys unfolding distinct_map by (metis inj_on_def inj_onI)
qed

lemma key_code_in_map: "unat (ucast (key_code k) :: u8) < KeyMaxKeys"
proof -
  have "key_code k \<in> set (map of_nat ([0..<43] @ [128..<134]))"
    unfolding key_codes [symmetric] set_map by (rule imageI [OF all_keys])
  then obtain n where n: "key_code k = of_nat n" "n < 134" by (auto simp del: upt_rec_numeral)
  then have "unat (key_code k) = n" by (simp add: unat_of_nat_small)
  with n show ?thesis by (simp add: unat_ucast_mod)
qed

record KeyDevice =
  keycode :: u32
  pressed :: bool
  hw_keycode :: u32

text \<open>
  \<open>GetKey\<close>, with the virtual \<open>GetDeviceKey\<close> as a parameter: \<open>None\<close> for false. It never fills its
  argument and returns no value, so the map is its only effect. The key code is cut to 8 bits.
\<close>

partial_function (option) GetKey :: "('s \<Rightarrow> KeyDevice option \<times> 's) \<Rightarrow> bool list \<Rightarrow> 's \<Rightarrow> (bool list \<times> 's) result option" where
  "GetKey get_device_key pressed_keys s =
     (case get_device_key s of
        (None, s) \<Rightarrow> Some (Inr (pressed_keys, s))
      | (Some d, s) \<Rightarrow>
          let key = (ucast (keycode d) :: u8)
          in if unat key \<ge> KeyMaxKeys then Some (Inl (Undefined ''pressed_keys: index out of bounds''))
             else GetKey get_device_key (pressed_keys[unat key := pressed d]) s)"

text \<open>\<open>GetDeviceKey\<close> of the keyboard controller driver.\<close>

definition PS2_GetDeviceKey :: "'s \<Rightarrow> KeyDevice option \<times> 's" where
  "PS2_GetDeviceKey s = (None, s)"

text \<open>A device whose queue is a list of key events.\<close>

fun queue_key :: "KeyDevice list \<Rightarrow> KeyDevice option \<times> KeyDevice list" where
  "queue_key [] = (None, [])"
| "queue_key (d # ds) = (Some d, ds)"

text \<open>\<open>GetKey\<close> drains the queue and applies its events in their order; it stops at a key outside the map.\<close>

lemma GetKey_drains:
  "GetKey queue_key pressed_keys ds =
     (if \<forall>d\<in>set ds. unat (ucast (keycode d) :: u8) < KeyMaxKeys
      then Some (Inr (fold (\<lambda>d ks. ks[unat (ucast (keycode d) :: u8) := pressed d]) ds pressed_keys, []))
      else Some (Inl (Undefined ''pressed_keys: index out of bounds'')))"
  by (induction ds arbitrary: pressed_keys) (subst GetKey.simps; simp add: Let_def)+

text \<open>So the events of keys that have a code are all applied.\<close>

lemma GetKey_keys:
  assumes "\<forall>d\<in>set ds. \<exists>k. keycode d = key_code k"
  shows "GetKey queue_key pressed_keys ds =
    Some (Inr (fold (\<lambda>d ks. ks[unat (ucast (keycode d) :: u8) := pressed d]) ds pressed_keys, []))"
proof -
  have "\<forall>d\<in>set ds. unat (ucast (keycode d) :: u8) < KeyMaxKeys" using assms key_code_in_map by fastforce
  then show ?thesis unfolding GetKey_drains by simp
qed

lemma GetKey_PS2: "GetKey PS2_GetDeviceKey pressed_keys s = Some (Inr (pressed_keys, s))"
  by (subst GetKey.simps) (simp add: PS2_GetDeviceKey_def)

end
