(* ===== verification/Runtime_Steps.thy ===== *)
theory Runtime_Steps
  imports Runtime IRQ_Properties
begin

text \<open>
  What one interrupt leaves alone: the masks of the lines, the registered handlers and the devices
  behind the ports, during the boot and after it.
\<close>

unbundle bit_operations_syntax

section \<open>Acknowledging\<close>

lemma runtime_more: "machine.more s = machine.more t \<Longrightarrow>
    irqHandlers s = irqHandlers t \<and> clock s = clock t \<and> logged s = logged t"
  for s t :: runtime
  by (cases s; cases t) simp

lemma pic_command_ack [simp]: "pic_command 0x0b c = c" "pic_command 0x20 c = c"
  by (simp_all add: pic_command_def bit_numeral_rec)

lemma SendEOI_frame:
  "master (SendEOI irq s) = master s" "slave (SendEOI irq s) = slave s"
  "answer8 (SendEOI irq s) = answer8 s" "answer32 (SendEOI irq s) = answer32 s" "machine.more (SendEOI irq s) = machine.more s"
  by (simp_all add: SendEOI_def ReadISR_def Let_def split_def pic_after_out8)

text \<open>Steps that leave the controllers and the handlers alone.\<close>

definition same_irq :: "runtime \<Rightarrow> runtime \<Rightarrow> bool" where
  "same_irq s t \<longleftrightarrow> master t = master s \<and> slave t = slave s \<and> answer8 t = answer8 s \<and> answer32 t = answer32 s \<and>
     irqHandlers t = irqHandlers s"

lemma same_irq_SendEOI: "same_irq s t \<Longrightarrow> same_irq s (SendEOI irq t)"
  using runtime_more [OF SendEOI_frame(5) [of irq t]] by (simp add: same_irq_def SendEOI_frame)

section \<open>The devices\<close>

lemma PS2_OnIRQ_frame:
  "same_irq s (snd (PS2_OnIRQ irq_no s))" "clock (snd (PS2_OnIRQ irq_no s)) = clock s"
  "logged (snd (PS2_OnIRQ irq_no s)) = logged s"
  "fst (PS2_OnIRQ irq_no s) = None \<longleftrightarrow> irq_no \<noteq> 1 \<and> irq_no \<noteq> 12"
  for s :: runtime
  by (auto simp: PS2_OnIRQ_def Let_def split_def same_irq_def in8_def master_def slave_def)

lemma device_irq_handlers: "device_irq pit kbd h irq s = Inr t \<Longrightarrow> irqHandlers t = irqHandlers s"
  using PS2_OnIRQ_frame(1) [of s irq]
  by (auto simp: device_irq_def same_irq_def split: if_splits prod.splits option.splits)

lemma device_irq_runs:
  assumes "h \<in> {pit, kbd}"
  shows "\<exists>t. device_irq pit kbd h irq s = Inr t \<and> same_irq s t"
  using assms PS2_OnIRQ_frame(1) [of s irq]
  by (auto simp: device_irq_def same_irq_def master_def slave_def split: prod.split option.split)

lemma run_handlers_same:
  "set hs \<subseteq> {pit, kbd} \<Longrightarrow> \<exists>t. run_handlers (device_irq pit kbd) irq hs s = Inr t \<and> same_irq s t"
proof (induction hs arbitrary: s)
  case (Cons h hs)
  then obtain t where t: "device_irq pit kbd h irq s = Inr t" "same_irq s t"
    using device_irq_runs [of h pit kbd irq s] by auto
  from Cons obtain u where "run_handlers (device_irq pit kbd) irq hs t = Inr u" "same_irq t u" by fastforce
  then show ?case using t by (auto simp: same_irq_def)
qed (simp add: same_irq_def)

text \<open>Interrupts while the registered handlers are those of the two devices.\<close>

definition handlers_known :: "u32 \<Rightarrow> u32 \<Rightarrow> runtime \<Rightarrow> bool" where
  "handlers_known pit kbd s \<longleftrightarrow> table_ok (irqHandlers s) \<and> (\<forall>j<16. set (active s j) \<subseteq> {pit, kbd})"

lemma take_irq_same:
  assumes "handlers_known pit kbd s"
  shows "\<exists>t. take_irq pit kbd j s = Inr t \<and> same_irq s t"
proof (cases "j < 16")
  case True
  then have u: "unat (of_nat j :: u32) = j" "(of_nat j :: u32) < 16" by (simp_all add: word_less_nat_alt unat_of_nat_small)
  have "table_ok (irqHandlers s)" using assms by (simp add: handlers_known_def)
  note run = IRQDispatcher_char [where on_irq = "device_irq pit kbd", OF device_irq_handlers this u(2), unfolded u(1)]
  obtain t where "run_handlers (device_irq pit kbd) (of_nat j) (active s j) s = Inr t" "same_irq s t"
    using run_handlers_same [of "active s j" pit kbd "of_nat j" s] assms True unfolding handlers_known_def by blast
  then have "IRQDispatcher (device_irq pit kbd) (of_nat j) s = Inr (SendEOI (of_nat j) t)" "same_irq s (SendEOI (of_nat j) t)"
    using run same_irq_SendEOI by simp_all
  then show ?thesis by (simp add: take_irq_def same_irq_def)
qed (simp add: take_irq_def same_irq_def)

lemma take_irqs_same: "handlers_known pit kbd s \<Longrightarrow> \<exists>t. take_irqs pit kbd js s = Inr t \<and> same_irq s t"
proof (induction js arbitrary: s)
  case (Cons j js)
  then obtain t where t: "take_irq pit kbd j s = Inr t" "same_irq s t" using take_irq_same by blast
  then have "handlers_known pit kbd t" using Cons.prems by (simp add: handlers_known_def same_irq_def active_def)
  then show ?case using Cons.IH [of t] t by (auto simp: same_irq_def)
qed (simp add: same_irq_def)

lemma irq_step_take: "irq_step pit kbd j s t \<Longrightarrow> take_irq pit kbd j s = Inr t"
  by (auto simp: irq_step_iff take_irq_def)

end
