(* ===== verification/Boot_Properties.thy ===== *)
theory Boot_Properties
  imports Boot_Memory SMBIOS_Properties Device Runtime_Steps PCI_Properties PS2_Properties
begin

text \<open>
  The initialisations of \<open>kernel_main\<close>: the interrupt lines after all devices are initialised, with
  interrupts that come meanwhile, and the initialisations as a whole.
\<close>

unbundle bit_operations_syntax

section \<open>The devices\<close>

text \<open>Accesses to other ports leave the interrupt controllers alone.\<close>

definition pic_ports :: "u16 set" where
  "pic_ports = {0x20, 0x21, 0xa0, 0xa1}"

lemma pic_after_other:
  "\<forall>e\<in>set l. event_port e \<notin> {c, d} \<Longrightarrow> pic_after c d chip (l @ h) = pic_after c d chip h"
proof (induction l)
  case (Cons e l)
  then show ?case by (cases e) (simp_all add: Let_def)
qed simp

lemma pic_frame:
  assumes "only_ports P s t" "P \<inter> pic_ports = {}"
  shows "master t = master s" "slave t = slave s" "masked t = masked s" "pic_ready t \<longleftrightarrow> pic_ready s"
proof -
  obtain l where l: "history t = l @ history s" "\<forall>e\<in>set l. event_port e \<in> P"
    using assms(1) by (auto simp: only_ports_def)
  then have other: "\<forall>e\<in>set l. event_port e \<notin> {c, d}" if "{c, d} \<subseteq> pic_ports" for c d
    using assms(2) that by auto
  show eq: "master t = master s" "slave t = slave s"
    unfolding master_def slave_def l(1) by (intro pic_after_other other; simp add: pic_ports_def)+
  then show "masked t = masked s" "pic_ready t \<longleftrightarrow> pic_ready s"
    using assms(1) by (simp_all add: masked_def pic_ready_def only_ports_def fun_eq_iff [of "masked t"])
qed

text \<open>Two states of the interrupt machine with the same lines, handlers and devices behind the ports.\<close>

definition same_lines :: "runtime \<Rightarrow> runtime \<Rightarrow> bool" where
  "same_lines s t \<longleftrightarrow> (pic_ready t \<longleftrightarrow> pic_ready s) \<and> masked t = masked s \<and>
     irqHandlers t = irqHandlers s \<and> answer8 t = answer8 s \<and> answer32 t = answer32 s"

lemma resume_same_lines:
  assumes "only_ports P u t" "P \<inter> pic_ports = {}" "history u = history s" "answer8 u = answer8 s" "answer32 u = answer32 s"
  shows "same_lines s (resume s t)"
proof -
  have "only_ports P s (resume s t)" using assms by (simp add: only_ports_def resume_def)
  then show ?thesis using pic_frame [OF _ assms(2), of s "resume s t"]
    by (simp add: same_lines_def only_ports_def resume_def)
qed

lemma with_fields [simp]:
  "history (with_pci devs s) = history s" "answer8 (with_pci devs s) = answer8 s" "answer32 (with_pci devs s) = answer32 s"
  "pcidevs (with_pci devs s) = devs"
  "history (with_ps2 s) = history s" "answer8 (with_ps2 s) = answer8 s" "answer32 (with_ps2 s) = answer32 s"
  by (simp_all add: with_pci_def with_ps2_def machine.extend_def machine.truncate_def)

subsection \<open>The discovery of the PCI devices\<close>

abbreviation pci_ports :: "u16 set" where "pci_ports \<equiv> {0xCF8, 0xCFC}"

lemma only_ports_pci [simp]:
  "only_ports P s (t\<lparr>pcidevs := x\<rparr>) = only_ports P s t" "only_ports P s (t\<lparr>pcidev_count := y\<rparr>) = only_ports P s t"
  by (simp_all add: only_ports_def)

lemma query_loop_ports:
  "only_ports pci_ports s0 s \<Longrightarrow> only_ports pci_ports s0 (snd (snd (query_loop n i q pres bytes s)))"
  by (induction n arbitrary: i q pres bytes s) (simp_all add: Let_def split_def only_ports_io)

lemma scan_functions_ports:
  "scan_functions b d nums (pidx, s) = Inr (p, t) \<Longrightarrow> only_ports pci_ports s0 s \<Longrightarrow> only_ports pci_ports s0 t"
proof (induction nums arbitrary: pidx s)
  case (Cons f nums)
  obtain pres bytes u where q: "query_loop 18 0 (MakePCIAddrQuery b d f 0) False [] s = (pres, bytes, u)"
    by (cases "query_loop 18 0 (MakePCIAddrQuery b d f 0) False [] s") auto
  then have "only_ports pci_ports s0 u" using query_loop_ports [OF Cons.prems(2)] by (metis snd_conv)
  then show ?case using Cons q by (auto simp: Let_def split: if_splits)
qed simp

lemma scan_devices_ports:
  "scan_devices b nums (pidx, s) = Inr (p, t) \<Longrightarrow> only_ports pci_ports s0 s \<Longrightarrow> only_ports pci_ports s0 t"
  by (induction nums arbitrary: pidx s) (auto simp: and_then_Inr_iff dest: scan_functions_ports)

lemma scan_buses_ports:
  "scan_buses bs (pidx, s) = Inr (p, t) \<Longrightarrow> only_ports pci_ports s0 s \<Longrightarrow> only_ports pci_ports s0 t"
  by (induction bs arbitrary: pidx s) (auto simp: and_then_Inr_iff dest: scan_devices_ports)

lemma PCIBus_Initialize_runs:
  assumes "host_bridge config s" "length (pcidevs s) = 32" "length (all_entries config) \<le> 32"
  shows "\<exists>report t. PCIBus_Initialize s = Inr (report, t) \<and> only_ports pci_ports s t"
proof -
  have "table_inv config s [] s" using assms by (simp add: table_inv_def)
  from scan_buses_outcome [OF this, of "[0..<255]"]
  have "outcome config s (all_entries config) (scan_buses (map of_nat [0..<255]) (0, s))"
    by (simp only: append_Nil list.size(3) le0 all_entries_def)
  then obtain t where t: "scan_buses (map of_nat [0..<255]) (0, s) = Inr (length (all_entries config), t)"
    using assms(3) by (auto simp: outcome_def)
  then have "only_ports pci_ports s t" using scan_buses_ports only_ports_self by blast
  then show ?thesis using t by (simp add: PCIBus_Initialize_def Let_def del: upt_rec_numeral)
qed

subsection \<open>All devices\<close>

lemma SetTimer_runs: "\<exists>s'. SetTimer 1000 s = Inr s' \<and> same_lines s s'"
proof -
  let ?t = "out8 0x40 (ucast (drop_bit 8 (0x4a9 :: u16))) (out8 0x40 (ucast ((0x4a9 :: u16) AND 0xff)) (out8 0x43 0x36 s))"
  have "only_ports {0x40, 0x43} s ?t" by (intro only_ports_io only_ports_self) simp_all
  then have "same_lines s ?t" using pic_frame [of "{0x40, 0x43}" s ?t] by (simp add: same_lines_def pic_ports_def)
  moreover have "SetTimer 1000 s = Inr ?t" by (simp add: SetTimer_def Let_def)
  ultimately show ?thesis by blast
qed

text \<open>The interrupt machine during the boot: which lines have a handler, and that the others are masked.\<close>

definition lines_set_up :: "(nat \<times> u32) list \<Rightarrow> runtime \<Rightarrow> bool" where
  "lines_set_up hs s \<longleftrightarrow> pic_ready s \<and> table_ok (irqHandlers s) \<and>
     (\<forall>j<16. masked s j \<longleftrightarrow> j \<noteq> 2 \<and> j \<notin> fst ` set hs) \<and>
     (\<forall>j<16. irqHandlers s ! j = (case map_of hs j of None \<Rightarrow> replicate 16 0 | Some h \<Rightarrow> h # replicate 15 0))"

lemma lines_set_up_same: "same_lines s t \<Longrightarrow> lines_set_up hs t = lines_set_up hs s"
  by (simp add: same_lines_def lines_set_up_def)

text \<open>What the steps of the boot keep up, and that interrupts between them do as well.\<close>

definition boot_inv :: "runtime \<Rightarrow> (nat \<times> u32) list \<Rightarrow> runtime \<Rightarrow> bool" where
  "boot_inv s hs t \<longleftrightarrow> lines_set_up hs t \<and> answer8 t = answer8 s \<and> answer32 t = answer32 s"

lemma boot_inv_same: "same_lines t u \<Longrightarrow> boot_inv s hs t \<Longrightarrow> boot_inv s hs u"
  using lines_set_up_same [of t u hs] by (simp add: boot_inv_def same_lines_def)

lemma SetHandler_table:
  "SetHandler irq h s = Inr (k, s') \<Longrightarrow>
     irqHandlers s' = (irqHandlers s)[unat irq := (irqHandlers s ! unat irq)[k := h]]"
  by (auto simp: SetHandler_def Let_def SetIRQMask_handlers split: if_splits elim!: and_then_InrE)

lemma lines_active:
  assumes "lines_set_up hs s" "j < 16" "\<forall>(i, h)\<in>set hs. h \<noteq> 0"
  shows "active s j = (case map_of hs j of None \<Rightarrow> [] | Some h \<Rightarrow> [h])"
proof -
  have "h \<noteq> 0" if "map_of hs j = Some h" for h using map_of_SomeD [OF that] assms(3) by auto
  then show ?thesis using assms(1,2) by (auto simp: active_def lines_set_up_def takeWhile_replicate split: option.split)
qed

lemma take_irqs_boot:
  assumes "boot_inv s hs t" "pit \<noteq> 0" "ps2 \<noteq> 0" "snd ` set hs \<subseteq> {pit, ps2}"
  obtains u where "take_irqs pit ps2 js t = Inr u" "boot_inv s hs u"
proof -
  have t: "lines_set_up hs t" using assms(1) by (simp add: boot_inv_def)
  have "set (active t j) \<subseteq> {pit, ps2}" if "j < 16" for j
  proof -
    have "\<forall>(i, h)\<in>set hs. h \<noteq> 0" using assms(2-4) by force
    from lines_active [OF t that this] show ?thesis using assms(4) by (auto split: option.splits dest!: map_of_SomeD)
  qed
  then have "handlers_known pit ps2 t" using t by (simp add: handlers_known_def lines_set_up_def)
  then obtain u where u: "take_irqs pit ps2 js t = Inr u" "same_irq t u" using take_irqs_same by blast
  then have "same_lines t u" by (simp add: same_lines_def same_irq_def pic_ready_def masked_def fun_eq_iff [of "masked u"])
  then show ?thesis using that u(1) boot_inv_same assms(1) by blast
qed

lemma SetHandler_sets_up:
  assumes "lines_set_up hs s" "irq < 16" "h \<noteq> 0" "map_of hs (unat irq) = None"
  shows "\<exists>s'. SetHandler irq h s = Inr (0, s') \<and> lines_set_up ((unat irq, h) # hs) s' \<and>
    answer8 s' = answer8 s \<and> answer32 s' = answer32 s"
proof -
  define i where "i = unat irq"
  have i: "i < 16" using assms(2) by (simp add: i_def word_less_nat_alt)
  then have row: "irqHandlers s ! i = replicate 16 0" using assms(1,4) by (auto simp: lines_set_up_def i_def)
  then have none: "active s i = []" by (simp add: active_def)
  have s: "pic_ready s" "table_ok (irqHandlers s)" using assms(1) by (simp_all add: lines_set_up_def)
  obtain s' where s': "SetHandler irq h s = Inr (0, s')" "pic_ready s'" "table_ok (irqHandlers s')"
    "\<forall>j<16. masked s' j = (if j = i then False else masked s j)"
    using SetHandler_char [OF s assms(2,3)] none by (auto simp: i_def)
  have table: "irqHandlers s' = (irqHandlers s)[i := h # replicate 15 0]"
    using SetHandler_table [OF s'(1)] row by (simp add: i_def numeral_eq_Suc)
  have "length (irqHandlers s) = 16" using s(2) by (simp add: table_ok_def)
  then have "\<forall>j<16. irqHandlers s' ! j = (case map_of ((i, h) # hs) j of None \<Rightarrow> replicate 16 0 | Some h \<Rightarrow> h # replicate 15 0)"
    using assms(1) i by (auto simp: table lines_set_up_def nth_list_update)
  moreover have "\<forall>j<16. masked s' j \<longleftrightarrow> j \<noteq> 2 \<and> j \<notin> fst ` set ((i, h) # hs)"
    using assms(1) s'(4) by (auto simp: lines_set_up_def)
  ultimately show ?thesis
    using s' SetHandler_answers [OF s'(1)] by (auto simp: lines_set_up_def i_def)
qed

lemma SetHandler_boot:
  assumes "boot_inv s hs t" "irq < 16" "h \<noteq> 0" "map_of hs (unat irq) = None"
  obtains u where "SetHandler irq h t = Inr (0, u)" "boot_inv s ((unat irq, h) # hs) u"
  using SetHandler_sets_up [OF _ assms(2-4), of t] assms(1) by (auto simp: boot_inv_def)

lemma Initialize_lines:
  assumes "mask_readable (answer8 s)" "irqHandlers s = initial_handlers"
  shows "lines_set_up [] (I8259.Initialize s)"
proof -
  have fields: "answer8 (I8259.Initialize s) = answer8 s" "irqHandlers (I8259.Initialize s) = irqHandlers s"
    by (simp_all add: I8259.Initialize_def ClearAllIRQs_def Let_def)
  have bits: "j < 16 \<Longrightarrow> j \<in> {0, 1, 2, 3, 4, 5, 6, 7, 8, 9, 10, 11, 12, 13, 14, 15}" for j :: nat
    unfolding insert_iff empty_iff by presburger
  have "masked (I8259.Initialize s) j \<longleftrightarrow> j \<noteq> 2" if "j < 16" for j
    using bits [OF that] by (auto simp: masked_def Initialize_chips bit_numeral_rec)
  then show ?thesis
    using assms table_ok_initial
    by (simp add: lines_set_up_def pic_ready_def fields Initialize_chips) (simp add: initial_handlers_def)
qed

text \<open>
  The devices behave as documented: the interrupt controllers return their masks, the host bridge
  its configuration space with at most 32 functions, the keyboard controller runs out of data.
\<close>

definition documented_devices :: "config_space \<Rightarrow> nat \<Rightarrow> runtime \<Rightarrow> bool" where
  "documented_devices config n s \<longleftrightarrow> mask_readable (answer8 s) \<and> host_bridge config s \<and>
     length (all_entries config) \<le> 32 \<and> controller_drains n (answer8 s) \<and> irqHandlers s = initial_handlers"

text \<open>The lines of the timer, the keyboard, the cascade and the mouse are open, with their handlers.\<close>

definition lines_ready :: "u32 \<Rightarrow> u32 \<Rightarrow> 'a irq_machine_scheme \<Rightarrow> bool" where
  "lines_ready pit ps2 s \<longleftrightarrow> pic_ready s \<and> table_ok (irqHandlers s) \<and>
     (\<forall>j<16. (masked s j \<longleftrightarrow> j \<notin> {0, 1, 2, 12}) \<and>
        active s j = (if j = 0 then [pit] else if j = 1 \<or> j = 12 then [ps2] else []))"

text \<open>
  If the devices behave as documented, then the initialisation of the devices gets to its end if
  the SMBIOS reader does, whatever else they answer and whatever interrupts come. Of
  the sixteen lines exactly those of the timer, the keyboard and the mouse and the cascade are then
  open, each of the three with its one handler, and no other line has any.
\<close>

lemma lines_ready_boot:
  assumes "boot_inv s [(12, ps2), (1, ps2), (0, pit)] t" "pit \<noteq> 0" "ps2 \<noteq> 0"
  shows "lines_ready pit ps2 t"
proof -
  have t: "lines_set_up [(12, ps2), (1, ps2), (0, pit)] t" using assms(1) by (simp add: boot_inv_def)
  then have "\<forall>j<16. masked t j \<longleftrightarrow> j \<notin> {0, 1, 2, 12}" by (auto simp: lines_set_up_def)
  moreover have "active t j = (if j = 0 then [pit] else if j = 1 \<or> j = 12 then [ps2] else [])" if "j < 16" for j
    using lines_active [OF t that] assms(2,3) by auto
  ultimately show ?thesis using t by (simp add: lines_ready_def lines_set_up_def)
qed

lemma PCI_boot:
  assumes "boot_inv s hs t" "host_bridge config s" "length (all_entries config) \<le> 32" "length devs = 32"
  obtains report p where "PCIBus_Initialize (with_pci devs t) = Inr (report, p)" "boot_inv s hs (resume t p)"
proof -
  have "host_bridge config (with_pci devs t)" using assms(1,2) by (simp add: host_bridge_def boot_inv_def)
  then obtain report p where p: "PCIBus_Initialize (with_pci devs t) = Inr (report, p)" "only_ports pci_ports (with_pci devs t) p"
    using PCIBus_Initialize_runs [of config "with_pci devs t"] assms(3,4) by auto
  then show ?thesis
    using that boot_inv_same [OF resume_same_lines [OF p(2)] assms(1)] by (simp add: pic_ports_def)
qed

lemma PS2_boot:
  assumes "boot_inv s hs t" "controller_drains n (answer8 s)"
  obtains types k where "PS2_Initialize (with_ps2 t) = Inr (types, k)" "boot_inv s hs (resume t k)"
proof -
  have "controller_drains n (answer8 (with_ps2 t))" using assms by (simp add: boot_inv_def)
  then obtain types k where k: "PS2_Initialize (with_ps2 t) = Inr (types, k)" "only_ports ps2_ports (with_ps2 t) k"
    using PS2_Initialize_runs unfolding ps2_runs_def by blast
  then show ?thesis
    using that boot_inv_same [OF resume_same_lines [OF k(2)] assms(1)] by (simp add: pic_ports_def)
qed

lemma PIT_boot:
  assumes "boot_inv s hs t"
  obtains u where "PIT_Initialize t c = Inr (u, Timer_Init c)" "boot_inv s hs (u\<lparr>clock := Timer_Init c\<rparr>)"
proof -
  obtain u where u: "SetTimer 1000 t = Inr u" "same_lines t u" using SetTimer_runs by blast
  have "same_lines u (u\<lparr>clock := Timer_Init c\<rparr>)"
    by (simp add: same_lines_def pic_ready_def masked_def master_def slave_def fun_eq_iff [of "masked (_\<lparr>clock := _\<rparr>)"])
  then have "boot_inv s hs (u\<lparr>clock := Timer_Init c\<rparr>)" using boot_inv_same boot_inv_same [OF u(2) assms] by blast
  moreover have "PIT_Initialize t c = Inr (u, Timer_Init c)" using u(1) by (simp add: PIT_Initialize_def)
  ultimately show ?thesis by (rule that [rotated])
qed

lemma init_devices_from:
  assumes "boot_inv s [] t" "documented_devices config n s" "length devs = 32" "pit \<noteq> 0" "ps2 \<noteq> 0"
  shows "case smbios of
      Inl e \<Rightarrow> init_devices pit ps2 devs js smbios t = Inl e
    | Inr r \<Rightarrow> \<exists>pcibus kbd u. init_devices pit ps2 devs js smbios t = Inr (r, pcibus, kbd, u) \<and> lines_ready pit ps2 u"
proof -
  have hw: "host_bridge config s" "length (all_entries config) \<le> 32" "controller_drains n (answer8 s)"
    using assms(2) by (simp_all add: documented_devices_def)
  note irqs = take_irqs_boot [OF _ assms(4,5)]
  obtain t1 where t1: "PIT_Initialize t (clock t) = Inr (t1, Timer_Init (clock t))" "boot_inv s [] (t1\<lparr>clock := Timer_Init (clock t)\<rparr>)"
    using PIT_boot [OF assms(1)] .
  obtain t2 where t2: "take_irqs pit ps2 (js 2) (t1\<lparr>clock := Timer_Init (clock t)\<rparr>) = Inr t2" "boot_inv s [] t2"
    by (rule irqs [OF t1(2)]) auto
  obtain t3 where t3: "SetHandler 0 pit t2 = Inr (0, t3)" "boot_inv s [(0, pit)] t3"
    by (rule SetHandler_boot [OF t2(2), of 0 pit]) (use assms(4) in auto)
  obtain t4 where t4: "take_irqs pit ps2 (js 3) t3 = Inr t4" "boot_inv s [(0, pit)] t4"
    by (rule irqs [OF t3(2)]) auto
  obtain t5 where t5: "take_irqs pit ps2 (js 4) t4 = Inr t5" "boot_inv s [(0, pit)] t5"
    by (rule irqs [OF t4(2)]) auto
  obtain report p where p: "PCIBus_Initialize (with_pci devs t5) = Inr (report, p)" "boot_inv s [(0, pit)] (resume t5 p)"
    by (rule PCI_boot [OF t5(2) hw(1,2) assms(3)])
  obtain t6 where t6: "take_irqs pit ps2 (js 5) (resume t5 p) = Inr t6" "boot_inv s [(0, pit)] t6"
    by (rule irqs [OF p(2)]) auto
  obtain types k where k: "PS2_Initialize (with_ps2 t6) = Inr (types, k)" "boot_inv s [(0, pit)] (resume t6 k)"
    by (rule PS2_boot [OF t6(2) hw(3)])
  obtain t7 where t7: "take_irqs pit ps2 (js 6) (resume t6 k) = Inr t7" "boot_inv s [(0, pit)] t7"
    by (rule irqs [OF k(2)]) auto
  obtain t8 where t8: "SetHandler 1 ps2 t7 = Inr (0, t8)" "boot_inv s [(1, ps2), (0, pit)] t8"
    by (rule SetHandler_boot [OF t7(2), of 1 ps2]) (use assms(5) in auto)
  obtain t9 where t9: "take_irqs pit ps2 (js 7) t8 = Inr t9" "boot_inv s [(1, ps2), (0, pit)] t9"
    by (rule irqs [OF t8(2)]) auto
  obtain u where u: "SetHandler 12 ps2 t9 = Inr (0, u)" "boot_inv s [(12, ps2), (1, ps2), (0, pit)] u"
    by (rule SetHandler_boot [OF t9(2), of 12 ps2]) (use assms(5) in auto)
  obtain v where v: "take_irqs pit ps2 (js 8) u = Inr v" "boot_inv s [(12, ps2), (1, ps2), (0, pit)] v"
    by (rule irqs [OF u(2)]) auto
  note run = t1(1) t2(1) t3(1) t4(1) t5(1) p(1) t6(1) k(1) t7(1) t8(1) t9(1) u(1) v(1)
  show ?thesis
    using lines_ready_boot [OF v(2) assms(4,5)] by (cases smbios) (simp_all add: init_devices_def run)
qed

lemma boot_inv_Initialize:
  "documented_devices config n s \<Longrightarrow> boot_inv s [] (I8259.Initialize s)"
  using Initialize_lines [of s]
  by (simp add: documented_devices_def boot_inv_def I8259.Initialize_def ClearAllIRQs_def Let_def)

lemma init_devices_char:
  assumes "documented_devices config n s" "length devs = 32" "pit \<noteq> 0" "ps2 \<noteq> 0"
  shows "\<exists>pcibus kbd s'. init_devices pit ps2 devs js (Inr r) (I8259.Initialize s) = Inr (r, pcibus, kbd, s') \<and>
    lines_ready pit ps2 s'"
  using init_devices_from [OF boot_inv_Initialize [OF assms(1)] assms, where smbios = "Inr r"] by simp

text \<open>A machine with the interrupt controllers, one host bridge, and a keyboard controller without data.\<close>

definition boot_machine :: runtime where
  "boot_machine = \<lparr>history = [], answer8 = pic_answer, answer16 = answer16 pci_machine, answer32 = answer32 pci_machine,
     irqHandlers = initial_handlers, clock = \<lparr>ticks = 0, printed = []\<rparr>, logged = []\<rparr>"

lemma boot_machine: "documented_devices one_bridge 0 boot_machine" "length (pcidevs pci_machine) = 32"
proof -
  have "mask_readable (answer8 boot_machine)" "host_bridge one_bridge boot_machine" "irqHandlers boot_machine = initial_handlers"
    by (simp_all add: boot_machine_def mask_readable_def pic_answer_def host_bridge_def pci_machine_def)
  moreover have "controller_drains 0 (answer8 boot_machine)"
    by (simp add: controller_drains_def boot_machine_def pic_answer_def)
  ultimately show "documented_devices one_bridge 0 boot_machine"
    by (simp add: documented_devices_def one_bridge_entries)
  show "length (pcidevs pci_machine) = 32" by (simp add: pci_machine_def)
qed

text \<open>
  The SMBIOS reader looks for its entry point in the 4096 paragraphs of the BIOS area. If none of
  them starts with the first character of an anchor, there is none.
\<close>

definition bios_paragraph :: "nat \<Rightarrow> u32" where
  "bios_paragraph i = 0xf0000 + of_nat (16 * i)"

lemma unat_bios_paragraph: "i < 4096 \<Longrightarrow> unat (bios_paragraph i) = 0xf0000 + 16 * i"
proof -
  assume i: "i < 4096"
  then have "unat (of_nat (16 * i) :: u32) = 16 * i" by (intro unat_of_nat_small) simp
  then show ?thesis unfolding bios_paragraph_def using i by (subst unat_add_small) (simp_all del: of_nat_mult)
qed

lemma no_smbios_area:
  assumes "\<And>i. i < 4096 \<Longrightarrow> virtual_mem vmm (bios_paragraph i + 0xc0000000) \<noteq> 95"
  shows "detect_smbios vmm = Inr ([], 0, vmm)"
proof -
  have "\<not> valid_entry (virtual_mem vmm) (0xc00f0000 + of_nat (16 * i))" if "i < 4096" for i
  proof -
    have "bios_paragraph i + 0xc0000000 = 0xc00f0000 + of_nat (16 * i)" by (simp add: bios_paragraph_def)
    then have "virtual_mem vmm (0xc00f0000 + of_nat (16 * i)) \<noteq> 95" using assms [OF that] by (simp only:) simp
    then show ?thesis by (simp add: valid_entry_def anchored_def bytes_at_def upt_rec)
  qed
  then have "first_index (\<lambda>i. valid_entry (virtual_mem vmm) (0xc00f0000 + of_nat (16 * i))) [0..<4096] = None"
    unfolding first_index_None_iff by simp
  then show ?thesis using detect_loop_index [of 4096 "virtual_mem vmm"] by (simp add: detect_smbios_def Detect_def del: upt_rec_numeral)
qed

lemma init_devices_example:
  "\<exists>pcibus kbd s'. init_devices 0xc0130000 0xc0130100 (pcidevs pci_machine) (\<lambda>n. [0, 1, 15]) (Inr ()) (I8259.Initialize boot_machine) =
     Inr ((), pcibus, kbd, s') \<and> active s' 12 = [0xc0130100] \<and> masked s' 3"
  using init_devices_char [OF boot_machine, of "0xc0130000" "0xc0130100" "\<lambda>n. [0, 1, 15]" "()"]
  unfolding lines_ready_def by fastforce

section \<open>All initialisations\<close>

lemma kernel_init_bad_magic:
  "magic bs \<noteq> 0x2badb002 \<Longrightarrow> kernel_init base stub irqs pit ps2 devs js bs k = Inl (Panic ''invalid boot magic number'')"
  by (simp add: kernel_init_def)

text \<open>
  The initialisations end: from a proper boot structure, a good memory map, the tables
  of the boot code and devices that behave as documented, whatever interrupts come between them,
  they fail only where the SMBIOS reader does. Both memory managers are then set up, and the SMBIOS reader
  starts from their state; the three devices with interrupts have their handlers and their
  lines open, and the interrupts of all lines and all exceptions lead to their stubs.
\<close>

lemma kernel_init_ends:
  fixes k :: kernel and bs :: BootStruct and n :: nat
  defines "m \<equiv> virtual_mem (kvmm k)"
  assumes "magic bs = 0x2badb002" "loader_ok m bs n i"
      "tables_inside (kvmm k) (kernel_frames bs (loader_areas m bs n))" "phys_cr3_addr bs = cr3 (kvmm k)"
    and "documented_devices config d (krun k)" "length devs = 32" "pit \<noteq> 0" "ps2 \<noteq> 0"
    and "length (desc (kidt k)) = 256" "length irqs = 16"
  shows "\<exists>vmm. init_memory m (kvmm k) bs = Inr vmm \<and> vmm_wf vmm \<and>
    used_frames (vmm_pmm vmm) = kernel_frames bs (loader_areas m bs n) \<and>
    identity_removed (kvmm k) vmm \<and> memory_kept (kvmm k) vmm \<and>
    (case detect_smbios vmm of
       Inl e \<Rightarrow> kernel_init base stub irqs pit ps2 devs js bs k = Inl e
     | Inr (report, p, vmm') \<Rightarrow> \<exists>k'. kernel_init base stub irqs pit ps2 devs js bs k = Inr k' \<and>
         kvmm k' = vmm' \<and> lines_ready pit ps2 (krun k') \<and>
         (\<forall>j<16. gate (kidt k') (32 + j) = Some (irqs ! j, 8, True)) \<and>
         (\<forall>(code, j, type)\<in>set fault_vectors. gate (kidt k') (unat (fault_number code)) = Some (stub j, 8, type = Interrupt)))"
proof -
  have handlers: "length (replicate 20 None) = 20" by simp
  from IDT_vectors_char [OF assms(10,11) handlers, of stub base] obtain f idt where idt:
    "FaultHandler_Init stub (Register base (kidt k)) (replicate 20 None) = Inr f" "IRQHandler_Init irqs (fault_idt f) = Inr idt"
    "\<forall>j<16. gate idt (32 + j) = Some (irqs ! j, 8, True)"
    "\<forall>(code, j, type)\<in>set fault_vectors. gate idt (unat (fault_number code)) = Some (stub j, 8, type = Interrupt)"
    by blast
  obtain vmm where vmm: "init_memory m (kvmm k) bs = Inr vmm" "vmm_wf vmm"
    "used_frames (vmm_pmm vmm) = kernel_frames bs (loader_areas m bs n)" "identity_removed (kvmm k) vmm" "memory_kept (kvmm k) vmm"
    using init_memory_char [OF assms(3-5)] by blast
  note irqs = take_irqs_boot [OF _ assms(8,9)]
  obtain s1 where s1: "take_irqs pit ps2 (js 0) (I8259.Initialize (krun k)) = Inr s1" "boot_inv (krun k) [] s1"
    by (rule irqs [OF boot_inv_Initialize [OF assms(6)]]) auto
  obtain s2 where s2: "take_irqs pit ps2 (js 1) s1 = Inr s2" "boot_inv (krun k) [] s2"
    by (rule irqs [OF s1(2)]) auto
  note init = init_devices_from [OF s2(2) assms(6-9), where js = js]
  have main: "kernel_init base stub irqs pit ps2 devs js bs k =
      and_then (init_devices pit ps2 devs js (detect_smbios vmm) s2) (\<lambda>((_, _, vmm), _, _, s).
        Inr (k\<lparr>kvmm := vmm, kidt := idt, krun := s\<rparr>))"
    using assms(2) idt(1,2) vmm(1) s1(1) s2(1) by (simp add: kernel_init_def Let_def m_def)
  show ?thesis
  proof (intro exI [of _ vmm] conjI vmm)
    show "case detect_smbios vmm of
       Inl e \<Rightarrow> kernel_init base stub irqs pit ps2 devs js bs k = Inl e
     | Inr (report, p, vmm') \<Rightarrow> \<exists>k'. kernel_init base stub irqs pit ps2 devs js bs k = Inr k' \<and>
         kvmm k' = vmm' \<and> lines_ready pit ps2 (krun k') \<and>
         (\<forall>j<16. gate (kidt k') (32 + j) = Some (irqs ! j, 8, True)) \<and>
         (\<forall>(code, j, type)\<in>set fault_vectors. gate (kidt k') (unat (fault_number code)) = Some (stub j, 8, type = Interrupt))"
      unfolding main using init [where smbios = "detect_smbios vmm"] idt(3,4)
      by (cases "detect_smbios vmm") auto
  qed
qed

definition boot_kernel :: kernel where
  "boot_kernel = \<lparr>kvmm = loader_vmm, kidt = empty_idt, krun = boot_machine\<rparr>"

end
