(* ===== verification/Interrupt_Stubs.thy ===== *)
theory Interrupt_Stubs
  imports Runtime
begin

text \<open>
  The assembly stubs of the interrupts (arch/x86/IRQHandler.S, arch/x86/FaultHandler.S): what the
  processor pushes when it takes an interrupt through a gate, the instructions of the stubs, which
  build the structures \<open>IRQRegs\<close> and \<open>FaultRegs\<close> on the stack, call the dispatcher and undo
  everything, and \<open>iret\<close>. The dispatchers are compiled C++: what a call of them does to the processor is
  given by the calling convention.
\<close>

unbundle bit_operations_syntax

section \<open>The processor\<close>

datatype reg = EAX | ECX | EDX | EBX | ESP | EBP | ESI | EDI
datatype sreg = CS | DS | ES | FS | GS | SS

text \<open>
  \<open>stack\<close> is the memory as words, addressed by virtual addresses; all accesses are aligned while
  ESP is. A push of a segment register writes four bytes on some processors and two on others
  (\<open>wide_push\<close>). \<open>pc\<close> is where the interrupted code goes on; it does not move inside a stub. \<open>world\<close>
  is the state of the kernel that the C++ code works on.
\<close>

record 'k cpu =
  regs :: "reg \<Rightarrow> u32"
  sregs :: "sreg \<Rightarrow> u16"
  pc :: u32
  efl :: u32
  stack :: "u32 \<Rightarrow> u32"
  wide_push :: bool
  world :: 'k

definition push :: "u32 \<Rightarrow> 'k cpu \<Rightarrow> 'k cpu" where
  "push x c = c\<lparr>regs := (regs c)(ESP := regs c ESP - 4), stack := (stack c)(regs c ESP - 4 := x)\<rparr>"

definition tos :: "'k cpu \<Rightarrow> u32" where
  "tos c = stack c (regs c ESP)"

definition drop_words :: "u32 \<Rightarrow> 'k cpu \<Rightarrow> 'k cpu" where
  "drop_words n c = c\<lparr>regs := (regs c)(ESP := regs c ESP + 4 * n)\<rparr>"

definition set_reg :: "reg \<Rightarrow> u32 \<Rightarrow> 'k cpu \<Rightarrow> 'k cpu" where
  "set_reg r x c = c\<lparr>regs := (regs c)(r := x)\<rparr>"

definition set_sreg :: "sreg \<Rightarrow> u16 \<Rightarrow> 'k cpu \<Rightarrow> 'k cpu" where
  "set_sreg r x c = c\<lparr>sregs := (sregs c)(r := x)\<rparr>"

text \<open>The word a push of a segment register leaves where \<open>old\<close> was.\<close>

definition seg_word :: "bool \<Rightarrow> u32 \<Rightarrow> u16 \<Rightarrow> u32" where
  "seg_word wide old x = (if wide then ucast x else (old AND 0xffff0000) OR ucast x)"

definition push_sreg :: "sreg \<Rightarrow> 'k cpu \<Rightarrow> 'k cpu" where
  "push_sreg r c = push (seg_word (wide_push c) (stack c (regs c ESP - 4)) (sregs c r)) c"

definition pop_reg :: "reg \<Rightarrow> 'k cpu \<Rightarrow> 'k cpu" where
  "pop_reg r c = set_reg r (tos c) (drop_words 1 c)"

definition pop_sreg :: "sreg \<Rightarrow> 'k cpu \<Rightarrow> 'k cpu" where
  "pop_sreg r c = set_sreg r (ucast (tos c)) (drop_words 1 c)"

text \<open>
  An interrupt taken in the kernel itself, through a gate with the handler's address, its selector
  and whether it is an interrupt gate: the stack is not switched, so neither SS nor ESP is pushed.
  TF, NT, RF and VM are cleared, and IF by an interrupt gate. Some exceptions push an error code.
\<close>

definition take_interrupt :: "u32 \<times> u16 \<times> bool \<Rightarrow> u32 option \<Rightarrow> 'k cpu \<Rightarrow> 'k cpu" where
  "take_interrupt = (\<lambda>(handler, sel, interrupt_gate) code c.
     let c' = push (pc c) (push_sreg CS (push (efl c) c));
         c' = (case code of None \<Rightarrow> c' | Some e \<Rightarrow> push e c')
     in set_sreg CS sel (c'\<lparr>pc := handler, efl := efl c AND NOT (if interrupt_gate then 0x34300 else 0x34100)\<rparr>))"

section \<open>The instructions of the stubs\<close>

datatype instr =
    Cli
  | Push_imm u32
  | Pushal
  | Push_sreg sreg
  | Mov_imm_ax u16
  | Mov_ax_sreg sreg
  | Mov_esp_eax
  | Mov_imm_eax u32
  | Push_reg reg
  | Call_eax
  | Pop_reg reg
  | Pop_sreg sreg
  | Popal
  | Add_esp u32
  | Iret

text \<open>
  One instruction. \<open>callee\<close> is the code behind an address, up to and with its \<open>ret\<close>; it may not
  return (\<open>Inl\<close>). \<open>link\<close> is the address behind the call instruction. \<open>Pushal\<close> pushes the ESP from
  before, and \<open>Popal\<close> skips it. \<open>Add_esp\<close> also sets the flags, which \<open>iret\<close> overwrites.
\<close>

fun exec_instr :: "(u32 \<Rightarrow> 'k cpu \<Rightarrow> 'e + 'k cpu) \<Rightarrow> u32 \<Rightarrow> instr \<Rightarrow> 'k cpu \<Rightarrow> 'e + 'k cpu" where
  "exec_instr callee link Cli c = Inr (c\<lparr>efl := efl c AND NOT 0x200\<rparr>)"
| "exec_instr callee link (Push_imm x) c = Inr (push x c)"
| "exec_instr callee link Pushal c = Inr (fold push (map (regs c) [EAX, ECX, EDX, EBX, ESP, EBP, ESI, EDI]) c)"
| "exec_instr callee link (Push_sreg r) c = Inr (push_sreg r c)"
| "exec_instr callee link (Mov_imm_ax x) c = Inr (set_reg EAX ((regs c EAX AND 0xffff0000) OR ucast x) c)"
| "exec_instr callee link (Mov_ax_sreg r) c = Inr (set_sreg r (ucast (regs c EAX)) c)"
| "exec_instr callee link Mov_esp_eax c = Inr (set_reg EAX (regs c ESP) c)"
| "exec_instr callee link (Mov_imm_eax x) c = Inr (set_reg EAX x c)"
| "exec_instr callee link (Push_reg r) c = Inr (push (regs c r) c)"
| "exec_instr callee link Call_eax c = callee (regs c EAX) (push link c)"
| "exec_instr callee link (Pop_reg r) c = Inr (pop_reg r c)"
| "exec_instr callee link (Pop_sreg r) c = Inr (pop_sreg r c)"
| "exec_instr callee link Popal c =
     Inr (fold pop_reg [EBX, EDX, ECX, EAX] (drop_words 1 (fold pop_reg [EDI, ESI, EBP] c)))"
| "exec_instr callee link (Add_esp x) c = Inr (set_reg ESP (regs c ESP + x) c)"
| "exec_instr callee link Iret c =
     (let c1 = drop_words 1 c; c2 = drop_words 1 c1
      in Inr (drop_words 1 (c2\<lparr>pc := tos c, sregs := (sregs c)(CS := ucast (tos c1)), efl := tos c2\<rparr>)))"

fun exec :: "(u32 \<Rightarrow> 'k cpu \<Rightarrow> 'e + 'k cpu) \<Rightarrow> u32 \<Rightarrow> instr list \<Rightarrow> 'k cpu \<Rightarrow> 'e + 'k cpu" where
  "exec callee link [] c = Inr c"
| "exec callee link (i # is) c =
     (case exec_instr callee link i c of Inl e \<Rightarrow> Inl e | Inr c \<Rightarrow> exec callee link is c)"

section \<open>The stubs\<close>

definition irq_asm_common :: "u32 \<Rightarrow> instr list" where
  "irq_asm_common dispatcher =
     [Pushal, Push_sreg DS, Push_sreg ES, Push_sreg FS, Push_sreg GS,
      Mov_imm_ax 0x10, Mov_ax_sreg DS, Mov_ax_sreg ES, Mov_ax_sreg FS, Mov_ax_sreg GS,
      Mov_esp_eax, Push_reg EAX, Mov_imm_eax dispatcher, Call_eax,
      Pop_reg EAX, Pop_sreg GS, Pop_sreg FS, Pop_sreg ES, Pop_sreg DS,
      Popal, Add_esp 4, Iret]"

definition irq_stub :: "u32 \<Rightarrow> nat \<Rightarrow> instr list" where
  "irq_stub dispatcher irqno = [Cli, Push_imm (of_nat irqno)] @ irq_asm_common dispatcher"

definition fault_asm_common :: "u32 \<Rightarrow> instr list" where
  "fault_asm_common dispatcher =
     [Pushal, Push_sreg DS, Push_sreg ES, Push_sreg FS, Push_sreg GS,
      Mov_imm_ax 0x10, Mov_ax_sreg DS, Mov_ax_sreg ES, Mov_ax_sreg FS, Mov_ax_sreg GS,
      Mov_esp_eax, Push_reg EAX, Mov_imm_eax dispatcher, Call_eax,
      Pop_reg EAX, Pop_sreg GS, Pop_sreg FS, Pop_sreg ES, Pop_sreg DS,
      Popal, Add_esp 8, Iret]"

definition fault_nocode :: "u32 \<Rightarrow> nat \<Rightarrow> instr list" where
  "fault_nocode dispatcher faultnum = [Push_imm 0, Push_imm (of_nat faultnum)] @ fault_asm_common dispatcher"

definition fault_code :: "u32 \<Rightarrow> nat \<Rightarrow> instr list" where
  "fault_code dispatcher faultnum = [Cli, Push_imm (of_nat faultnum)] @ fault_asm_common dispatcher"

text \<open>The stubs \<open>fault0\<close> to \<open>fault14\<close>; there is no \<open>fault9\<close>.\<close>

definition fault_stub :: "u32 \<Rightarrow> nat \<Rightarrow> instr list" where
  "fault_stub dispatcher faultnum =
     (if faultnum \<in> {8, 10, 11, 12, 13, 14} then fault_code dispatcher faultnum
      else fault_nocode dispatcher faultnum)"

section \<open>The structures on the stack\<close>

record IRQRegs =
  gs :: u32
  fs :: u32
  es :: u32
  ds :: u32
  edi :: u32
  esi :: u32
  ebp :: u32
  old_esp :: u32
  ebx :: u32
  edx :: u32
  ecx :: u32
  eax :: u32
  irq_no :: u32
  eip :: u32
  cs :: u32
  eflags :: u32
  esp :: u32
  ss :: u32

definition read_IRQRegs :: "(u32 \<Rightarrow> u32) \<Rightarrow> u32 \<Rightarrow> IRQRegs" where
  "read_IRQRegs m p =
     \<lparr>gs = m p, fs = m (p + 4), es = m (p + 8), ds = m (p + 12), edi = m (p + 16), esi = m (p + 20),
      ebp = m (p + 24), old_esp = m (p + 28), ebx = m (p + 32), edx = m (p + 36), ecx = m (p + 40),
      eax = m (p + 44), irq_no = m (p + 48), eip = m (p + 52), cs = m (p + 56), eflags = m (p + 60),
      esp = m (p + 64), ss = m (p + 68)\<rparr>"

definition read_FaultRegs :: "(u32 \<Rightarrow> u32) \<Rightarrow> u32 \<Rightarrow> FaultRegs" where
  "read_FaultRegs m p =
     \<lparr>FaultRegs.gs = m p, fs = m (p + 4), es = m (p + 8), ds = m (p + 12), edi = m (p + 16), esi = m (p + 20),
      ebp = m (p + 24), old_esp = m (p + 28), ebx = m (p + 32), edx = m (p + 36), ecx = m (p + 40),
      eax = m (p + 44), int_no = m (p + 48), error_code = m (p + 52), eip = m (p + 56), cs = m (p + 60),
      eflags = m (p + 64), esp = m (p + 68), ss = m (p + 72)\<rparr>"

text \<open>
  What \<open>read_IRQRegs\<close> and \<open>read_FaultRegs\<close> find when the kernel was interrupted in the state \<open>c\<close>: the last two
  fields are not a stack pointer and its segment but the words on top of the interrupted stack,
  since the processor does not push those two.
\<close>

definition pushed_sreg :: "u32 \<Rightarrow> sreg \<Rightarrow> 'k cpu \<Rightarrow> u32" where
  "pushed_sreg k r c = seg_word (wide_push c) (stack c (regs c ESP - k)) (sregs c r)"

definition irq_frame :: "nat \<Rightarrow> 'k cpu \<Rightarrow> IRQRegs" where
  "irq_frame irqno c =
     \<lparr>gs = pushed_sreg 64 GS c, fs = pushed_sreg 60 FS c, es = pushed_sreg 56 ES c, ds = pushed_sreg 52 DS c,
      edi = regs c EDI, esi = regs c ESI, ebp = regs c EBP, old_esp = regs c ESP - 16, ebx = regs c EBX,
      edx = regs c EDX, ecx = regs c ECX, eax = regs c EAX, irq_no = of_nat irqno,
      eip = pc c, cs = pushed_sreg 8 CS c, eflags = efl c, esp = tos c, ss = stack c (regs c ESP + 4)\<rparr>"

definition fault_frame :: "nat \<Rightarrow> u32 \<Rightarrow> 'k cpu \<Rightarrow> FaultRegs" where
  "fault_frame faultnum code c =
     \<lparr>FaultRegs.gs = pushed_sreg 68 GS c, fs = pushed_sreg 64 FS c, es = pushed_sreg 60 ES c, ds = pushed_sreg 56 DS c,
      edi = regs c EDI, esi = regs c ESI, ebp = regs c EBP, old_esp = regs c ESP - 20, ebx = regs c EBX,
      edx = regs c EDX, ecx = regs c ECX, eax = regs c EAX, int_no = of_nat faultnum, error_code = code,
      eip = pc c, cs = pushed_sreg 8 CS c, eflags = efl c, esp = tos c, ss = stack c (regs c ESP + 4)\<rparr>"

section \<open>The dispatchers as compiled code\<close>

text \<open>
  How code ends: as the model function does, which does not return or comes to a new world, and in a
  state with the property \<open>P\<close>.
\<close>

definition ends_in :: "'e + 'k cpu \<Rightarrow> 'e + 'k \<Rightarrow> ('k cpu \<Rightarrow> bool) \<Rightarrow> bool" where
  "ends_in x r P \<longleftrightarrow> (case r of Inl e \<Rightarrow> x = Inl e | Inr w \<Rightarrow> \<exists>c. x = Inr c \<and> world c = w \<and> P c)"

text \<open>
  A compiled function with one pointer as its argument, under the calling convention of the target:
  it does to the world what \<open>f\<close> says, given the structure behind the pointer (\<open>view\<close>); if it returns,
  it has popped its return address, EBX, ESI, EDI, EBP and the segment registers are what they were, and it has
  written only to the addresses \<open>own\<close>, to \<open>room\<close> bytes below its frame and to its argument.
\<close>

definition compiled :: "((u32 \<Rightarrow> u32) \<Rightarrow> u32 \<Rightarrow> 'r) \<Rightarrow> u32 set \<Rightarrow> nat \<Rightarrow> ('r \<Rightarrow> 'k \<Rightarrow> 'e + 'k) \<Rightarrow>
    ('k cpu \<Rightarrow> 'e + 'k cpu) \<Rightarrow> bool" where
  "compiled view own room f g \<longleftrightarrow>
     (\<forall>c. ends_in (g c) (f (view (stack c) (stack c (regs c ESP + 4))) (world c)) (\<lambda>c'.
        regs c' ESP = regs c ESP + 4 \<and> (\<forall>r\<in>{EBX, ESI, EDI, EBP}. regs c' r = regs c r) \<and>
        sregs c' = sregs c \<and> wide_push c' = wide_push c \<and>
        (\<forall>a. a \<notin> own \<and> \<not> in_region (regs c ESP - of_nat room) (room + 8) a \<longrightarrow> stack c' a = stack c a)))"

text \<open>
  The two dispatchers. The interrupt dispatcher only looks at the number of the line; the fault
  dispatcher either returns, with the fault solved, or stops the processor with a report.
\<close>

definition irq_call :: "(u32 \<Rightarrow> u32 \<Rightarrow> 'a irq_machine_scheme \<Rightarrow> 'a irq_machine_scheme result) \<Rightarrow>
    IRQRegs \<Rightarrow> 'a irq_machine_scheme \<Rightarrow> 'a irq_machine_scheme result" where
  "irq_call on_irq r = IRQDispatcher on_irq (irq_no r)"

definition fault_call :: "u32 \<Rightarrow> FaultRegs \<Rightarrow> fault_state \<Rightarrow> fault_outcome + fault_state" where
  "fault_call cr2 r s = (case FaultDispatcher s cr2 r of Resumed \<Rightarrow> Inr s | report \<Rightarrow> Inl report)"

text \<open>The exceptions with which the processor pushes an error code.\<close>

definition error_code_vectors :: "nat set" where
  "error_code_vectors = {8, 10, 11, 12, 13, 14, 17}"

section \<open>Interrupts while the kernel waits\<close>

text \<open>
  The interrupts \<open>js\<close>, one after the other, in the idle loop: if interrupts are disabled, its \<open>hlt\<close>
  waits for ever. \<open>code\<close> is the program at an address.
\<close>

fun deliver :: "(u32 \<Rightarrow> instr list) \<Rightarrow> (u32 \<Rightarrow> 'k cpu \<Rightarrow> 'k cpu result) \<Rightarrow> u32 \<Rightarrow> IDT \<Rightarrow> nat list \<Rightarrow>
    'k cpu \<Rightarrow> 'k cpu result" where
  "deliver code callee link idt [] c = Inr c"
| "deliver code callee link idt (j # js) c =
     (if efl c AND 0x200 = 0 then Inl Hang
      else case gate idt (32 + j) of
             None \<Rightarrow> Inl (Undefined ''IDT: no gate'')
           | Some g \<Rightarrow> and_then (exec callee link (code (fst g)) (take_interrupt g None c)) (deliver code callee link idt js))"

end
