(* ===== verification/Runtime_Properties.thy ===== *)
theory Runtime_Properties
  imports Boot_Properties
begin

text \<open>
  What holds after the boot under any sequence of interrupts: an invariant of the step relation,
  and that every interrupt that can come is handled.
\<close>

unbundle bit_operations_syntax

lemma same_irq_lines: "same_irq s t \<Longrightarrow> lines_ready pit kbd t = lines_ready pit kbd s"
  by (simp add: same_irq_def lines_ready_def pic_ready_def masked_def active_def)

text \<open>What one interrupt of a line does, by the line.\<close>

definition interrupts :: "nat set" where
  "interrupts = {0, 1, 2, 7, 12, 15}"

lemma dispatch_ready:
  assumes ready: "lines_ready pit kbd s" and dev: "pit \<noteq> 0" "kbd \<noteq> 0" "pit \<noteq> kbd" and j: "j < 16"
  shows "\<exists>t. IRQDispatcher (device_irq pit kbd) (of_nat j) s = Inr t \<and> lines_ready pit kbd t \<and>
    clock t = (if j = 0 then PIT_OnIRQ (clock s) else clock s) \<and>
    length (logged t) = length (logged s) + (if j = 1 \<or> j = 12 then 1 else 0)"
proof -
  have u: "unat (of_nat j :: u32) = j" using j by (simp add: unat_of_nat_small)
  have irq: "(of_nat j :: u32) < 16" using j by (simp add: word_less_nat_alt u)
  have "table_ok (irqHandlers s)" using ready by (simp add: lines_ready_def)
  note run = IRQDispatcher_char [where on_irq = "device_irq pit kbd", OF device_irq_handlers this irq, unfolded u]
  have active: "active s j = (if j = 0 then [pit] else if j = 1 \<or> j = 12 then [kbd] else [])"
    using ready j by (simp add: lines_ready_def)
  have "\<exists>u. run_handlers (device_irq pit kbd) (of_nat j) (active s j) s = Inr u \<and> same_irq s u \<and>
      clock u = (if j = 0 then PIT_OnIRQ (clock s) else clock s) \<and>
      length (logged u) = length (logged s) + (if j = 1 \<or> j = 12 then 1 else 0)"
  proof (cases "j = 1 \<or> j = 12")
    case True
    then have kbd: "(of_nat j :: u32) = 1 \<or> (of_nat j :: u32) = 12" by auto
    then obtain v where "fst (PS2_OnIRQ (of_nat j) s) = Some v" using PS2_OnIRQ_frame(4) [of "of_nat j" s] by auto
    then have p: "PS2_OnIRQ (of_nat j) s = (Some v, snd (PS2_OnIRQ (of_nat j) s))" by (metis prod.collapse)
    have "device_irq pit kbd kbd (of_nat j) s =
        Inr ((snd (PS2_OnIRQ (of_nat j) s))\<lparr>logged := v # logged s\<rparr>)"
      using dev(3) by (subst device_irq_def, subst p) (simp add: PS2_OnIRQ_frame(3))
    moreover have "active s j = [kbd]" using True active by auto
    ultimately show ?thesis
      using True PS2_OnIRQ_frame(1,2) [where s = s and irq_no = "of_nat j"] by (auto simp: same_irq_def master_def slave_def)
  next
    case False
    then show ?thesis
      using dev active by (cases "j = 0") (auto simp: device_irq_def same_irq_def master_def slave_def)
  qed
  then obtain u where u: "run_handlers (device_irq pit kbd) (of_nat j) (active s j) s = Inr u" "same_irq s u"
    "clock u = (if j = 0 then PIT_OnIRQ (clock s) else clock s)"
    "length (logged u) = length (logged s) + (if j = 1 \<or> j = 12 then 1 else 0)" by blast
  then have "IRQDispatcher (device_irq pit kbd) (of_nat j) s = Inr (SendEOI (of_nat j) u)" by (simp add: run)
  moreover have "lines_ready pit kbd (SendEOI (of_nat j) u)"
    using ready same_irq_lines [OF same_irq_SendEOI [OF u(2)]] by blast
  ultimately show ?thesis using u(3,4) runtime_more [OF SendEOI_frame(5) [of "of_nat j" u]] by auto
qed

section \<open>Runs\<close>

lemma irq_step_possible:
  assumes "lines_ready pit kbd s" "pit \<noteq> 0" "kbd \<noteq> 0" "pit \<noteq> kbd"
  shows "(\<exists>t. irq_step pit kbd j s t) \<longleftrightarrow> j \<in> interrupts"
proof
  assume "\<exists>t. irq_step pit kbd j s t"
  then show "j \<in> interrupts" using assms(1) by (auto simp: irq_step_iff lines_ready_def interrupts_def)
next
  assume j: "j \<in> interrupts"
  then have "j < 16" "\<not> masked s j \<or> j = 7 \<or> j = 15" using assms(1) by (auto simp: lines_ready_def interrupts_def)
  then show "\<exists>t. irq_step pit kbd j s t" using dispatch_ready [OF assms] by (auto simp: irq_step_iff)
qed

lemma irq_step_effect:
  assumes "irq_step pit kbd j s t" "lines_ready pit kbd s" "pit \<noteq> 0" "kbd \<noteq> 0" "pit \<noteq> kbd"
  shows "lines_ready pit kbd t" "clock t = (if j = 0 then Tick (clock s) else clock s)"
    "length (logged t) = length (logged s) + (if j = 1 \<or> j = 12 then 1 else 0)"
proof -
  have "j < 16" "IRQDispatcher (device_irq pit kbd) (of_nat j) s = Inr t"
    using assms(1) by (auto simp: irq_step_iff)
  then have "lines_ready pit kbd t \<and> clock t = (if j = 0 then Tick (clock s) else clock s) \<and>
      length (logged t) = length (logged s) + (if j = 1 \<or> j = 12 then 1 else 0)"
    using dispatch_ready [OF assms(2-5)] by (fastforce simp: PIT_OnIRQ_def)
  then show "lines_ready pit kbd t" "clock t = (if j = 0 then Tick (clock s) else clock s)"
    "length (logged t) = length (logged s) + (if j = 1 \<or> j = 12 then 1 else 0)" by blast+
qed

lemma irq_run_effect:
  "irq_run pit kbd js s t \<Longrightarrow> pit \<noteq> 0 \<Longrightarrow> kbd \<noteq> 0 \<Longrightarrow> pit \<noteq> kbd \<Longrightarrow> lines_ready pit kbd s \<Longrightarrow>
    set js \<subseteq> interrupts \<and> lines_ready pit kbd t \<and> clock t = (Tick ^^ count_list js 0) (clock s) \<and>
    length (logged t) = length (logged s) + count_list js 1 + count_list js 12"
proof (induction rule: irq_run.induct)
  case (Next j s t js u)
  note step = irq_step_effect [OF Next.hyps(1) Next.prems(4,1-3)]
  have "j \<in> interrupts" using irq_step_possible [OF Next.prems(4,1-3)] Next.hyps(1) by blast
  then show ?case using Next.IH [OF Next.prems(1-3) step(1)] step(2,3) by (auto simp: funpow_swap1)
qed simp

lemma irq_run_possible:
  "lines_ready pit kbd s \<Longrightarrow> pit \<noteq> 0 \<Longrightarrow> kbd \<noteq> 0 \<Longrightarrow> pit \<noteq> kbd \<Longrightarrow> set js \<subseteq> interrupts \<Longrightarrow>
    \<exists>t. irq_run pit kbd js s t"
proof (induction js arbitrary: s)
  case Nil
  then show ?case by (auto intro: irq_run.intros)
next
  case (Cons j js)
  then obtain t where t: "irq_step pit kbd j s t" using irq_step_possible [of pit kbd s j] by auto
  then have "lines_ready pit kbd t" using irq_step_effect(1) Cons.prems by blast
  then obtain u where "irq_run pit kbd js t u" using Cons by auto
  then show ?case using t irq_run.Next by blast
qed

lemma Tick_ticks: "unat (ticks ((Tick ^^ n) t)) = (unat (ticks t) + n) mod 2 ^ 64"
proof (induction n)
  case (Suc n)
  have "ticks (Tick u) = ticks u + 1" for u by (simp add: Tick_def Let_def)
  then show ?case using Suc by (simp add: unat_word_ariths mod_simps)
qed (use unsigned_less [of "ticks t", where 'a = nat] in simp)

text \<open>
  C39. From the state the boot establishes the kernel runs for ever. Whatever sequence of interrupts
  comes, it is handled if and only if each of them is of the timer, the keyboard, the mouse, the
  cascade or spurious, and no others can come; the lines and handlers stay as they are, the
  clock counts exactly the interrupts of the timer, and every one of the keyboard and the mouse
  logs exactly one value.
\<close>

theorem interrupts_handled:
  assumes "lines_ready pit kbd s" "pit \<noteq> 0" "kbd \<noteq> 0" "pit \<noteq> kbd"
  shows "((\<exists>t. irq_run pit kbd js s t) \<longleftrightarrow> set js \<subseteq> {0, 1, 2, 7, 12, 15}) \<and>
    (\<forall>t. irq_run pit kbd js s t \<longrightarrow> lines_ready pit kbd t \<and>
       unat (ticks (clock t)) = (unat (ticks (clock s)) + count_list js 0) mod 2 ^ 64 \<and>
       length (logged t) = length (logged s) + count_list js 1 + count_list js 12)"
  using irq_run_effect [OF _ assms(2-4,1)] irq_run_possible [OF assms] Tick_ticks
  unfolding interrupts_def by metis

text \<open>The machine as the boot leaves it, with the clock at 0.\<close>

lemma booted_machine:
  obtains s :: runtime where "lines_ready 0xc0130000 0xc0130100 s" "clock s = \<lparr>ticks = 0, printed = []\<rparr>" "logged s = []"
proof -
  obtain s :: runtime where s: "lines_ready 0xc0130000 0xc0130100 s"
    using init_devices_char [OF boot_machine, of "0xc0130000" "0xc0130100" "\<lambda>_. []" "()"] by auto
  let ?s = "s\<lparr>clock := \<lparr>ticks = 0, printed = []\<rparr>, logged := []\<rparr>"
  have "same_irq s ?s" by (simp add: same_irq_def master_def slave_def)
  then have "lines_ready 0xc0130000 0xc0130100 ?s" using s same_irq_lines by blast
  then show ?thesis by (rule that) simp_all
qed

theorem interrupts_handled_witness:
  "\<exists>s t. lines_ready 0xc0130000 0xc0130100 s \<and> irq_run 0xc0130000 0xc0130100 [0, 1, 0, 7, 12, 0] s t \<and>
    unat (ticks (clock t)) = 3 \<and> length (logged t) = 2"
proof -
  obtain s :: runtime where ready: "lines_ready 0xc0130000 0xc0130100 s" and s: "clock s = \<lparr>ticks = 0, printed = []\<rparr>" "logged s = []"
    by (rule booted_machine)
  have addresses: "(0xc0130000 :: u32) \<noteq> 0" "(0xc0130100 :: u32) \<noteq> 0" "(0xc0130000 :: u32) \<noteq> 0xc0130100" by simp_all
  have "set [0, 1, 0, 7, 12, 0] \<subseteq> {0, 1, 2, 7, 12, 15 :: nat}" by simp
  then obtain t where t: "irq_run 0xc0130000 0xc0130100 [0, 1, 0, 7, 12, 0] s t"
    using interrupts_handled [OF ready addresses, of "[0, 1, 0, 7, 12, 0]"] by blast
  then have "unat (ticks (clock t)) = 3" "length (logged t) = 2"
    using interrupts_handled [OF ready addresses, of "[0, 1, 0, 7, 12, 0]"] by (auto simp: s)
  then show ?thesis using ready t by blast
qed

end
