(* ===== verification/Stub_Properties.thy ===== *)
theory Stub_Properties
  imports Interrupt_Stubs Runtime_Properties
begin

text \<open>
  The assembly stubs: what they leave on the stack for the dispatchers, that they restore every register
  and the flags, and that interrupts of the running kernel go through them to the run of
  the dispatcher that \<open>irq_run\<close> describes.
\<close>

unbundle bit_operations_syntax

lemma ucast_seg_word [simp]: "ucast (seg_word wide old x) = x"
proof -
  have "(0xffff0000 :: u32) = push_bit 16 0xffff" by simp
  then have high: "\<not> bit (0xffff0000 :: u32) n" if "n < 16" for n using that by (simp only: bit_push_bit_iff) simp
  show ?thesis
    by (rule bit_word_eqI) (use high in \<open>auto simp: seg_word_def bit_simps dest: bit_imp_le_length\<close>)
qed

lemma ax_word [simp]: "ucast ((x AND 0xffff0000) OR 0x10 :: u32) = (0x10 :: u16)"
  using ucast_seg_word [of False x "0x10"] by (simp add: seg_word_def)

lemma exec_append:
  "exec callee link (is @ js) c = (case exec callee link is c of Inl e \<Rightarrow> Inl e | Inr c \<Rightarrow> exec callee link js c)"
  by (induction "is" arbitrary: c) (auto split: sum.split)

definition save_regs :: "instr list" where
  "save_regs = [Pushal, Push_sreg DS, Push_sreg ES, Push_sreg FS, Push_sreg GS,
      Mov_imm_ax 0x10, Mov_ax_sreg DS, Mov_ax_sreg ES, Mov_ax_sreg FS, Mov_ax_sreg GS,
      Mov_esp_eax, Push_reg EAX]"

definition restore_regs :: "u32 \<Rightarrow> instr list" where
  "restore_regs n = [Pop_reg EAX, Pop_sreg GS, Pop_sreg FS, Pop_sreg ES, Pop_sreg DS, Popal, Add_esp n, Iret]"

lemma stubs_split:
  "irq_asm_common d = save_regs @ [Mov_imm_eax d, Call_eax] @ restore_regs 4"
  "fault_asm_common d = save_regs @ [Mov_imm_eax d, Call_eax] @ restore_regs 8"
  by (simp_all add: irq_asm_common_def fault_asm_common_def save_regs_def restore_regs_def)

lemmas instr_defs = push_def tos_def drop_words_def set_reg_def set_sreg_def push_sreg_def pop_reg_def pop_sreg_def Let_def


definition saved_words :: "'k cpu \<Rightarrow> u32 list" where
  "saved_words c =
     (let e = regs c ESP; seg = (\<lambda>k r. seg_word (wide_push c) (stack c (e - k)) (sregs c r))
      in [seg 48 GS, seg 44 FS, seg 40 ES, seg 36 DS, regs c EDI, regs c ESI, regs c EBP, e,
          regs c EBX, regs c EDX, regs c ECX, regs c EAX])"

definition words_at :: "(u32 \<Rightarrow> u32) \<Rightarrow> u32 \<Rightarrow> u32 list \<Rightarrow> bool" where
  "words_at m p ws \<longleftrightarrow> (\<forall>k<length ws. m (p + 4 * of_nat k) = ws ! k)"

lemma length_saved_words [simp]: "length (saved_words c) = 12"
  by (simp add: saved_words_def Let_def)

lemma words_at_Nil [simp]: "words_at m p []"
  by (simp add: words_at_def)

lemma words_at_Cons [simp]: "words_at m p (w # ws) \<longleftrightarrow> m p = w \<and> words_at m (p + 4) ws"
  by (simp add: words_at_def All_less_Suc2 algebra_simps)

lemma regs_set_reg [simp]: "regs (set_reg r x c) r = x"
  by (simp add: set_reg_def)

lemma save_regs:
  fixes c :: "'k cpu"
  defines "e \<equiv> regs c ESP"
  shows "\<exists>c'. exec callee link save_regs c = Inr c' \<and> regs c' ESP = e - 52 \<and> stack c' (e - 52) = e - 48 \<and>
    words_at (stack c') (e - 48) (saved_words c) \<and> pc c' = pc c \<and> world c' = world c \<and> wide_push c' = wide_push c \<and>
    sregs c' = (sregs c)(DS := 0x10, ES := 0x10, FS := 0x10, GS := 0x10) \<and>
    (\<forall>a. \<not> in_region (e - 52) 52 a \<longrightarrow> stack c' a = stack c a)"
proof -
  have in_frame: "in_region (e - 52) 52 (e - 52 + of_nat (4 * k))" if "k < 13" for k
    using that by (intro in_regionI) simp_all
  show ?thesis
    unfolding save_regs_def e_def
    using in_frame [of 0] in_frame [of 1] in_frame [of 2] in_frame [of 3] in_frame [of 4] in_frame [of 5] in_frame [of 6]
      in_frame [of 7] in_frame [of 8] in_frame [of 9] in_frame [of 10] in_frame [of 11] in_frame [of 12]
    by (simp add: instr_defs saved_words_def e_def)
qed

lemma restore_regs:
  fixes c :: "'k cpu"
  defines "p \<equiv> regs c ESP + 4"
  assumes "words_at (stack c) p [g, f, e, d, di, si, bp, x, bx, dx, cx, ax]" "words_at (stack c) (p + 48 + n) [ip, code_sel, fl]"
  shows "\<exists>c'. exec callee link (restore_regs n) c = Inr c' \<and>
    regs c' = (\<lambda>r. case r of EAX \<Rightarrow> ax | ECX \<Rightarrow> cx | EDX \<Rightarrow> dx | EBX \<Rightarrow> bx | ESP \<Rightarrow> p + 60 + n | EBP \<Rightarrow> bp | ESI \<Rightarrow> si | EDI \<Rightarrow> di) \<and>
    sregs c' = (sregs c)(GS := ucast g, FS := ucast f, ES := ucast e, DS := ucast d, CS := ucast code_sel) \<and>
    pc c' = ip \<and> efl c' = fl \<and> stack c' = stack c \<and> world c' = world c \<and> wide_push c' = wide_push c"
  using assms(2,3) unfolding restore_regs_def p_def
  by (simp add: instr_defs algebra_simps) (auto simp: fun_eq_iff algebra_simps split: reg.splits)



text \<open>A region cut in two.\<close>

lemma words_at_cong:
  assumes "\<forall>a. in_region p (4 * length ws) a \<longrightarrow> m' a = m a" "4 * length ws \<le> 2 ^ 32"
  shows "words_at m' p ws \<longleftrightarrow> words_at m p ws"
proof -
  have "in_region p (4 * length ws) (p + 4 * of_nat k)" if "k < length ws" for k
    using in_regionI [of "4 * k" "4 * length ws" p] that assms(2) by simp
  then show ?thesis using assms(1) by (simp add: words_at_def)
qed

lemma ends_in_mono: "ends_in x r P \<Longrightarrow> (\<And>c. P c \<Longrightarrow> Q c) \<Longrightarrow> ends_in x r Q"
  by (auto simp: ends_in_def split: sum.splits)

section \<open>Through a stub\<close>

text \<open>
  From the state \<open>c\<close> behind the push of the number to the first instruction of the dispatcher, which
  finds the structure at \<open>p\<close>.
\<close>

lemma stub_enters:
  fixes c :: "'k cpu"
  defines "p \<equiv> regs c ESP - 48"
  obtains c2 where "\<And>is. exec callee link (save_regs @ [Mov_imm_eax d, Call_eax] @ is) c =
      (case callee d c2 of Inl e \<Rightarrow> Inl e | Inr c3 \<Rightarrow> exec callee link is c3)"
    and "regs c2 ESP = p - 8" "stack c2 (p - 4) = p" "words_at (stack c2) p (saved_words c)"
    and "world c2 = world c" "wide_push c2 = wide_push c"
    and "sregs c2 = (sregs c)(DS := 0x10, ES := 0x10, FS := 0x10, GS := 0x10)"
    and "\<And>a. \<not> in_region (p - 8) 56 a \<Longrightarrow> stack c2 a = stack c a"
proof -
  obtain c1 where c1: "exec callee link save_regs c = Inr c1" "regs c1 ESP = p - 4" "stack c1 (p - 4) = p"
    "words_at (stack c1) p (saved_words c)" "world c1 = world c" "wide_push c1 = wide_push c"
    "sregs c1 = (sregs c)(DS := 0x10, ES := 0x10, FS := 0x10, GS := 0x10)"
    "\<forall>a. \<not> in_region (p - 4) 52 a \<longrightarrow> stack c1 a = stack c a"
    using save_regs [of callee link c] by (auto simp: p_def)
  let ?c2 = "push link (set_reg EAX d c1)"
  have c2: "regs ?c2 ESP = p - 8" "stack ?c2 = (stack c1)(p - 8 := link)" "world ?c2 = world c"
    "sregs ?c2 = sregs c1" "wide_push ?c2 = wide_push c"
    by (simp_all add: push_def set_reg_def c1)
  note cut = in_region_shift [where p = "p - 8" and k = 8] in_region_shift [where p = "p - 8" and k = 4]
  have "stack ?c2 a = stack c a" if "\<not> in_region (p - 8) 56 a" for a
    using that c1(8) cut(3) [of 52 a] in_regionI [of 0 56 "p - 8"] by (auto simp: c2(2))
  moreover have "stack ?c2 a = stack c1 a" if "in_region p 48 a" for a
    using that cut(2) [of 48 a] in_regionI [of 0 8 "p - 8"] by (auto simp: c2(2))
  then have "words_at (stack ?c2) p (saved_words c)"
    using c1(4) words_at_cong [of p "saved_words c" "stack ?c2" "stack c1"] by simp
  moreover have "exec callee link (save_regs @ [Mov_imm_eax d, Call_eax] @ is) c =
      (case callee d ?c2 of Inl e \<Rightarrow> Inl e | Inr c3 \<Rightarrow> exec callee link is c3)" for "is"
    using c1(1) by (simp add: exec_append)
  ultimately show thesis using that [of ?c2] c1(3,7) by (simp add: c2)
qed

text \<open>
  From the end of the dispatcher to the end of the stub: what the dispatcher must have left are the
  saved registers and the words the processor pushed, behind \<open>n\<close> bytes of number and error code.
\<close>

lemma stub_leaves:
  fixes c c3 :: "'k cpu" and n :: nat
  defines "p \<equiv> regs c ESP - 48"
  assumes "regs c3 ESP = p - 4" "words_at (stack c3) p (saved_words c)"
    and "words_at (stack c3) (p + 48 + of_nat n) [ip, code_sel, fl]"
    and "sregs c3 = (sregs c)(DS := x, ES := x, FS := x, GS := x)"
  obtains c' where "exec callee link (restore_regs (of_nat n)) c3 = Inr c'"
    and "regs c' = (regs c)(ESP := p + 60 + of_nat n)" "sregs c' = (sregs c)(CS := ucast code_sel)"
    and "pc c' = ip" "efl c' = fl" "stack c' = stack c3" "world c' = world c3" "wide_push c' = wide_push c3"
  using restore_regs [of c3 _ _ _ _ _ _ _ _ _ _ _ _ "of_nat n" ip code_sel fl callee link, unfolded assms(2)] assms(3-5) that
  by (fastforce simp: saved_words_def Let_def fun_eq_iff split: reg.split)

text \<open>
  What a call of the dispatcher leaves: it writes to \<open>own\<close> and to the \<open>room + 8\<close> bytes below \<open>p\<close>, so
  the structure and the words behind it stay.
\<close>

lemma call_frame:
  fixes p :: u32
  assumes "room + 128 \<le> 2 ^ 32" "n \<le> 8" "\<And>a. in_region p (60 + n) a \<Longrightarrow> a \<notin> own"
    and call: "\<And>a. a \<notin> own \<Longrightarrow> \<not> in_region (p - 8 - of_nat room) (room + 8) a \<Longrightarrow> m3 a = m2 a"
    and before: "\<And>a. \<not> in_region (p - 8) 56 a \<Longrightarrow> m2 a = m a"
  shows "in_region p (60 + n) a \<Longrightarrow> m3 a = m2 a"
    and "in_region (p + 48 + of_nat n) 12 a \<Longrightarrow> m3 a = m a"
    and "a \<notin> own \<Longrightarrow> \<not> in_region (p - 8 - of_nat room) (room + 56) a \<Longrightarrow> m3 a = m a"
proof -
  define q where "q = p - 8 - of_nat room"
  have q: "q + of_nat (room + 8) = p" "q + of_nat room = p - 8" by (simp_all add: q_def)
  note cut = in_region_shift [where p = q and k = "room + 8", unfolded q] in_region_shift [where p = "p - 8" and k = 8]
  show above: "m3 a = m2 a" if "in_region p (60 + n) a" for a
    using call assms(3) [OF that] cut(2) [of "60 + n" a] assms(1,2) that by (simp add: q_def)
  show "m3 a = m a" if "in_region (p + 48 + of_nat n) 12 a"
  proof -
    have "in_region p (48 + n + 12) a" "\<not> in_region p (48 + n) a"
      using in_region_shift [of "48 + n" 12 p a] that assms(2) by (simp_all add: add.assoc)
    then have "in_region p (60 + n) a" "\<not> in_region (p - 8) 56 a"
      using cut(3) [of 48 a] cut(4) [of "60 + n" a] assms(2) in_region_mono [of p 48 a "48 + n"] by (auto simp: add.commute)
    then show ?thesis using above before by simp
  qed
  show "m3 a = m a" if "a \<notin> own" "\<not> in_region (p - 8 - of_nat room) (room + 56) a"
  proof -
    have "\<not> in_region q (room + 8) a" "\<not> in_region p 48 a" "\<not> in_region (p - 8) 8 a"
      using that(2) cut(1) [of 48 a] in_region_shift(1) [of room 8 q a] assms(1) unfolding q q_def [symmetric]
      by (simp_all add: add.assoc)
    then show ?thesis using call before cut(3) [of 48 a] that(1) by (simp add: q_def)
  qed
qed

text \<open>A stub as a whole, from behind the push of the number.\<close>

lemma stub_resumes:
  fixes c :: "'k cpu" and n :: nat
  defines "p \<equiv> regs c ESP - 48"
  assumes callee: "compiled view own room f (callee d)" "room + 128 \<le> 2 ^ 32"
    and n: "n \<le> 8" "words_at (stack c) (p + 48 + of_nat n) [ip, code_sel, fl]"
    and frame: "\<And>a. in_region p (60 + n) a \<Longrightarrow> a \<notin> own"
    and view: "\<And>m. words_at m p (saved_words c) \<Longrightarrow> (\<And>a. \<not> in_region (p - 8) 56 a \<Longrightarrow> m a = stack c a) \<Longrightarrow> view m p = r"
  shows "ends_in (exec callee link (save_regs @ [Mov_imm_eax d, Call_eax] @ restore_regs (of_nat n)) c) (f r (world c)) (\<lambda>c'.
      regs c' = (regs c)(ESP := p + 60 + of_nat n) \<and> sregs c' = (sregs c)(CS := ucast code_sel) \<and>
      pc c' = ip \<and> efl c' = fl \<and> wide_push c' = wide_push c \<and>
      (\<forall>a. a \<notin> own \<and> \<not> in_region (p - 8 - of_nat room) (room + 56) a \<longrightarrow> stack c' a = stack c a))"
proof -
  obtain c2 where c2: "\<And>is. exec callee link (save_regs @ [Mov_imm_eax d, Call_eax] @ is) c =
      (case callee d c2 of Inl e \<Rightarrow> Inl e | Inr c3 \<Rightarrow> exec callee link is c3)"
    "regs c2 ESP = p - 8" "stack c2 (p - 4) = p" "words_at (stack c2) p (saved_words c)" "world c2 = world c"
    "wide_push c2 = wide_push c" "sregs c2 = (sregs c)(DS := 0x10, ES := 0x10, FS := 0x10, GS := 0x10)"
    "\<And>a. \<not> in_region (p - 8) 56 a \<Longrightarrow> stack c2 a = stack c a"
    using stub_enters [of callee link d c, folded p_def] by blast
  have "view (stack c2) p = r" "regs c2 ESP + 4 = p - 4" using view [OF c2(4,8)] c2(2) by simp_all
  note call = callee(1) [unfolded compiled_def, rule_format, of c2, unfolded this c2(3), unfolded this c2(2,5-7)]
  show ?thesis
  proof (cases "f r (world c)")
    case (Inl e)
    then show ?thesis using call c2(1) by (simp add: ends_in_def)
  next
    case (Inr w)
    then obtain c3 where c3: "callee d c2 = Inr c3" "world c3 = w" "regs c3 ESP = p - 4"
      "sregs c3 = (sregs c)(DS := 0x10, ES := 0x10, FS := 0x10, GS := 0x10)" "wide_push c3 = wide_push c"
      "\<And>a. a \<notin> own \<Longrightarrow> \<not> in_region (p - 8 - of_nat room) (room + 8) a \<Longrightarrow> stack c3 a = stack c2 a"
      using call by (auto simp: ends_in_def)
    note kept = call_frame [where p = p and ?m3.0 = "stack c3" and ?m2.0 = "stack c2" and m = "stack c", OF callee(2) n(1) frame c3(6) c2(8)]
    have "words_at (stack c3) p (saved_words c)"
      using c2(4) kept(1) in_region_mono [of p 48 _ "60 + n"] words_at_cong [of p "saved_words c" "stack c3" "stack c2"] by simp
    moreover have "words_at (stack c3) (p + 48 + of_nat n) [ip, code_sel, fl]"
      using n(2) kept(2) words_at_cong [of "p + 48 + of_nat n" "[ip, code_sel, fl]" "stack c3" "stack c"] by simp
    ultimately obtain c' where "exec callee link (restore_regs (of_nat n)) c3 = Inr c'"
      "regs c' = (regs c)(ESP := p + 60 + of_nat n)" "sregs c' = (sregs c)(CS := ucast code_sel)"
      "pc c' = ip" "efl c' = fl" "stack c' = stack c3" "world c' = w" "wide_push c' = wide_push c"
      using stub_leaves [of c3 c n ip code_sel fl "0x10" callee link, folded p_def] c3(2-5) by metis
    then show ?thesis using Inr c2(1) c3(1) kept(3) by (simp add: ends_in_def)
  qed
qed

section \<open>Interrupts\<close>

text \<open>What an interrupt leaves as it was, but for the kernel's own state and data and the free stack.\<close>

definition resumed :: "u32 set \<Rightarrow> nat \<Rightarrow> 'k cpu \<Rightarrow> 'k cpu \<Rightarrow> bool" where
  "resumed own n c c' \<longleftrightarrow> regs c' = regs c \<and> sregs c' = sregs c \<and> pc c' = pc c \<and> efl c' = efl c \<and>
     wide_push c' = wide_push c \<and>
     (\<forall>a. a \<notin> own \<and> \<not> in_region (regs c ESP - of_nat n) n a \<longrightarrow> stack c' a = stack c a)"

definition stack_free :: "u32 set \<Rightarrow> nat \<Rightarrow> 'k cpu \<Rightarrow> bool" where
  "stack_free own n c \<longleftrightarrow> (\<forall>a. in_region (regs c ESP - of_nat n) n a \<longrightarrow> a \<notin> own)"

text \<open>
  An interrupt and its stub: \<open>c\<close> is the interrupted state, \<open>c0\<close> the one behind the push of the number,
  \<open>n\<close> the bytes of the number and of the error code.
\<close>

lemma interrupt_resumes:
  fixes c c0 :: "'k cpu" and n :: nat
  defines "p \<equiv> regs c ESP - of_nat (60 + n)"
  assumes callee: "compiled view own room f (callee d)" "room + 128 \<le> 2 ^ 32" "n \<le> 8" "stack_free own (60 + n) c"
    and c0: "regs c0 = (regs c)(ESP := p + 48)" "sregs c0 = (sregs c)(CS := 8)" "world c0 = world c" "wide_push c0 = wide_push c"
      "words_at (stack c0) (p + 48 + of_nat n) [pc c, pushed_sreg 8 CS c, efl c]"
      "\<And>a. \<not> in_region (p + 48) (12 + n) a \<Longrightarrow> stack c0 a = stack c a"
    and view: "\<And>m. words_at m p (saved_words c0) \<Longrightarrow> (\<And>a. \<not> in_region (p - 8) 56 a \<Longrightarrow> m a = stack c0 a) \<Longrightarrow> view m p = r"
  shows "ends_in (exec callee link (save_regs @ [Mov_imm_eax d, Call_eax] @ restore_regs (of_nat n)) c0) (f r (world c))
    (resumed own (room + 68 + n) c)"
proof -
  have p: "regs c0 ESP - 48 = p" and esp: "regs c ESP = p + 60 + of_nat n" by (simp_all add: c0(1) p_def)
  have free: "a \<notin> own" if "in_region p (60 + n) a" for a using that callee(4) by (simp add: stack_free_def p_def)
  let ?post = "\<lambda>c'. regs c' = (regs c0)(ESP := p + 60 + of_nat n) \<and> sregs c' = (sregs c0)(CS := ucast (pushed_sreg 8 CS c)) \<and>
      pc c' = pc c \<and> efl c' = efl c \<and> wide_push c' = wide_push c0 \<and>
      (\<forall>a. a \<notin> own \<and> \<not> in_region (p - 8 - of_nat room) (room + 56) a \<longrightarrow> stack c' a = stack c0 a)"
  have "ends_in (exec callee link (save_regs @ [Mov_imm_eax d, Call_eax] @ restore_regs (of_nat n)) c0) (f r (world c0)) ?post"
    by (rule stub_resumes [where callee = callee and d = d and c = c0 and n = n, unfolded p, OF callee(1-3) c0(5) free view])
  moreover have "resumed own (room + 68 + n) c c'" if c': "?post c'" for c'
  proof -
    let ?q = "p - 8 - of_nat room"
    have q: "regs c ESP - of_nat (room + 68 + n) = ?q" "?q + of_nat (room + 56) = p + 48" by (simp_all add: esp)
    have len: "room + 68 + n = (room + 56) + (12 + n)" by simp
    have "stack c' a = stack c a" if "a \<notin> own" "\<not> in_region ?q (room + 68 + n) a" for a
      using that(2) [unfolded len] in_region_shift(1) [of "room + 56" "12 + n" ?q a, unfolded q(2)] callee(2,3) c' c0(6) that(1)
      by simp
    then show ?thesis using c' unfolding resumed_def q(1) by (simp add: c0 esp pushed_sreg_def fun_eq_iff)
  qed
  ultimately show ?thesis unfolding c0(3) by (rule ends_in_mono)
qed

text \<open>An interrupt of line \<open>j\<close>, from the interrupted code and back.\<close>

lemma irq_stub_resumes:
  fixes c :: "'k cpu"
  assumes "compiled read_IRQRegs own room f (callee d)" "room + 128 \<le> 2 ^ 32" "stack_free own 64 c"
  shows "ends_in (exec callee link (irq_stub d j) (take_interrupt (h, 8, True) None c)) (f (irq_frame j c) (world c))
    (resumed own (room + 72) c)"
proof -
  obtain c0 where c0: "exec callee link [Cli, Push_imm (of_nat j)] (take_interrupt (h, 8, True) None c) = Inr c0"
    by (simp add: take_interrupt_def instr_defs)
  define p where "p = regs c ESP - 64"
  have esp: "regs c ESP = p + 64" by (simp add: p_def)
  have state: "regs c0 = (regs c)(ESP := p + 48)" "sregs c0 = (sregs c)(CS := 8)" "world c0 = world c" "wide_push c0 = wide_push c"
    "stack c0 = (stack c)(p + 60 := efl c, p + 56 := pushed_sreg 8 CS c, p + 52 := pc c, p + 48 := of_nat j)"
    using c0 by (auto simp: take_interrupt_def instr_defs pushed_sreg_def fun_eq_iff p_def)
  have "ends_in (exec callee link (save_regs @ [Mov_imm_eax d, Call_eax] @ restore_regs (of_nat 4)) c0)
      (f (irq_frame j c) (world c)) (resumed own (room + 68 + 4) c)"
  proof (rule interrupt_resumes [where callee = callee and d = d and n = 4 and ?c0.0 = c0 and c = c, OF assms(1,2)])
    show "stack c0 a = stack c a" if "\<not> in_region (regs c ESP - of_nat (60 + 4) + 48) (12 + 4) a" for a
      using that by (auto simp: state esp in_region_def)
    show "read_IRQRegs m (regs c ESP - of_nat (60 + 4)) = irq_frame j c"
      if "words_at m (regs c ESP - of_nat (60 + 4)) (saved_words c0)"
        "\<And>a. \<not> in_region (regs c ESP - of_nat (60 + 4) - 8) 56 a \<Longrightarrow> m a = stack c0 a" for m
      using that(1) that(2) [of "p + 48"] that(2) [of "p + 52"] that(2) [of "p + 56"] that(2) [of "p + 60"]
        that(2) [of "p + 64"] that(2) [of "p + 68"]
      by (simp add: saved_words_def state in_region_def read_IRQRegs_def irq_frame_def pushed_sreg_def tos_def esp Let_def)
        (simp add: add.commute)
  qed (use assms(3) in \<open>simp_all add: state esp\<close>)
  moreover have "exec callee link (irq_stub d j) (take_interrupt (h, 8, True) None c) =
      exec callee link (save_regs @ [Mov_imm_eax d, Call_eax] @ restore_regs (of_nat 4)) c0"
    unfolding irq_stub_def stubs_split exec_append [of _ _ "[Cli, _]"] c0 by simp
  ultimately show ?thesis by (simp add: add.commute)
qed

text \<open>An exception with a stub: every one finds its number and its error code, or 0 if it has none.\<close>

lemma fault_stub_resumes:
  fixes c :: "'k cpu"
  assumes "compiled read_FaultRegs own room f (callee d)" "room + 128 \<le> 2 ^ 32" "stack_free own 68 c" "k \<le> 14"
  shows "ends_in (exec callee link (fault_stub d k) (take_interrupt (h, 8, g) (if k \<in> error_code_vectors then Some e else None) c))
    (f (fault_frame k (if k \<in> error_code_vectors then e else 0) c) (world c)) (resumed own (room + 76) c)"
proof -
  let ?code = "if k \<in> error_code_vectors then e else 0"
  let ?pushes = "if k \<in> error_code_vectors then [Cli, Push_imm (of_nat k)] else [Push_imm 0, Push_imm (of_nat k)]"
  let ?taken = "take_interrupt (h, 8, g) (if k \<in> error_code_vectors then Some e else None) c"
  have "\<exists>c0. exec callee link ?pushes ?taken = Inr c0"
    by (cases "k \<in> error_code_vectors") (simp_all add: take_interrupt_def instr_defs)
  then obtain c0 where c0: "exec callee link ?pushes ?taken = Inr c0" ..
  define p where "p = regs c ESP - 68"
  have esp: "regs c ESP = p + 68" by (simp add: p_def)
  have state: "regs c0 = (regs c)(ESP := p + 48)" "sregs c0 = (sregs c)(CS := 8)" "world c0 = world c" "wide_push c0 = wide_push c"
    "stack c0 = (stack c)(p + 64 := efl c, p + 60 := pushed_sreg 8 CS c, p + 56 := pc c, p + 52 := ?code, p + 48 := of_nat k)"
    using c0 by (cases "k \<in> error_code_vectors"; auto simp: take_interrupt_def instr_defs pushed_sreg_def fun_eq_iff p_def)+
  have "ends_in (exec callee link (save_regs @ [Mov_imm_eax d, Call_eax] @ restore_regs (of_nat 8)) c0)
      (f (fault_frame k ?code c) (world c)) (resumed own (room + 68 + 8) c)"
  proof (rule interrupt_resumes [where callee = callee and d = d and n = 8 and ?c0.0 = c0 and c = c, OF assms(1,2)])
    show "stack c0 a = stack c a" if "\<not> in_region (regs c ESP - of_nat (60 + 8) + 48) (12 + 8) a" for a
      using that by (auto simp: state esp in_region_def)
    show "read_FaultRegs m (regs c ESP - of_nat (60 + 8)) = fault_frame k ?code c"
      if "words_at m (regs c ESP - of_nat (60 + 8)) (saved_words c0)"
        "\<And>a. \<not> in_region (regs c ESP - of_nat (60 + 8) - 8) 56 a \<Longrightarrow> m a = stack c0 a" for m
      using that(1) that(2) [of "p + 48"] that(2) [of "p + 52"] that(2) [of "p + 56"] that(2) [of "p + 60"]
        that(2) [of "p + 64"] that(2) [of "p + 68"] that(2) [of "p + 72"]
      by (simp add: saved_words_def state in_region_def read_FaultRegs_def fault_frame_def pushed_sreg_def tos_def esp Let_def)
        (simp add: add.commute)
  qed (use assms(3) in \<open>simp_all add: state esp\<close>)
  moreover have "fault_stub d k = ?pushes @ fault_asm_common d"
    using assms(4) by (auto simp: fault_stub_def fault_code_def fault_nocode_def error_code_vectors_def)
  then have "exec callee link (fault_stub d k) ?taken = exec callee link (fault_asm_common d) c0"
    by (simp only: exec_append c0 sum.case)
  moreover have "room + 68 + 8 = room + 76" by simp
  ultimately show ?thesis unfolding stubs_split by (simp only: of_nat_numeral)
qed

lemma resumed_trans: "resumed own n a b \<Longrightarrow> resumed own n b c \<Longrightarrow> resumed own n a c"
  by (simp add: resumed_def)

lemma resumed_refl: "resumed own n c c"
  by (simp add: resumed_def)

lemma deliver_resumes:
  fixes c :: "runtime cpu"
  assumes "compiled read_IRQRegs own room (irq_call (device_irq pit kbd)) (callee d)" "room + 128 \<le> 2 ^ 32"
    and "\<And>j. j < 16 \<Longrightarrow> \<exists>h. gate idt (32 + j) = Some (h, 8, True) \<and> code h = irq_stub d j"
    and "irq_run pit kbd js s t" "world c = s" "stack_free own 64 c" "efl c AND 0x200 \<noteq> 0"
  shows "\<exists>c'. deliver code callee link idt js c = Inr c' \<and> resumed own (room + 72) c c' \<and> world c' = t"
  using assms(4-7)
proof (induction arbitrary: c rule: irq_run.induct)
  case (Next j s t js u)
  from Next.hyps(1) have j: "j < 16" "IRQDispatcher (device_irq pit kbd) (of_nat j) s = Inr t" by (auto simp: irq_step_iff)
  obtain h where h: "gate idt (32 + j) = Some (h, 8, True)" "code h = irq_stub d j" using assms(3) [OF j(1)] by blast
  have "irq_call (device_irq pit kbd) (irq_frame j c) (world c) = Inr t"
    using j(2) Next.prems(1) by (simp add: irq_call_def irq_frame_def)
  then obtain c1 where c1: "exec callee link (irq_stub d j) (take_interrupt (h, 8, True) None c) = Inr c1"
    "resumed own (room + 72) c c1" "world c1 = t"
    using irq_stub_resumes [where callee = callee and d = d and c = c and j = j and h = h and link = link, OF assms(1,2) Next.prems(2)]
    by (auto simp: ends_in_def)
  then have "stack_free own 64 c1" "efl c1 AND 0x200 \<noteq> 0" using Next.prems(2,3) by (simp_all add: resumed_def stack_free_def)
  from Next.IH [OF c1(3) this] show ?case
    using c1(1,2) h Next.prems(3) resumed_trans [OF c1(2)] by auto
qed (simp add: resumed_refl)

section \<open>The properties\<close>

text \<open>
  C23. While the kernel waits with interrupts enabled, every sequence of interrupts of the open lines
  goes through the gates and the assembly stubs and back: the kernel's state is that after the same
  run of the dispatcher, and all registers, segment registers, flags, the instruction pointer and
  all memory but the kernel's own data and the free part of the stack are what they were.
\<close>

theorem interrupts_transparent:
  fixes c :: "runtime cpu"
  assumes "compiled read_IRQRegs own room (irq_call (device_irq pit kbd)) (callee d)" "room + 128 \<le> 2 ^ 32"
    and "\<And>j. j < 16 \<Longrightarrow> gate idt (32 + j) = Some (irqs ! j, 8, True) \<and> code (irqs ! j) = irq_stub d j"
    and "lines_ready pit kbd (world c)" "pit \<noteq> 0" "kbd \<noteq> 0" "pit \<noteq> kbd" "set js \<subseteq> {0, 1, 2, 7, 12, 15}"
    and "stack_free own 64 c" "efl c AND 0x200 \<noteq> 0"
  shows "\<exists>c'. deliver code callee link idt js c = Inr c' \<and> irq_run pit kbd js (world c) (world c') \<and>
    resumed own (room + 72) c c'"
proof -
  obtain t where t: "irq_run pit kbd js (world c) t"
    using irq_run_possible [OF assms(4-7)] assms(8) by (auto simp: interrupts_def)
  have "\<exists>h. gate idt (32 + j) = Some (h, 8, True) \<and> code h = irq_stub d j" if "j < 16" for j using assms(3) [OF that] by blast
  from deliver_resumes [where callee = callee and d = d, OF assms(1,2) this t refl assms(9,10)] show ?thesis using t by blast
qed

text \<open>
  A compiled function that clobbers the registers it may and the flags, and the processor in the idle loop.
\<close>

definition call_model :: "((u32 \<Rightarrow> u32) \<Rightarrow> u32 \<Rightarrow> 'r) \<Rightarrow> ('r \<Rightarrow> 'k \<Rightarrow> 'e + 'k) \<Rightarrow> 'k cpu \<Rightarrow> 'e + 'k cpu" where
  "call_model view f c =
     (case f (view (stack c) (stack c (regs c ESP + 4))) (world c) of
        Inl e \<Rightarrow> Inl e
      | Inr w \<Rightarrow> Inr (drop_words 1 (c\<lparr>regs := (regs c)(EAX := 0, ECX := 1, EDX := 2), efl := 0, world := w\<rparr>)))"

lemma call_model: "compiled view own room f (call_model view f)"
  by (auto simp: compiled_def call_model_def ends_in_def drop_words_def split: sum.split)

definition idle_cpu :: "'k \<Rightarrow> 'k cpu" where
  "idle_cpu w = \<lparr>regs = (\<lambda>_. 7)(ESP := 0xc0200000), sregs = (\<lambda>_. 0x10)(CS := 8), pc = 0xc0100100, efl = 0x202,
     stack = (\<lambda>_. 0), wide_push = True, world = w\<rparr>"

theorem interrupts_transparent_witness:
  "\<exists>idt s c'. deliver (\<lambda>h. irq_stub 0xc0100200 (unat (h - 0xc0101000)))
      (\<lambda>_. call_model read_IRQRegs (irq_call (device_irq 0xc0130000 0xc0130100))) 0xc0101100 idt [0, 1, 0, 7, 12]
      (idle_cpu s) = Inr c' \<and>
    irq_run 0xc0130000 0xc0130100 [0, 1, 0, 7, 12] s (world c') \<and> regs c' = (\<lambda>_. 7)(ESP := 0xc0200000) \<and> pc c' = 0xc0100100"
proof -
  let ?irqs = "map (\<lambda>j. 0xc0101000 + of_nat j) [0..<16] :: u32 list"
  obtain idt where idt: "\<forall>j<16. gate idt (32 + j) = Some (?irqs ! j, 8, True)"
    using IDT_vectors_char [of empty_idt ?irqs "replicate 20 None" "\<lambda>_. 0" 0] by (auto simp: empty_idt_def)
  obtain s :: runtime where s: "lines_ready 0xc0130000 0xc0130100 s" by (rule booted_machine)
  have gates: "gate idt (32 + j) = Some (?irqs ! j, 8, True) \<and>
      irq_stub 0xc0100200 (unat (?irqs ! j - 0xc0101000)) = irq_stub 0xc0100200 j" if "j < 16" for j
    using idt that by (simp add: unat_of_nat_small)
  have ready: "lines_ready 0xc0130000 0xc0130100 (world (idle_cpu s))" using s by (simp add: idle_cpu_def)
  have free: "stack_free {} 64 (idle_cpu s)" "efl (idle_cpu s) AND 0x200 \<noteq> 0" by (simp_all add: stack_free_def idle_cpu_def)
  have addresses: "(0xc0130000 :: u32) \<noteq> 0" "(0xc0130100 :: u32) \<noteq> 0" "(0xc0130000 :: u32) \<noteq> 0xc0130100" by simp_all
  have lines: "set [0, 1, 0, 7, 12] \<subseteq> {0, 1, 2, 7, 12, 15 :: nat}" and room: "(0x1000 :: nat) + 128 \<le> 2 ^ 32" by simp_all
  from interrupts_transparent [where callee = "\<lambda>_. call_model read_IRQRegs (irq_call (device_irq 0xc0130000 0xc0130100))"
      and d = "0xc0100200", OF call_model room gates ready addresses lines free]
  show ?thesis by (fastforce simp: resumed_def idle_cpu_def)
qed

text \<open>
  C24. For every exception with a stub the dispatcher finds the number and the error code of the
  exception (0 if it has none) on the stack. If a handler solved the fault, the interrupted code goes on
  with all its registers; otherwise the processor stops with the dispatcher's report. The fields for
  the interrupted stack pointer and its segment hold the top of the interrupted stack instead.
\<close>

theorem fault_handled:
  fixes c :: "fault_state cpu" and e :: u32 and k :: nat
  defines "r \<equiv> fault_frame k (if k \<in> error_code_vectors then e else 0) c"
  assumes "compiled read_FaultRegs own room (fault_call cr2) (callee d)" "room + 128 \<le> 2 ^ 32" "stack_free own 68 c"
    and "(fault, k, type) \<in> set fault_vectors"
  shows "int_no r = fault_number fault \<and> FaultRegs.esp r = stack c (regs c ESP) \<and> FaultRegs.ss r = stack c (regs c ESP + 4) \<and>
    (let x = exec callee link (fault_stub d k)
           (take_interrupt (h, 8, type = Interrupt) (if k \<in> error_code_vectors then Some e else None) c)
     in case FaultDispatcher (world c) cr2 r of
          Resumed \<Rightarrow> \<exists>c'. x = Inr c' \<and> resumed own (room + 76) c c' \<and> world c' = world c
        | report \<Rightarrow> x = Inl report)"
proof -
  have k: "k \<le> 14" "fault_number fault = of_nat k" using assms(5) by (auto simp: fault_vectors_def)
  note stub = fault_stub_resumes [where callee = callee and d = d and c = c and e = e, OF assms(2-4) k(1), folded r_def]
  have "int_no r = fault_number fault" "FaultRegs.esp r = stack c (regs c ESP)" "FaultRegs.ss r = stack c (regs c ESP + 4)"
    by (simp_all add: r_def fault_frame_def k(2) tos_def)
  then show ?thesis using stub [where link = link and h = h and g = "type = Interrupt"]
    by (auto simp: ends_in_def fault_call_def Let_def split: fault_outcome.splits)
qed

definition solving_state :: fault_state where
  "solving_state = \<lparr>fault_idt = empty_idt, fhandlers = (replicate 20 None)[0 := Some (\<lambda>_ _. Inr True)]\<rparr>"

theorem fault_handled_witness:
  "\<exists>c'. exec (\<lambda>_. call_model read_FaultRegs (fault_call 0)) 0xc0101100 (fault_stub 0xc0100300 0)
      (take_interrupt (0xc0100000, 8, True) None (idle_cpu solving_state)) = Inr c' \<and>
    regs c' = (\<lambda>_. 7)(ESP := 0xc0200000) \<and> pc c' = 0xc0100100"
proof -
  have room: "(0x1000 :: nat) + 128 \<le> 2 ^ 32" by simp
  have free: "stack_free {} 68 (idle_cpu solving_state)" by (simp add: stack_free_def)
  have vector: "(DivideByZero, 0, InterruptType.Interrupt) \<in> set fault_vectors" by (simp add: fault_vectors_def)
  have "FaultDispatcher (world (idle_cpu solving_state)) 0 (fault_frame 0 0 (idle_cpu solving_state)) = Resumed"
    by (simp add: FaultDispatcher_def solving_state_def idle_cpu_def fault_frame_def)
  then show ?thesis
    using fault_handled [where callee = "\<lambda>_. call_model read_FaultRegs (fault_call 0)" and d = "0xc0100300" and e = 0
        and link = "0xc0101100" and h = "0xc0100000", OF call_model room free vector]
    by (auto simp: Let_def resumed_def idle_cpu_def error_code_vectors_def)
qed

end
