(* ===== verification/Boot_Entry_Properties.thy ===== *)
theory Boot_Entry_Properties
  imports Boot_Entry Boot_Properties Stub_Properties
begin

text \<open>
  The boot code: the page tables it builds and what the processor makes of them, the structure it hands
  over, and the boot code followed by the initialisations of \<open>kernel_main\<close>, with the boot loader's
  data in memory.
\<close>

unbundle bit_operations_syntax

lemma multiboot_header_checksum: "sum_list multiboot_header = 0" "length multiboot_header = 3"
  by (simp_all add: multiboot_header_def)

lemma flat_segments: "segment 0x08 = Some (0, 0xffffffff, True, 0)" "segment 0x10 = Some (0, 0xffffffff, False, 0)"
  by (simp_all add: segment_def gdt_limit_def gdt_tables_def)

section \<open>The tables of the boot code\<close>

definition tables_ok :: "u32 \<Rightarrow> bool" where
  "tables_ok d \<longleftrightarrow> unat d mod 4096 = 0 \<and> unat d + 12288 \<le> 0x400000"

definition boot_paging :: "u32 \<Rightarrow> VMM \<Rightarrow> bool" where
  "boot_paging d s \<longleftrightarrow> cr3 s = d \<and>
     (\<forall>i<1024. pmem s (d + 4 * of_nat i) = (if i = 0 then (d + 4096) OR 3 else if i = 768 then (d + 8192) OR 3 else 0)) \<and>
     (\<forall>q<1024. pmem s (d + 4096 + 4 * of_nat q) = of_nat (4096 * q) OR 3 \<and>
       pmem s (d + 8192 + 4 * of_nat q) = of_nat (4096 * q) OR 3)"

lemma table_addresses:
  assumes "tables_ok d"
  shows "unat (d + 4096) = unat d + 4096" "unat (d + 8192) = unat d + 8192"
    and "frame d = d" "frame (d + 4096) = d + 4096" "frame (d + 8192) = d + 8192"
proof -
  show u: "unat (d + 4096) = unat d + 4096" "unat (d + 8192) = unat d + 8192"
    using assms by (subst unat_add_small; simp add: tables_ok_def)+
  show "frame d = d" "frame (d + 4096) = d + 4096" "frame (d + 8192) = d + 8192"
    using assms by (auto intro!: frame_id simp: u tables_ok_def mod_eq_0_iff_dvd)
qed

lemma boot_paging_entries:
  assumes "tables_ok d" "boot_paging d s"
  shows "i < 1024 \<Longrightarrow> pde s i = (if i = 0 then (d + 4096) OR 3 else if i = 768 then (d + 8192) OR 3 else 0)"
    and "i \<in> {0, 768} \<Longrightarrow> q < 1024 \<Longrightarrow> pte s i q = of_nat (4096 * q) OR 3"
    and "i < 1024 \<Longrightarrow> VMM.present (pde s i) \<longleftrightarrow> i \<in> {0, 768}"
    and "frame (pde s 0) = d + 4096" "frame (pde s 768) = d + 8192"
proof -
  note a = table_addresses [OF assms(1)]
  show pd: "pde s i = (if i = 0 then (d + 4096) OR 3 else if i = 768 then (d + 8192) OR 3 else 0)" if "i < 1024" for i
    using assms(2) that unfolding boot_paging_def pde_def by (simp add: a)
  show fr: "frame (pde s 0) = d + 4096" "frame (pde s 768) = d + 8192" using a frame_or_3 by (simp_all add: pd)
  show "i \<in> {0, 768} \<Longrightarrow> q < 1024 \<Longrightarrow> pte s i q = of_nat (4096 * q) OR 3"
    using assms(2) fr unfolding boot_paging_def pte_def by auto
  show "i < 1024 \<Longrightarrow> VMM.present (pde s i) \<longleftrightarrow> i \<in> {0, 768}" using present_or by (auto simp: pd VMM.present_def)
qed

lemma boot_paging_update:
  assumes "tables_ok d" "boot_paging d s" "unat a < unat d \<or> unat d + 12288 \<le> unat a"
  shows "boot_paging d (s\<lparr>pmem := (pmem s)(a := x)\<rparr>)"
proof -
  note u = table_addresses [OF assms(1)]
  have "d + 4 * of_nat i \<noteq> a" "d + 4096 + 4 * of_nat i \<noteq> a" "d + 8192 + 4 * of_nat i \<noteq> a" if "i < 1024" for i
    using unat_slot [of d i] unat_slot [of "d + 4096" i] unat_slot [of "d + 8192" i] u(1,2) that assms(1,3)
    by (auto simp: tables_ok_def mod_eq_0_iff_dvd)
  then show ?thesis using assms(2) by (simp add: boot_paging_def)
qed

lemma boot_paging_translate:
  assumes "tables_ok d" "boot_paging d s" "page_number v < 1024 \<or> page_number v div 1024 = 768"
  shows "translate s v = Some (of_nat (4096 * (page_number v mod 1024)) + (v AND 0xfff))"
proof -
  let ?q = "page_number v mod 1024"
  have i: "page_number v div 1024 \<in> {0, 768}" "page_number v div 1024 < 1024" using assms(3) by auto
  have "VMM_Tables.entry s (page_number v) = Some (of_nat (4096 * ?q) OR 3)"
    using boot_paging_entries(2) [OF assms(1,2) i(1), of ?q] boot_paging_entries(3) [OF assms(1,2) i(2)] i(1)
    by (simp add: VMM_Tables.entry_def)
  moreover have "unat (of_nat (4096 * ?q) :: u32) mod 4096 = 0"
    using unat_of_nat_small [where 'a = 32, of "4096 * ?q"] by simp
  then have "frame (of_nat (4096 * ?q) OR 3) = of_nat (4096 * ?q)" using frame_or_3 frame_id by metis
  moreover have "VMM.present (of_nat (4096 * ?q) OR 3)" using present_or by simp
  ultimately show ?thesis unfolding translate_entry by simp
qed



text \<open>The first 4 MB are seen at their own addresses and from 0xC0000000 on.\<close>

lemma boot_paging_low:
  assumes "tables_ok d" "boot_paging d s" "unat v < 0x400000"
  shows "translate s v = Some v"
proof -
  have "page_number v < 1024" using assms(3) by (simp add: page_number_def)
  then show ?thesis using boot_paging_translate [OF assms(1,2), of v] page_split [of v] by simp
qed

lemma boot_paging_high:
  assumes "tables_ok d" "boot_paging d s" "0xc0000000 \<le> unat v" "unat v < 0xc0400000"
  shows "translate s v = Some (v - 0xc0000000)"
proof -
  have page: "page_number v div 1024 = 768" using assms(3,4) by (auto simp: page_number_def)
  then have "page_number v = 786432 + page_number v mod 1024" using div_mult_mod_eq [of "page_number v" 1024] by simp
  then have "4096 * page_number v = 0xc0000000 + 4096 * (page_number v mod 1024)" by simp
  then have "of_nat (4096 * page_number v) = (0xc0000000 :: u32) + of_nat (4096 * (page_number v mod 1024))"
    by (simp only: of_nat_add of_nat_numeral)
  then have "v - 0xc0000000 = of_nat (4096 * (page_number v mod 1024)) + (v AND 0xfff)" using page_split [of v] by (simp add: algebra_simps)
  then show ?thesis using boot_paging_translate [OF assms(1,2), of v] page by simp
qed

text \<open>The words of an aligned address, byte by byte.\<close>

lemma phys_byte_aligned:
  assumes "unat a mod 4 = 0" "k < 4"
  shows "phys_byte pm (a + of_nat k) = ucast (drop_bit (8 * k) (pm a))"
proof -
  have "unat a + k < 4294967296" using assms unat_less_u32 [of a] by presburger
  then have "unat a + k < 2 ^ 32" by simp
  moreover have k: "unat (of_nat k :: u32) = k" using assms(2) by (simp add: unat_of_nat_small)
  ultimately have u: "unat (a + of_nat k) = unat a + k" by (simp add: unat_add_small)
  have "(3 :: u32) = mask 2" by (simp add: mask_eq_exp_minus_1)
  then have low: "unat ((a + of_nat k) AND 3) = k" using unat_and_mask [of "a + of_nat k" 2] assms by (simp add: u mod_add_eq [symmetric] del: mod_add_eq)
  then have "unat ((a + of_nat k) AND NOT 3) = unat a" by (simp only: unat_and_not low u diff_add_inverse2)
  then have "(a + of_nat k) AND NOT 3 = a" by (rule unat_inj)
  then show ?thesis unfolding phys_byte_def low by simp
qed

lemma virtual_word:
  assumes "tables_ok d" "boot_paging d s" "0xc0000000 \<le> unat v" "unat v + 4 \<le> 0xc0400000" "unat v mod 4 = 0"
  shows "load32 (virtual_mem s) v = pmem s (v - 0xc0000000)"
proof (rule load32_bytes)
  let ?a = "v - 0xc0000000"
  have "unat ?a = unat v - 0xc0000000" using assms(3) by (subst unat_sub_le) (simp_all add: word_le_nat_alt)
  then have a: "unat ?a mod 4 = 0" using assms(3,5) by (simp add: mod_eq_0_iff_dvd dvd_diff_nat)
  have byte: "virtual_mem s (v + of_nat k) = ucast (drop_bit (8 * k) (pmem s ?a))" if k: "k < 4" for k
  proof -
    have "unat (v + of_nat k) = unat v + k" using assms(4) k by (subst unat_add_small) (simp_all add: unat_of_nat_small)
    then have "translate s (v + of_nat k) = Some (?a + of_nat k)"
      using boot_paging_high [OF assms(1,2), of "v + of_nat k"] assms(3,4) k by (simp add: algebra_simps)
    then show ?thesis by (simp add: virtual_mem_def phys_byte_aligned [OF a k])
  qed
  show "virtual_mem s v = ucast (pmem s ?a)" using byte [of 0] by simp
  show "virtual_mem s (v + 1) = ucast (drop_bit 8 (pmem s ?a))" using byte [of 1] by simp
  show "virtual_mem s (v + 2) = ucast (drop_bit 16 (pmem s ?a))" using byte [of 2] by simp
  show "virtual_mem s (v + 3) = ucast (drop_bit 24 (pmem s ?a))" using byte [of 3] by simp
qed

section \<open>The boot code\<close>

text \<open>
  An image that fits into the 3 MB behind the first megabyte, as the linker lays it out: \<open>b\<close> is the
  address of the stack, \<open>kend\<close> the end of the image.
\<close>

definition image_ok :: "u32 \<Rightarrow> u32 \<Rightarrow> bool" where
  "image_ok b kend \<longleftrightarrow> unat b mod 16 = 0 \<and> 0xc0100000 \<le> unat b \<and> unat b < 0xc0400000 \<and>
     unat (BootPageTableHigh b) + 4096 \<le> unat kend \<and> unat kend \<le> 0xc0400000"

lemma image_addresses:
  assumes "image_ok b kend"
  defines "t \<equiv> kboot_struct b - 0xc0000000" and "d \<equiv> BootPageDirectory b - 0xc0000000"
  shows "tables_ok d" "unat t mod 4 = 0" "0x108000 \<le> unat t" "unat t + 24 \<le> unat d"
    and "unat d + 12288 + 0xc0000000 \<le> unat kend" "unat (kboot_struct b) = unat t + 0xc0000000"
    and "BootPageTableLow b - 0xc0000000 = d + 4096" "BootPageTableHigh b - 0xc0000000 = d + 8192"
proof -
  have k: "unat (kboot_struct b) = unat b + 32768"
    using assms(1) unfolding kboot_struct_def stack_top_def image_ok_def by (subst unat_add_small) simp_all
  have "unat (kboot_struct b + 24 + 0xfff) = unat b + 36887"
    using assms(1) k unfolding image_ok_def by (simp add: unat_add_small)
  then have d: "unat (BootPageDirectory b) = unat b + 36887 - (unat b + 36887) mod 4096"
    unfolding BootPageDirectory_def by (simp only: unat_and_not unat_and_0xfff)
  have t: "unat t = unat b + 32768 - 0xc0000000"
    unfolding t_def using assms(1) k by (subst unat_sub_le) (simp_all add: word_le_nat_alt image_ok_def)
  have "(unat b + 36887) mod 4096 < 4096" by simp
  then have D: "unat b + 32792 \<le> unat (BootPageDirectory b)" "unat (BootPageDirectory b) mod 4096 = 0"
      "unat (BootPageDirectory b) \<le> unat b + 36887"
    unfolding d by (linarith, simp add: minus_mod_eq_mult_div, simp)
  have high: "unat (BootPageTableHigh b) = unat (BootPageDirectory b) + 8192"
    using D(3) assms(1) unfolding BootPageTableHigh_def BootPageTableLow_def image_ok_def by (simp add: unat_add_small)
  have d: "unat d = unat (BootPageDirectory b) - 0xc0000000"
    unfolding d_def using assms(1) D(1) by (subst unat_sub_le) (simp_all add: word_le_nat_alt image_ok_def)
  then show "tables_ok d" using D high assms(1) by (auto simp: tables_ok_def image_ok_def mod_eq_0_iff_dvd intro: dvd_diff_nat)
  show "unat t mod 4 = 0" unfolding t using assms(1) by (simp add: image_ok_def) presburger
  show "0x108000 \<le> unat t" "unat t + 24 \<le> unat d" "unat d + 12288 + 0xc0000000 \<le> unat kend"
    "unat (kboot_struct b) = unat t + 0xc0000000"
    using t d D high k assms(1) by (auto simp: image_ok_def)
  show "BootPageTableLow b - 0xc0000000 = d + 4096" "BootPageTableHigh b - 0xc0000000 = d + 8192"
    by (simp_all add: d_def BootPageTableLow_def BootPageTableHigh_def)
qed

definition fill_entry :: "u32 \<Rightarrow> nat \<Rightarrow> (u32 \<Rightarrow> u32) \<Rightarrow> u32 \<Rightarrow> u32" where
  "fill_entry d i m =
     (let e = push_bit 12 (of_nat i) OR 3 in m(d + 8192 + 4 * of_nat i := e, d + 4096 + 4 * of_nat i := e))"

lemma fill_entries:
  assumes "tables_ok d" "n \<le> 1024"
  shows "(\<forall>q<1024. for_upto (fill_entry d) n m (d + 4096 + 4 * of_nat q) =
        (if q < n then of_nat (4096 * q) OR 3 else m (d + 4096 + 4 * of_nat q)) \<and>
      for_upto (fill_entry d) n m (d + 8192 + 4 * of_nat q) =
        (if q < n then of_nat (4096 * q) OR 3 else m (d + 8192 + 4 * of_nat q))) \<and>
    (\<forall>a. unat a < unat d + 4096 \<or> unat d + 12288 \<le> unat a \<longrightarrow> for_upto (fill_entry d) n m a = m a)"
  using assms(2)
proof (induction n)
  case (Suc n)
  note u = table_addresses [OF assms(1)]
  have ids: "unat (d + 4096) mod 4096 = 0" "unat (d + 8192) mod 4096 = 0" "d + 4096 \<noteq> d + 8192" "n < 1024"
    using assms(1) Suc.prems u(1,2) by (auto simp: tables_ok_def mod_eq_0_iff_dvd)
  have at: "fill_entry d n m' x = (if x = d + 4096 + 4 * of_nat n \<or> x = d + 8192 + 4 * of_nat n then of_nat (4096 * n) OR 3 else m' x)" for m' x
    by (simp add: fill_entry_def Let_def push_bit_eq_mult mult.commute)
  have eq: "d + 4096 + 4 * of_nat q = d + 4096 + 4 * of_nat n \<longleftrightarrow> q = n" "d + 8192 + 4 * of_nat q = d + 8192 + 4 * of_nat n \<longleftrightarrow> q = n"
    "d + 4096 + 4 * of_nat q \<noteq> d + 8192 + 4 * of_nat n" "d + 8192 + 4 * of_nat q \<noteq> d + 4096 + 4 * of_nat n" if "q < 1024" for q
    using slot_eq_iff [OF ids(1,1) that ids(4)] slot_eq_iff [OF ids(2,2) that ids(4)] slot_eq_iff [OF ids(1,2) that ids(4)]
      slot_eq_iff [OF ids(2,1) that ids(4)] ids(3) by simp_all
  have slots: "unat (d + 4096 + 4 * of_nat n) = unat d + 4096 + 4 * n" "unat (d + 8192 + 4 * of_nat n) = unat d + 8192 + 4 * n"
    using unat_slot [OF ids(1,4)] unat_slot [OF ids(2,4)] u(1,2) by simp_all
  have "d + 4096 + 4 * of_nat n \<noteq> a" "d + 8192 + 4 * of_nat n \<noteq> a" if "unat a < unat d + 4096 \<or> unat d + 12288 \<le> unat a" for a
    using slots that ids(4) by auto
  then show ?case using Suc.IH Suc.prems eq unfolding for_upto.simps at by (auto simp: less_Suc_eq simp del: of_nat_mult add_left_cancel)
qed simp

text \<open>The state when paging is enabled, in terms of the addresses \<open>t\<close> of the structure and \<open>d\<close> of the tables.\<close>

definition paged :: "u32 \<Rightarrow> u32 \<Rightarrow> u32 \<Rightarrow> u32 \<Rightarrow> VMM \<Rightarrow> VMM" where
  "paged b kend a0 b0 s = enable_paging b
     (s\<lparr>pmem := fill_boot_page_tables b (fill_boot_page_dir b (fill_boot_struct b kend a0 b0 (pmem s)))\<rparr>)"

lemma below_tables:
  fixes t d :: u32
  assumes "unat t + 24 \<le> unat d" "0x108000 \<le> unat t"
  shows "unat (t - 4) = unat t - 4" "unat (t + 4) = unat t + 4" "unat (t + 8) = unat t + 8" "unat (t + 12) = unat t + 12"
    "unat (t + 16) = unat t + 16" "unat (t + 20) = unat t + 20"
proof -
  have "unat t + 24 < 2 ^ 32" using assms(1) unat_less_u32 [of d] by simp
  then show "unat (t + 4) = unat t + 4" "unat (t + 8) = unat t + 8" "unat (t + 12) = unat t + 12"
    "unat (t + 16) = unat t + 16" "unat (t + 20) = unat t + 20"
    by (simp_all add: unat_add_small)
  show "unat (t - 4) = unat t - 4" using assms(2) by (subst unat_sub_le) (simp_all add: word_le_nat_alt)
qed

definition struct_words :: "u32 \<Rightarrow> u32 \<Rightarrow> u32 \<Rightarrow> u32 \<Rightarrow> (u32 \<Rightarrow> u32) \<Rightarrow> u32 \<Rightarrow> u32" where
  "struct_words t kend a0 b0 m = m(t - 4 := b0, t := a0, t + 4 := b0, t + 8 := 0x100000, t + 12 := kend - 0xc0000000)"

definition table_words :: "u32 \<Rightarrow> (u32 \<Rightarrow> u32) \<Rightarrow> u32 \<Rightarrow> u32" where
  "table_words d m = for_upto (fill_entry d) 1024 (m(d := (d + 4096) OR 3, d + 0xc00 := (d + 8192) OR 3))"

lemma paged_eq:
  assumes "image_ok b kend"
  defines "t \<equiv> kboot_struct b - 0xc0000000" and "d \<equiv> BootPageDirectory b - 0xc0000000"
  shows "paged b kend a0 b0 s = s\<lparr>pmem := (table_words d (struct_words t kend a0 b0 (pmem s)))(t + 20 := d), cr3 := d\<rparr>"
proof -
  note addr = image_addresses [OF assms(1), folded t_def d_def]
  have t: "stack_top b - 0xc0000000 = t" by (simp add: t_def kboot_struct_def)
  have "fill_boot_struct b kend a0 b0 (pmem s) = struct_words t kend a0 b0 (pmem s)"
    by (simp add: fill_boot_struct_def t p_kernel_start_def Let_def struct_words_def flip: t_def)
  moreover have "fill_boot_page_tables b (fill_boot_page_dir b m) = table_words d m" for m
    by (simp add: fill_boot_page_dir_def fill_boot_page_tables_def addr Let_def or.commute fill_entry_def [abs_def] table_words_def flip: d_def)
  ultimately show ?thesis unfolding paged_def enable_paging_def by (simp add: Let_def flip: t_def d_def)
qed

lemma table_words:
  assumes "tables_ok d"
  shows "i < 1024 \<Longrightarrow> table_words d m (d + 4 * of_nat i) =
      (if i = 0 then (d + 4096) OR 3 else if i = 768 then (d + 8192) OR 3 else m (d + 4 * of_nat i))"
    and "q < 1024 \<Longrightarrow> table_words d m (d + 4096 + 4 * of_nat q) = of_nat (4096 * q) OR 3 \<and>
      table_words d m (d + 8192 + 4 * of_nat q) = of_nat (4096 * q) OR 3"
    and "unat a < unat d \<or> unat d + 12288 \<le> unat a \<Longrightarrow> table_words d m a = m a"
proof -
  let ?m1 = "m(d := (d + 4096) OR 3, d + 0xc00 := (d + 8192) OR 3)"
  note fills = fill_entries [OF assms, of 1024 ?m1]
  have D: "unat d mod 4096 = 0" "unat d + 12288 < 2 ^ 32" using assms by (simp_all add: tables_ok_def)
  have dir: "unat (d + 0xc00) = unat d + 0xc00" using D(2) by (subst unat_add_small) simp_all
  have outside: "table_words d m a = ?m1 a" if "unat a < unat d + 4096 \<or> unat d + 12288 \<le> unat a" for a
    using fills that unfolding table_words_def by blast
  show "q < 1024 \<Longrightarrow> table_words d m (d + 4096 + 4 * of_nat q) = of_nat (4096 * q) OR 3 \<and>
      table_words d m (d + 8192 + 4 * of_nat q) = of_nat (4096 * q) OR 3"
    using fills unfolding table_words_def by simp
  show "table_words d m (d + 4 * of_nat i) =
      (if i = 0 then (d + 4096) OR 3 else if i = 768 then (d + 8192) OR 3 else m (d + 4 * of_nat i))" if i: "i < 1024"
  proof -
    have "d + 4 * of_nat i = d \<longleftrightarrow> i = 0" "d + 4 * of_nat i = d + 0xc00 \<longleftrightarrow> i = 768"
      using slot_eq_iff [OF D(1,1) i, of 0] slot_eq_iff [OF D(1,1) i, of 768] by simp_all
    then show ?thesis using outside [of "d + 4 * of_nat i"] unat_slot [OF D(1) i] i by simp
  qed
  show "table_words d m a = m a" if "unat a < unat d \<or> unat d + 12288 \<le> unat a"
  proof -
    have "a \<noteq> d" "a \<noteq> d + 0xc00" using that dir by auto
    then show ?thesis using outside that by auto
  qed
qed

lemma paged_memory:
  fixes s :: VMM
  assumes ok: "image_ok b kend"
  defines "t \<equiv> kboot_struct b - 0xc0000000" and "d \<equiv> BootPageDirectory b - 0xc0000000"
  assumes bss: "\<And>i. i < 1024 \<Longrightarrow> pmem s (d + 4 * of_nat i) = 0"
  shows "boot_paging d (paged b kend a0 b0 s)"
    and "pmem (paged b kend a0 b0 s) t = a0" "pmem (paged b kend a0 b0 s) (t + 4) = b0"
    and "pmem (paged b kend a0 b0 s) (t + 8) = 0x100000" "pmem (paged b kend a0 b0 s) (t + 12) = kend - 0xc0000000"
    and "pmem (paged b kend a0 b0 s) (t + 20) = d"
    and "\<And>a. unat a < unat t - 4 \<or> unat d + 12288 \<le> unat a \<or> unat t + 24 \<le> unat a \<and> unat a < unat d \<Longrightarrow>
      pmem (paged b kend a0 b0 s) a = pmem s a"
proof -
  note addr = image_addresses [OF ok, folded t_def d_def]
  define m0 where "m0 = struct_words t kend a0 b0 (pmem s)"
  have u: "paged b kend a0 b0 s = s\<lparr>pmem := (table_words d m0)(t + 20 := d), cr3 := d\<rparr>"
    using paged_eq [OF ok, folded t_def d_def] by (simp add: m0_def)
  note w = below_tables [OF addr(4,3)] and tables = table_words [OF addr(1)] and ta = table_addresses [OF addr(1)]
  have D: "unat d mod 4096 = 0" using addr(1) by (simp add: tables_ok_def)
  then have slots: "unat (d + 4 * of_nat i) = unat d + 4 * i" "unat (d + 4096 + 4 * of_nat i) = unat d + 4096 + 4 * i"
    "unat (d + 8192 + 4 * of_nat i) = unat d + 8192 + 4 * i" if "i < 1024" for i
    using unat_slot [OF _ that, of d] unat_slot [OF _ that, of "d + 4096"] unat_slot [OF _ that, of "d + 8192"] ta(1,2)
    by (simp_all add: mod_eq_0_iff_dvd)
  have behind: "x \<noteq> t + 20" if "unat d \<le> unat x" for x using that w(6) addr(4) by auto
  have field: "d + 4 * of_nat i \<noteq> t + 20" "d + 4096 + 4 * of_nat i \<noteq> t + 20" "d + 8192 + 4 * of_nat i \<noteq> t + 20"
    if "i < 1024" for i
    by (intro behind; simp only: slots [OF that]; simp)+
  have high: "m0 a = pmem s a" if "unat a < unat t - 4 \<or> unat t + 24 \<le> unat a" for a
    using that w addr(3) by (auto simp: m0_def struct_words_def)
  then have "m0 (d + 4 * of_nat i) = 0" if "i < 1024" for i using slots(1) [OF that] addr(4) bss [OF that] by simp
  then show "boot_paging d (paged b kend a0 b0 s)" using tables(1,2) field by (simp add: boot_paging_def u del: of_nat_mult)
  show "pmem (paged b kend a0 b0 s) t = a0" "pmem (paged b kend a0 b0 s) (t + 4) = b0"
    "pmem (paged b kend a0 b0 s) (t + 8) = 0x100000" "pmem (paged b kend a0 b0 s) (t + 12) = kend - 0xc0000000"
    "pmem (paged b kend a0 b0 s) (t + 20) = d"
    using tables(3) addr(4) w unfolding u by (auto simp: m0_def struct_words_def)
  show "pmem (paged b kend a0 b0 s) a = pmem s a"
    if "unat a < unat t - 4 \<or> unat d + 12288 \<le> unat a \<or> unat t + 24 \<le> unat a \<and> unat a < unat d" for a
  proof -
    have "a \<noteq> t + 20" using that w(6) addr(3,4) by auto
    moreover have "unat a < unat d \<or> unat d + 12288 \<le> unat a" "unat a < unat t - 4 \<or> unat t + 24 \<le> unat a"
      using that addr(4) by linarith+
    ultimately show ?thesis using tables(3) [of a] high [of a] unfolding u by simp
  qed
qed

lemma paged_write:
  assumes "tables_ok d" "boot_paging d s" "translate s v = Some a" "unat a < unat d \<or> unat d + 12288 \<le> unat a"
  shows "vwrite s v x = Inr (s\<lparr>pmem := (pmem s)(a := x)\<rparr>)" "boot_paging d (s\<lparr>pmem := (pmem s)(a := x)\<rparr>)"
  using assms(3) boot_paging_update [OF assms(1,2,4)] by (simp_all add: vwrite_def)

definition letter :: "u32 \<Rightarrow> u32" where
  "letter old = (old AND 0xffff0000) OR 0x0f41"

lemma boot_entry_char:
  fixes s :: VMM and a0 b0 link :: u32
  assumes ok: "image_ok b kend"
  defines "t \<equiv> kboot_struct b - 0xc0000000" and "d \<equiv> BootPageDirectory b - 0xc0000000" and "u \<equiv> paged b kend a0 b0 s"
  assumes bss: "\<And>i. i < 1024 \<Longrightarrow> pmem s (d + 4 * of_nat i) = 0"
  defines "s' \<equiv> u\<lparr>pmem := (pmem u)(t + 16 := 0xc0000000, 0xb8004 := letter (pmem s 0xb8004), t - 4 := kboot_struct b, t - 8 := link)\<rparr>"
  shows "boot_entry b kend link a0 b0 s = Inr (kboot_struct b, s')" "boot_paging d s'"
proof -
  note addr = image_addresses [OF ok, folded t_def d_def]
  note w = below_tables [OF addr(4,3)] 
    and u = paged_memory [where ?a0.0 = a0 and ?b0.0 = b0, OF ok, folded t_def d_def, OF bss, folded u_def]
  have D: "unat d + 12288 \<le> 0x400000" using addr(1) by (simp add: tables_ok_def)
  have t8: "unat (t - 8) = unat t - 8" using addr(3) by (subst unat_sub_le) (simp_all add: word_le_nat_alt)
  have st: "unat (stack_top b - 4) = unat t + 0xc0000000 - 4" "unat (stack_top b - 8) = unat t + 0xc0000000 - 8"
    using addr(6) unfolding kboot_struct_def by (subst unat_sub_le; simp add: word_le_nat_alt)+
  have less: "unat t - 4 < unat d" "unat t - 8 < unat d" using addr(3,4) by linarith+
  have sub: "stack_top b - 4 - 0xc0000000 = t - 4" "stack_top b - 8 - 0xc0000000 = t - 8" by (simp_all add: t_def kboot_struct_def)
  define u1 where "u1 = u\<lparr>pmem := (pmem u)(t + 16 := 0xc0000000)\<rparr>"
  have p1: "vwrite u (t + 16) 0xc0000000 = Inr u1" "boot_paging d u1"
    unfolding u1_def using paged_write [OF addr(1) u(1) boot_paging_low [OF addr(1) u(1)], of "t + 16"] w(5) addr(4) D by simp_all
  have "unat (0xb8004 :: u32) < unat t - 4" using addr(3) by simp
  then have "pmem u 0xb8004 = pmem s 0xb8004" "t + 16 \<noteq> 0xb8004" using u(7) w(5) by auto
  then have old: "pmem u1 0xb8004 = pmem s 0xb8004" by (simp add: u1_def)
  define u2 where "u2 = u1\<lparr>pmem := (pmem u1)(0xb8004 := letter (pmem s 0xb8004))\<rparr>"
  have l: "translate u1 0xb8004 = Some 0xb8004" by (rule boot_paging_low [OF addr(1) p1(2)]) simp
  then have "vread u1 0xb8004 = Inr (pmem s 0xb8004)" using old by (simp add: vread_def)
  then have p2: "vwrite16 u1 0xb8004 0x0f41 = Inr u2" "boot_paging d u2"
    unfolding u2_def using paged_write [OF addr(1) p1(2) l] addr(3,4) by (simp_all add: vwrite16_def letter_def)
  define u3 where "u3 = u2\<lparr>pmem := (pmem u2)(t - 4 := kboot_struct b)\<rparr>"
  have p3: "vwrite u2 (stack_top b - 4) (kboot_struct b) = Inr u3" "boot_paging d u3"
    unfolding u3_def using paged_write [OF addr(1) p2(2) boot_paging_high [OF addr(1) p2(2)], of "stack_top b - 4"] st(1) w(1) less(1) addr(3,4) D
    by (simp_all add: sub)
  have "s' = u3\<lparr>pmem := (pmem u3)(t - 8 := link)\<rparr>" by (simp add: s'_def u1_def u2_def u3_def)
  then have p4: "vwrite u3 (stack_top b - 8) link = Inr s'" "boot_paging d s'"
    using paged_write [OF addr(1) p3(2) boot_paging_high [OF addr(1) p3(2)], of "stack_top b - 8"] st(2) t8 less(2) addr(3,4) D
    by (simp_all add: sub)
  show "boot_paging d s'" by fact
  have "enable_paging b (s\<lparr>pmem := fill_boot_page_tables b (fill_boot_page_dir b (fill_boot_struct b kend a0 b0 (pmem s)))\<rparr>) = u"
    by (simp add: u_def paged_def)
  then show "boot_entry b kend link a0 b0 s = Inr (kboot_struct b, s')"
    using p1(1) p2(1) p3(1) p4(1) by (simp add: boot_entry_def Let_def flip: t_def)
qed

text \<open>The structure the kernel gets, and the bytes of physical memory the boot code writes.\<close>

definition boot_struct :: "u32 \<Rightarrow> u32 \<Rightarrow> u32 \<Rightarrow> u32 \<Rightarrow> BootStruct" where
  "boot_struct b kend a0 b0 =
     \<lparr>magic = a0, multiboot_phys_ptr = b0, phys_kernel_start = 0x100000, phys_kernel_end = kend - 0xc0000000,
      phys_virt_offset = 0xc0000000, phys_cr3_addr = BootPageDirectory b - 0xc0000000\<rparr>"

definition entry_written :: "u32 \<Rightarrow> u32 \<Rightarrow> bool" where
  "entry_written b a \<longleftrightarrow> unat (kboot_struct b) - 8 \<le> unat a + 0xc0000000 \<and> unat a + 0xc0000000 < unat (BootPageTableHigh b) + 4096 \<or>
     0xb8004 \<le> unat a \<and> unat a < 0xb8008"

definition bss_zero :: "u32 \<Rightarrow> VMM \<Rightarrow> bool" where
  "bss_zero b s \<longleftrightarrow> (\<forall>i<1024. pmem s (BootPageDirectory b - 0xc0000000 + 4 * of_nat i) = 0)"

text \<open>What the boot code does not write is the same byte for byte.\<close>

lemma entry_bytes_kept:
  assumes ok: "image_ok b kend"
  defines "t \<equiv> kboot_struct b - 0xc0000000" and "d \<equiv> BootPageDirectory b - 0xc0000000"
  assumes last: "\<And>x. x \<noteq> t + 16 \<Longrightarrow> x \<noteq> t - 4 \<Longrightarrow> x \<noteq> t - 8 \<Longrightarrow> x \<noteq> 0xb8004 \<Longrightarrow> pmem s' x = pmem u x"
    and kept: "\<And>x. unat x < unat t - 4 \<or> unat d + 12288 \<le> unat x \<Longrightarrow> pmem u x = pmem s x"
    and a: "unat a < 0x400000" "\<not> entry_written b a"
  shows "phys_byte (pmem s') a = phys_byte (pmem s) a"
proof -
  note addr = image_addresses [OF ok, folded t_def d_def]
  note w = below_tables [OF addr(4,3)]
  have t8: "unat (t - 8) = unat t - 8" using addr(3) by (subst unat_sub_le) (simp_all add: word_le_nat_alt)
  have D: "unat d + 12288 \<le> 0x400000" using addr(1) by (simp add: tables_ok_def)
  have "BootPageTableHigh b = d + 8192 + 0xc0000000" using addr(8) by (simp add: algebra_simps)
  then have high: "unat (BootPageTableHigh b) = unat d + 8192 + 0xc0000000" using D by (simp add: unat_add_small)
  define x where "x = a AND NOT 3"
  have "unat x = unat a - unat (a AND 3)" unfolding x_def by (rule unat_and_not)
  moreover have "unat (a AND 3) = unat a mod 4" using unat_and_mask [of a 2] by (simp add: mask_eq_exp_minus_1)
  ultimately have x: "unat x = 4 * (unat a div 4)" by (simp add: minus_mod_eq_mult_div)
  then have le: "unat x \<le> unat a" "unat a < unat x + 4" by simp_all
  have out: "unat a < unat t - 8 \<or> unat d + 12288 \<le> unat a" "\<not> (0xb8004 \<le> unat a \<and> unat a < 0xb8008)"
    using a(2) addr(6) high unfolding entry_written_def by auto
  obtain k where "unat d = 4096 * k" using addr(1) by (auto simp: tables_ok_def mod_eq_0_iff_dvd elim!: dvdE)
  then have n: "unat d + 12288 = 4 * (1024 * k + 3072)" by simp
  have "unat d + 12288 \<le> unat x" if "unat d + 12288 \<le> unat a" 
    using div_le_mono [OF that [unfolded n], of 4] unfolding n x by simp
  then have range: "unat x < unat t - 8 \<or> unat d + 12288 \<le> unat x" using out(1) le by linarith
  then have "unat x \<noteq> unat t + 16" "unat x \<noteq> unat t - 4" "unat x \<noteq> unat t - 8" using addr(3,4) by linarith+
  moreover have "unat x \<noteq> unat (0xb8004 :: u32)" using out(2) le by auto
  ultimately have "x \<noteq> t + 16" "x \<noteq> t - 4" "x \<noteq> t - 8" "x \<noteq> 0xb8004" using w t8 by metis+
  then have "pmem s' x = pmem u x" by (rule last)
  moreover have "unat x < unat t - 4 \<or> unat d + 12288 \<le> unat x" using range by linarith
  then have "pmem u x = pmem s x" by (rule kept)
  ultimately have "pmem s' x = pmem s x" by simp
  then show ?thesis by (simp only: phys_byte_def x_def)
qed

lemma boot_entry_struct:
  assumes ok: "image_ok b kend" and bss: "bss_zero b s"
  shows "\<exists>s'. boot_entry b kend link a0 b0 s = Inr (kboot_struct b, s') \<and>
    read_BootStruct (virtual_mem s') (kboot_struct b) = boot_struct b kend a0 b0 \<and>
    boot_paging (BootPageDirectory b - 0xc0000000) s' \<and> 
    (\<forall>a. unat a < 0x400000 \<and> \<not> entry_written b a \<longrightarrow> virtual_mem s' a = phys_byte (pmem s) a)"
proof -
  define t where "t = kboot_struct b - 0xc0000000"
  define d where "d = BootPageDirectory b - 0xc0000000"
  define u where "u = paged b kend a0 b0 s"
  define s' where "s' = u\<lparr>pmem := (pmem u)(t + 16 := 0xc0000000, 0xb8004 := letter (pmem s 0xb8004), t - 4 := kboot_struct b, t - 8 := link)\<rparr>"
  have bss': "\<And>i. i < 1024 \<Longrightarrow> pmem s (d + 4 * of_nat i) = 0" using bss by (simp add: bss_zero_def d_def)
  note addr = image_addresses [OF ok, folded t_def d_def]
  note w = below_tables [OF addr(4,3)]
    and u = paged_memory [where ?a0.0 = a0 and ?b0.0 = b0, OF ok, folded t_def d_def, OF bss', folded u_def]
  note entry = boot_entry_char [where ?a0.0 = a0 and ?b0.0 = b0 and link = link, OF ok, folded t_def d_def, OF bss', folded u_def, folded s'_def]
  have D: "unat d + 12288 \<le> 0x400000" using addr(1) by (simp add: tables_ok_def)
  have word: "load32 (virtual_mem s') (kboot_struct b + c) = pmem s' (t + c)" if "unat c \<le> 20" "unat c mod 4 = 0" for c
  proof -
    have "unat (kboot_struct b + c) = unat t + 0xc0000000 + unat c"
      using addr(4,6) D that(1) by (subst unat_add_small) simp_all
    moreover have "(unat t + 0xc0000000 + unat c) mod 4 = 0" using addr(2) that(2) by presburger
    moreover have eq: "kboot_struct b + c - 0xc0000000 = t + c" by (simp add: t_def)
    ultimately show ?thesis using virtual_word [OF addr(1) entry(2), of "kboot_struct b + c", unfolded eq] addr(4) D that(1) by simp
  qed
  have ne: "t + c \<noteq> 0xb8004" "t + c \<noteq> t - 4" "t + c \<noteq> t - 8" if "c \<in> {0, 4, 8, 12, 16, 20}" for c
    using that w addr(3) by auto
  have struct: "read_BootStruct (virtual_mem s') (kboot_struct b) = boot_struct b kend a0 b0"
    using word [of 0] word [of 4] word [of 8] word [of 12] word [of 16] word [of 20] ne [of 0] ne [of 4] ne [of 8] ne [of 12]
      ne [of 16] ne [of 20] u(2-6)
    by (simp add: read_BootStruct_def boot_struct_def s'_def flip: d_def)
  have "virtual_mem s' a = phys_byte (pmem s) a" if a: "unat a < 0x400000" "\<not> entry_written b a" for a
  proof -
    have "phys_byte (pmem s') a = phys_byte (pmem s) a"
      by (rule entry_bytes_kept [OF ok _ _ a, folded t_def d_def, where u = u]) (simp add: s'_def, use u(7) in blast)
    then show ?thesis using boot_paging_low [OF addr(1) entry(2) a(1)] by (simp add: virtual_mem_def)
  qed
  then show ?thesis using struct entry unfolding d_def [symmetric] by blast
qed

section \<open>The boot loader's structures\<close>




section \<open>The kernel's image\<close>


section \<open>The properties\<close>

text \<open>
  C14. From an image that fits below 4 MB, with its uninitialised data cleared by the boot loader, the boot
  code comes to the call of \<open>kernel_main\<close> with a structure that reads back field by field through the
  new page tables; these show the first 4 MB at their own addresses and from 0xC0000000 on, and
  nothing else, and memory is what it was but for the stack, the structure, the tables and a letter on the screen.
\<close>

theorem boot_entry_ready:
  assumes "image_ok b kend" "bss_zero b s"
  shows "\<exists>s'. boot_entry b kend link a0 b0 s = Inr (kboot_struct b, s') \<and>
    read_BootStruct (virtual_mem s') (kboot_struct b) = boot_struct b kend a0 b0 \<and>
    cr3 s' = phys_cr3_addr (boot_struct b kend a0 b0) \<and>
    (\<forall>v. translate s' v = (if page_number v < 1024 \<or> page_number v div 1024 = 768
       then Some (of_nat (4096 * (page_number v mod 1024)) + (v AND 0xfff)) else None)) \<and>
    (\<forall>a. unat a < 0x400000 \<and> \<not> entry_written b a \<longrightarrow> virtual_mem s' a = phys_byte (pmem s) a)"
proof -
  obtain s' where s': "boot_entry b kend link a0 b0 s = Inr (kboot_struct b, s')"
    "read_BootStruct (virtual_mem s') (kboot_struct b) = boot_struct b kend a0 b0"
    "boot_paging (BootPageDirectory b - 0xc0000000) s'"
    "\<forall>a. unat a < 0x400000 \<and> \<not> entry_written b a \<longrightarrow> virtual_mem s' a = phys_byte (pmem s) a"
    using boot_entry_struct [OF assms] by blast
  note tables = image_addresses(1) [OF assms(1)]
  have "cr3 s' = phys_cr3_addr (boot_struct b kend a0 b0)" using s'(3) by (simp add: boot_paging_def boot_struct_def)
  moreover have "translate s' v = None" if "\<not> (page_number v < 1024 \<or> page_number v div 1024 = 768)" for v
  proof -
    have "page_number v div 1024 < 1024" using page_number_less [of v] by auto
    then have "\<not> VMM.present (pde s' (page_number v div 1024))"
      using boot_paging_entries(3) [OF tables s'(3)] that by auto
    then show ?thesis by (simp add: translate_entry VMM_Tables.entry_def)
  qed
  ultimately show ?thesis using s' boot_paging_translate [OF tables s'(3)] by auto
qed

text \<open>A small image, with its end at 0x120000, in the loader's memory.\<close>

definition entry_vmm :: VMM where
  "entry_vmm = \<lparr>vmm_pmm = table_pmm, pmem = load32 (loader_mem 48), cr3 = 0, vzones = initial_vzones\<rparr>"

lemma entry_image:
  "image_ok 0xc0107000 0xc0120000" "kboot_struct 0xc0107000 = 0xc010f000" "BootPageDirectory 0xc0107000 = 0xc0110000"
  "BootPageTableHigh 0xc0107000 = 0xc0112000" "boot_struct 0xc0107000 0xc0120000 0x2badb002 0x9000 = sample_boot"
  by (simp_all add: image_ok_def kboot_struct_def stack_top_def BootPageDirectory_def BootPageTableHigh_def BootPageTableLow_def
      boot_struct_def sample_boot_def)

lemma entry_bss: "bss_zero 0xc0107000 entry_vmm"
proof -
  have "load32 (loader_mem 48) (0x110000 + 4 * of_nat i) = 0" if "i < 1024" for i
  proof -
    have zero: "loader_mem 48 x = 0" if "0x10000 \<le> unat x" for x
    proof -
      have "x \<noteq> y" if "unat y < 0x10000" for y using that \<open>0x10000 \<le> unat x\<close> by auto
      then show ?thesis by (simp add: loader_mem_def)
    qed
    have "unat (0x110000 + 4 * of_nat i :: u32) = 0x110000 + 4 * i" by (rule unat_slot [of "0x110000", simplified]) (rule that)
    then have "0x10000 \<le> unat (0x110000 + 4 * of_nat i + of_nat k :: u32)" if "k < 4" for k
      using \<open>i < 1024\<close> that by (subst unat_add_small) (simp_all add: unat_of_nat_small)
    from this [of 0] this [of 1] this [of 2] this [of 3] show ?thesis
      by (simp add: load32_def load16_def zero add.assoc)
  qed
  then show ?thesis by (simp add: bss_zero_def entry_image entry_vmm_def)
qed

theorem boot_entry_ready_witness:
  "\<exists>s'. boot_entry 0xc0107000 0xc0120000 0xc0100400 0x2badb002 0x9000 entry_vmm = Inr (0xc010f000, s') \<and>
    read_BootStruct (virtual_mem s') 0xc010f000 = sample_boot \<and> translate s' 0xc0100000 = Some 0x100000 \<and>
    translate s' 0x400000 = None \<and> virtual_mem s' 0x902c = 48"
proof -
  obtain s' where s': "boot_entry 0xc0107000 0xc0120000 0xc0100400 0x2badb002 0x9000 entry_vmm = Inr (0xc010f000, s')"
    "read_BootStruct (virtual_mem s') 0xc010f000 = sample_boot"
    "\<forall>v. translate s' v = (if page_number v < 1024 \<or> page_number v div 1024 = 768
       then Some (of_nat (4096 * (page_number v mod 1024)) + (v AND 0xfff)) else None)"
    "\<forall>a. unat a < 0x400000 \<and> \<not> entry_written 0xc0107000 a \<longrightarrow> virtual_mem s' a = phys_byte (pmem entry_vmm) a"
    using boot_entry_ready [OF entry_image(1) entry_bss, of "0xc0100400" "0x2badb002" "0x9000", unfolded entry_image(2,5)] by blast
  have "virtual_mem s' 0x902c = phys_byte (pmem entry_vmm) 0x902c"
    by (rule s'(4) [rule_format]) (simp add: entry_written_def entry_image)
  then have "virtual_mem s' 0x902c = 48" by (simp add: entry_vmm_def phys_byte_load32 loader_mem_def)
  moreover have "translate s' 0xc0100000 = Some 0x100000" "translate s' 0x400000 = None"
    unfolding s'(3) [rule_format] by (simp_all add: page_number_def)
  ultimately show ?thesis using s'(1,2) by blast
qed

section \<open>The boot code and the initialisations\<close>






end
